(* ===== verification/Prelude.thy ===== *)
theory Prelude
  imports
    Complex_Main
    "HOL-Library.AList"
    "HOL-Library.Char_ord"
    "HOL-Library.List_Lexorder"
    "HOL-Library.Product_Lexorder"
    "HOL-Library.Sublist"
begin

text \<open>
  Shared layer of the development: what the components use of Python itself.

  \<^item> a raised exception is the left value of \<open>'a res\<close>; \<open>res_bind\<close> is sequencing and
    \<open>res_mapM\<close> a comprehension whose element expression may raise;
  \<^item> a dict is an association list in insertion order: \<^const>\<open>AList.update\<close> is item
    assignment (an existing key keeps its place, a new key goes last), \<^const>\<open>map_of\<close> is
    \<open>get\<close> and \<^const>\<open>AList.delete\<close> is \<open>pop\<close>;
  \<^item> a str is a HOL \<open>string\<close>, one \<open>char\<close> per code point, so the model covers the code points
    U+0000 to U+00FF; comparison is the lexicographic order by code point;
  \<^item> the argument type \<open>Any\<close> is the datatype \<open>pyval\<close>; a float is represented by its
    \<open>repr\<close>, which determines it.

  Messages of exceptions are cut down to their fixed part.
\<close>

named_theorems res_simps "evaluation of computations that may raise"
named_theorems dict_simps "lookup and key facts of dicts"
named_theorems str_simps "facts about strings"

section \<open>Exceptions\<close>

datatype error =
    ValueError string
  | RuntimeError string
  | KeyError string
  | TypeError string
  | AttributeError string
  | FileNotFoundError string
  | JSONDecodeError
  | UnicodeDecodeError
  | OSError string
  | ReadOnlyError string
  | ConcurrentWriterError
  | VectorOnlyIndexError string
  | MigrationError string
  | OverflowError string
  | IndexError string
  | ZeroDivisionError
  | IntegrityError string

type_synonym 'a res = "error + 'a"

definition res_bind :: "'a res \<Rightarrow> ('a \<Rightarrow> 'b res) \<Rightarrow> 'b res" where
  "res_bind m f = (case m of Inl e \<Rightarrow> Inl e | Inr x \<Rightarrow> f x)"

definition raise_if :: "bool \<Rightarrow> error \<Rightarrow> unit res" where
  "raise_if b e = (if b then Inl e else Inr ())"

fun res_mapM :: "('a \<Rightarrow> 'b res) \<Rightarrow> 'a list \<Rightarrow> 'b list res" where
  "res_mapM f [] = Inr []"
| "res_mapM f (x # xs) = res_bind (f x) (\<lambda>y. res_bind (res_mapM f xs) (\<lambda>ys. Inr (y # ys)))"

fun res_fold :: "('a \<Rightarrow> 's \<Rightarrow> 's res) \<Rightarrow> 'a list \<Rightarrow> 's \<Rightarrow> 's res" where
  "res_fold f [] s = Inr s"
| "res_fold f (x # xs) s = res_bind (f x s) (res_fold f xs)"

definition is_ok :: "'a res \<Rightarrow> bool" where
  "is_ok r = (case r of Inl _ \<Rightarrow> False | Inr _ \<Rightarrow> True)"

lemma res_bind_simps [simp, res_simps]:
  "res_bind (Inl e) f = Inl e"
  "res_bind (Inr x) f = f x"
  by (simp_all add: res_bind_def)

lemma res_bind_Inr_iff: "res_bind m f = Inr y \<longleftrightarrow> (\<exists>x. m = Inr x \<and> f x = Inr y)"
  by (cases m) auto

lemma res_bind_InrE [elim!]:
  assumes "res_bind m f = Inr y"
  obtains x where "m = Inr x" "f x = Inr y"
  using assms by (auto simp: res_bind_Inr_iff)

lemma res_bind_assoc: "res_bind (res_bind m f) g = res_bind m (\<lambda>x. res_bind (f x) g)"
  by (cases m) auto

lemma raise_if_Inr [simp]: "raise_if b e = Inr u \<longleftrightarrow> \<not> b"
  by (auto simp: raise_if_def)

lemma raise_if_simps [simp, res_simps]:
  "raise_if True e = Inl e"
  "raise_if False e = Inr ()"
  by (simp_all add: raise_if_def)

lemma is_ok_simps [simp, res_simps]: "\<not> is_ok (Inl e)" "is_ok (Inr x)"
  by (simp_all add: is_ok_def)

lemma is_ok_bind: "is_ok (res_bind m f) \<longleftrightarrow> (\<exists>x. m = Inr x \<and> is_ok (f x))"
  by (cases m) (simp_all add: is_ok_def)

lemma is_ok_iff: "is_ok r \<longleftrightarrow> (\<exists>x. r = Inr x)"
  by (cases r) auto

lemma res_bind_cong [fundef_cong]:
  "m = m' \<Longrightarrow> (\<And>x. m' = Inr x \<Longrightarrow> f x = f' x) \<Longrightarrow> res_bind m f = res_bind m' f'"
  by (cases m') auto

lemma res_mapM_cong [fundef_cong]:
  "xs = ys \<Longrightarrow> (\<And>x. x \<in> set ys \<Longrightarrow> f x = g x) \<Longrightarrow> res_mapM f xs = res_mapM g ys"
proof (induction ys arbitrary: xs)
  case (Cons y ys)
  then have "f y = g y" and "res_mapM f ys = res_mapM g ys" by auto
  with Cons.prems(1) show ?case by simp
qed simp

lemma res_fold_cong [fundef_cong]:
  "xs = ys \<Longrightarrow> s = t \<Longrightarrow> (\<And>x u. x \<in> set ys \<Longrightarrow> f x u = g x u) \<Longrightarrow> res_fold f xs s = res_fold g ys t"
proof (induction ys arbitrary: xs s t)
  case (Cons y ys)
  have "res_fold f ys u = res_fold g ys u" for u
    using Cons.IH [of ys u u] Cons.prems(3) by simp
  then have "res_fold f ys = res_fold g ys" by (rule ext)
  with Cons.prems show ?case by simp
qed simp

lemma res_mapM_Inr_iff: "res_mapM f xs = Inr ys \<longleftrightarrow> list_all2 (\<lambda>x y. f x = Inr y) xs ys"
proof (induction xs arbitrary: ys)
  case (Cons x xs)
  then show ?case by (cases ys) (auto simp: res_bind_Inr_iff)
qed auto

lemma res_mapM_length: "res_mapM f xs = Inr ys \<Longrightarrow> length ys = length xs"
  by (auto simp: res_mapM_Inr_iff dest: list_all2_lengthD)

lemma res_mapM_ok: "(\<And>x. x \<in> set xs \<Longrightarrow> f x = Inr (g x)) \<Longrightarrow> res_mapM f xs = Inr (map g xs)"
  by (induction xs) auto

lemma res_mapM_id: "(\<And>x. x \<in> set xs \<Longrightarrow> f x = Inr x) \<Longrightarrow> res_mapM f xs = Inr xs"
  using res_mapM_ok [of xs f "\<lambda>x. x"] by simp

lemma res_mapM_setD: "res_mapM f xs = Inr ys \<Longrightarrow> y \<in> set ys \<Longrightarrow> \<exists>x \<in> set xs. f x = Inr y"
  unfolding res_mapM_Inr_iff list_all2_conv_all_nth in_set_conv_nth by (metis nth_mem)

lemma res_fold_append: "res_fold f (xs @ ys) s = res_bind (res_fold f xs s) (res_fold f ys)"
proof (induction xs arbitrary: s)
  case (Cons x xs)
  then have "res_fold f (xs @ ys) = (\<lambda>s. res_bind (res_fold f xs s) (res_fold f ys))" by (rule ext)
  then show ?case by (simp add: res_bind_assoc)
qed simp

lemma res_fold_inv:
  assumes "res_fold f xs s = Inr t" and "P s"
    and "\<And>x u v. x \<in> set xs \<Longrightarrow> P u \<Longrightarrow> f x u = Inr v \<Longrightarrow> P v"
  shows "P t"
  using assms
proof (induction xs arbitrary: s)
  case (Cons x xs)
  then show ?case by (auto simp: res_bind_Inr_iff)
qed simp

section \<open>Dicts\<close>

type_synonym ('k, 'v) dict = "('k \<times> 'v) list"

abbreviation dkeys :: "('k, 'v) dict \<Rightarrow> 'k list" where
  "dkeys d \<equiv> map fst d"

abbreviation dict_ok :: "('k, 'v) dict \<Rightarrow> bool" where
  "dict_ok d \<equiv> distinct (map fst d)"

definition dget :: "('k, 'v) dict \<Rightarrow> 'k \<Rightarrow> 'v \<Rightarrow> 'v" where
  "dget d k v = (case map_of d k of None \<Rightarrow> v | Some w \<Rightarrow> w)"

text \<open>The loop \<open>result = {}; for k, v in d.items(): result[k] = g(k, v)\<close>.\<close>

definition dict_build_from ::
    "('k \<Rightarrow> 'v \<Rightarrow> 'w res) \<Rightarrow> ('k, 'v) dict \<Rightarrow> ('k, 'w) dict \<Rightarrow> ('k, 'w) dict res" where
  "dict_build_from g d = res_fold (\<lambda>(k, v) acc. res_bind (g k v) (\<lambda>w. Inr (AList.update k w acc))) d"

definition dict_build :: "('k \<Rightarrow> 'v \<Rightarrow> 'w res) \<Rightarrow> ('k, 'v) dict \<Rightarrow> ('k, 'w) dict res" where
  "dict_build g d = dict_build_from g d []"

lemma map_of_update [simp, dict_simps]:
  "map_of (AList.update k v d) k' = (if k' = k then Some v else map_of d k')"
  by (simp add: update_conv')

lemma map_of_delete_if [simp, dict_simps]:
  "map_of (AList.delete k d) k' = (if k' = k then None else map_of d k')"
  by (simp add: delete_conv')

lemma dict_ok_update [simp, intro, dict_simps]: "dict_ok d \<Longrightarrow> dict_ok (AList.update k v d)"
  by (rule distinct_update)

lemma dict_ok_delete [simp, intro, dict_simps]: "dict_ok d \<Longrightarrow> dict_ok (AList.delete k d)"
  by (rule distinct_delete)

lemma dkeys_update: "set (dkeys (AList.update k v d)) = insert k (set (dkeys d))"
  by (auto simp: update_keys)

lemma dkeys_delete: "set (dkeys (AList.delete k d)) = set (dkeys d) - {k}"
  by (simp add: delete_keys)

lemma map_of_None_iff [dict_simps]: "map_of d k = None \<longleftrightarrow> k \<notin> set (dkeys d)"
  by (simp add: map_of_eq_None_iff)

lemma update_new: "k \<notin> set (dkeys d) \<Longrightarrow> AList.update k v d = d @ [(k, v)]"
  by (induction d) auto

lemma update_set_new:
  "k \<notin> set (dkeys d) \<Longrightarrow> set (AList.update k v d) = insert (k, v) (set d)"
  by (simp add: update_new)

lemma delete_set: "set (AList.delete k d) = {p \<in> set d. fst p \<noteq> k}"
  by (induction d) auto

lemma length_update:
  "length (AList.update k v d) = (if k \<in> set (dkeys d) then length d else Suc (length d))"
  by (induction d) auto

lemma dict_build_from_simps [simp]:
  "dict_build_from g [] acc = Inr acc"
  "dict_build_from g ((k, v) # d) acc =
     res_bind (g k v) (\<lambda>w. dict_build_from g d (AList.update k w acc))"
  by (simp_all add: dict_build_from_def res_bind_assoc)

lemma dict_build_from_cong:
  "(\<And>k v. (k, v) \<in> set d \<Longrightarrow> g k v = h k v) \<Longrightarrow> dict_build_from g d acc = dict_build_from h d acc"
proof (induction d arbitrary: acc)
  case (Cons p d)
  obtain k v where p: "p = (k, v)" by (cases p)
  have "g k v = h k v" by (rule Cons.prems) (simp add: p)
  moreover have "dict_build_from g d acc' = dict_build_from h d acc'" for acc'
    by (rule Cons.IH) (rule Cons.prems, simp)
  ultimately show ?case by (simp add: p)
qed simp

lemma dict_build_cong [fundef_cong]:
  "d = d' \<Longrightarrow> (\<And>k v. (k, v) \<in> set d' \<Longrightarrow> g k v = h k v) \<Longrightarrow> dict_build g d = dict_build h d'"
  unfolding dict_build_def by (erule ssubst) (rule dict_build_from_cong)

lemma update_set_sub: "set (AList.update k w acc) \<subseteq> insert (k, w) (set acc)"
  by (induction acc) auto

lemma update_ne [simp]: "AList.update k w acc \<noteq> []"
  by (cases acc) auto

lemma dict_build_from_ok: "dict_build_from g d acc = Inr r \<Longrightarrow> dict_ok acc \<Longrightarrow> dict_ok r"
proof (induction d arbitrary: acc)
  case (Cons p d)
  then show ?case by (cases p) (auto simp del: map_map)
qed simp

lemma dict_build_from_ne: "dict_build_from g d acc = Inr r \<Longrightarrow> acc \<noteq> [] \<or> d \<noteq> [] \<Longrightarrow> r \<noteq> []"
proof (induction d arbitrary: acc)
  case (Cons p d)
  obtain k v where p: "p = (k, v)" by (cases p)
  with Cons.prems(1) obtain w where "dict_build_from g d (AList.update k w acc) = Inr r" by auto
  then show ?case by (rule Cons.IH) simp
qed simp

lemma dict_build_from_items:
  "dict_build_from g d acc = Inr r \<Longrightarrow> (k, w) \<in> set r \<Longrightarrow>
     (k, w) \<in> set acc \<or> (\<exists>v. (k, v) \<in> set d \<and> g k v = Inr w)"
proof (induction d arbitrary: acc)
  case (Cons p d)
  obtain k' v' where p: "p = (k', v')" by (cases p)
  with Cons.prems(1) obtain w' where w': "g k' v' = Inr w'"
    and d: "dict_build_from g d (AList.update k' w' acc) = Inr r" by auto
  consider "(k, w) \<in> set (AList.update k' w' acc)" | "\<exists>v. (k, v) \<in> set d \<and> g k v = Inr w"
    using Cons.IH [OF d Cons.prems(2)] by blast
  then show ?case
  proof cases
    case 1
    then have "(k, w) = (k', w') \<or> (k, w) \<in> set acc" using update_set_sub by fastforce
    with w' p show ?thesis by auto
  qed auto
qed simp

lemma dict_build_Inr:
  assumes "dict_build g d = Inr r"
  shows "dict_ok r" and "d \<noteq> [] \<Longrightarrow> r \<noteq> []"
    and "\<And>k w. (k, w) \<in> set r \<Longrightarrow> \<exists>v. (k, v) \<in> set d \<and> g k v = Inr w"
  using assms dict_build_from_ok [of g d "[]" r] dict_build_from_ne [of g d "[]" r]
    dict_build_from_items [of g d "[]" r]
  by (auto simp: dict_build_def)

lemma dict_build_from_fixed:
  "dict_ok (acc @ d) \<Longrightarrow> (\<And>k v. (k, v) \<in> set d \<Longrightarrow> g k v = Inr v) \<Longrightarrow>
     dict_build_from g d acc = Inr (acc @ d)"
proof (induction d arbitrary: acc)
  case (Cons p d)
  obtain k v where p: "p = (k, v)" by (cases p)
  have "AList.update k v acc = acc @ [(k, v)]"
    using Cons.prems(1) p by (intro update_new) auto
  with Cons p show ?case by auto
qed simp

lemma dict_build_fixed:
  "dict_ok d \<Longrightarrow> (\<And>k v. (k, v) \<in> set d \<Longrightarrow> g k v = Inr v) \<Longrightarrow> dict_build g d = Inr d"
  using dict_build_from_fixed [of "[]" d g] by (simp add: dict_build_def)

text \<open>\<open>d[k]\<close> raises when the key is absent.\<close>

definition dlookup :: "('k, 'v) dict \<Rightarrow> 'k \<Rightarrow> 'v res" where
  "dlookup d k = (case map_of d k of None \<Rightarrow> Inl (KeyError ''key'') | Some v \<Rightarrow> Inr v)"

text \<open>\<open>xs[:n]\<close> with a bound that may be negative.\<close>

definition py_take :: "int \<Rightarrow> 'a list \<Rightarrow> 'a list" where
  "py_take n xs = (if n \<ge> 0 then take (nat n) xs else take (nat (int (length xs) + n)) xs)"

lemma dlookup_simps [simp]:
  "map_of d k = Some v \<Longrightarrow> dlookup d k = Inr v"
  "map_of d k = None \<Longrightarrow> dlookup d k = Inl (KeyError ''key'')"
  by (simp_all add: dlookup_def)

lemma set_map_filter: "set (List.map_filter f xs) = {y. \<exists>x \<in> set xs. f x = Some y}"
proof (induction xs)
  case (Cons x xs)
  then show ?case by (cases "f x") auto
qed simp

text \<open>\<open>sorted\<close> with a key that tells the items apart gives one result for one set of items.\<close>

lemma sort_key_distinct:
  "distinct (map k xs) \<Longrightarrow> map k (sort_key k xs) = sorted_list_of_set (k ` set xs)"
proof (rule sorted_distinct_set_unique)
  assume d: "distinct (map k xs)"
  then have "distinct xs" "inj_on k (set xs)" by (simp_all add: distinct_map)
  then show "distinct (map k (sort_key k xs))" by (simp add: distinct_map)
qed simp_all

section \<open>Strings\<close>

definition code :: "char \<Rightarrow> nat" where
  "code c = of_char c"

definition py_space :: "char \<Rightarrow> bool" where
  "py_space c = (code c \<in> {9, 10, 11, 12, 13, 28, 29, 30, 31, 32, 133, 160})"

definition py_lstrip :: "string \<Rightarrow> string" where
  "py_lstrip s = dropWhile py_space s"

definition py_rstrip :: "string \<Rightarrow> string" where
  "py_rstrip s = rev (dropWhile py_space (rev s))"

definition py_strip :: "string \<Rightarrow> string" where
  "py_strip s = py_rstrip (py_lstrip s)"

text \<open>\<open>if not s.strip()\<close> asks whether any character is left after stripping.\<close>

definition blank :: "string \<Rightarrow> bool" where
  "blank s = (py_strip s = [])"

definition lower_char :: "char \<Rightarrow> char" where
  "lower_char c = (if 65 \<le> code c \<and> code c \<le> 90 \<or> 192 \<le> code c \<and> code c \<le> 222 \<and> code c \<noteq> 215
     then char_of (code c + 32) else c)"

definition py_lower :: "string \<Rightarrow> string" where
  "py_lower s = map lower_char s"

definition py_startswith :: "string \<Rightarrow> string \<Rightarrow> bool" where
  "py_startswith s p = prefix p s"

definition py_endswith :: "string \<Rightarrow> string \<Rightarrow> bool" where
  "py_endswith s p = suffix p s"

fun py_join :: "string \<Rightarrow> string list \<Rightarrow> string" where
  "py_join sep [] = []"
| "py_join sep [x] = x"
| "py_join sep (x # y # ys) = x @ sep @ py_join sep (y # ys)"

fun py_split_acc :: "string \<Rightarrow> string \<Rightarrow> string list" where
  "py_split_acc cur [] = (if cur = [] then [] else [rev cur])"
| "py_split_acc cur (c # cs) =
     (if py_space c then (if cur = [] then py_split_acc [] cs else rev cur # py_split_acc [] cs)
      else py_split_acc (c # cur) cs)"

definition py_split :: "string \<Rightarrow> string list" where
  "py_split s = py_split_acc [] s"

definition is_digit :: "char \<Rightarrow> bool" where
  "is_digit c = (48 \<le> code c \<and> code c \<le> 57)"

definition digit_char :: "nat \<Rightarrow> char" where
  "digit_char d = char_of (48 + d)"

definition digit_val :: "char \<Rightarrow> nat" where
  "digit_val c = code c - 48"

fun nat_dec :: "nat \<Rightarrow> string" where
  "nat_dec n = (if n < 10 then [digit_char n] else nat_dec (n div 10) @ [digit_char (n mod 10)])"

declare nat_dec.simps [simp del]

definition int_dec :: "int \<Rightarrow> string" where
  "int_dec i = (if i < 0 then CHR ''-'' # nat_dec (nat (- i)) else nat_dec (nat i))"

definition dec_nat :: "string \<Rightarrow> nat" where
  "dec_nat s = foldl (\<lambda>n c. 10 * n + digit_val c) 0 s"

lemma code_char_of [simp]: "n < 256 \<Longrightarrow> code (char_of n) = n"
  by (simp add: code_def)

lemma code_less: "code c < 256"
  using of_char_of [of "of_char c :: nat"] by (simp add: code_def)

lemma char_of_code [simp]: "char_of (code c) = c"
  by (simp add: code_def)

lemma code_inject: "code c = code d \<longleftrightarrow> c = d"
  by (metis char_of_code)

lemma digit_char_digit [simp]: "d < 10 \<Longrightarrow> is_digit (digit_char d)"
  by (simp add: is_digit_def digit_char_def)

lemma digit_val_char [simp]: "d < 10 \<Longrightarrow> digit_val (digit_char d) = d"
  by (simp add: digit_val_def digit_char_def)

lemma nat_dec_digits: "\<forall>c \<in> set (nat_dec n). is_digit c"
proof (induction n rule: nat_dec.induct)
  case (1 n)
  then show ?case by (subst nat_dec.simps) auto
qed

lemma nat_dec_ne [simp]: "nat_dec n \<noteq> []"
  by (subst nat_dec.simps) simp

lemma dec_nat_snoc: "dec_nat (s @ [c]) = 10 * dec_nat s + digit_val c"
  by (simp add: dec_nat_def)

lemma dec_nat_dec [simp]: "dec_nat (nat_dec n) = n"
proof (induction n rule: nat_dec.induct)
  case (1 n)
  show ?case
  proof (cases "n < 10")
    case True
    then show ?thesis by (subst nat_dec.simps) (simp add: dec_nat_def)
  next
    case False
    with 1 show ?thesis by (subst nat_dec.simps) (simp add: dec_nat_snoc)
  qed
qed

lemma nat_dec_inject [simp]: "nat_dec m = nat_dec n \<longleftrightarrow> m = n"
  by (metis dec_nat_dec)

lemma dropWhile_all: "(\<forall>x \<in> set xs. P x) \<Longrightarrow> dropWhile P xs = []"
  by (induction xs) auto

lemma blank_iff: "blank s \<longleftrightarrow> (\<forall>c \<in> set s. py_space c)"
proof -
  have "blank s \<longleftrightarrow> dropWhile py_space (rev (dropWhile py_space s)) = []"
    by (simp add: blank_def py_strip_def py_lstrip_def py_rstrip_def)
  also have "\<dots> \<longleftrightarrow> (\<forall>c \<in> set (dropWhile py_space s). py_space c)"
    by (simp add: dropWhile_eq_Nil_conv)
  also have "\<dots> \<longleftrightarrow> (\<forall>c \<in> set s. py_space c)"
  proof
    assume h: "\<forall>c \<in> set (dropWhile py_space s). py_space c"
    have "dropWhile py_space s = []"
      using h by (metis hd_dropWhile list.set_sel(1))
    then show "\<forall>c \<in> set s. py_space c" by (simp add: dropWhile_eq_Nil_conv)
  qed (simp add: dropWhile_all)
  finally show ?thesis .
qed

lemma dropWhile_hd: "\<not> P (hd xs) \<Longrightarrow> dropWhile P xs = xs"
  by (cases xs) auto

lemma py_strip_idem [simp]: "py_strip (py_strip s) = py_strip s"
proof -
  have hd_ok: "t = [] \<or> \<not> py_space (hd t)" if "t = dropWhile py_space u" for t u
    using that hd_dropWhile by blast
  let ?l = "dropWhile py_space s"
  let ?r = "rev (dropWhile py_space (rev ?l))"
  have pre: "prefix ?r ?l"
    by (metis rev_rev_ident suffix_dropWhile suffix_to_prefix)
  have "dropWhile py_space ?r = ?r"
  proof (cases "?r = []")
    case False
    then have "hd ?r = hd ?l" using pre by (metis hd_append2 prefixE)
    moreover have "?l \<noteq> []" using False by (metis dropWhile.simps(1) rev.simps(1))
    ultimately have "\<not> py_space (hd ?r)" using hd_ok [OF refl, of s] by argo
    then show ?thesis by (rule dropWhile_hd)
  next
    case True
    then show ?thesis by (metis dropWhile.simps(1))
  qed
  moreover have "dropWhile py_space (rev ?r) = rev ?r" by (simp add: dropWhile_idem)
  ultimately show ?thesis
    by (simp add: py_strip_def py_lstrip_def py_rstrip_def)
qed

section \<open>Python objects\<close>

datatype pyval =
    PNone
  | PBool bool
  | PInt int
  | PFloat string
  | PStr string
  | PList "pyval list"
  | PTuple "pyval list"
  | PDict "(pyval \<times> pyval) list"
  | PObj string

fun py_is_str :: "pyval \<Rightarrow> bool" where
  "py_is_str (PStr _) = True"
| "py_is_str _ = False"

fun py_truthy :: "pyval \<Rightarrow> bool" where
  "py_truthy PNone = False"
| "py_truthy (PBool b) = b"
| "py_truthy (PInt i) = (i \<noteq> 0)"
| "py_truthy (PFloat r) = (r \<notin> {''0.0'', ''-0.0''})"
| "py_truthy (PStr s) = (s \<noteq> [])"
| "py_truthy (PList xs) = (xs \<noteq> [])"
| "py_truthy (PTuple xs) = (xs \<noteq> [])"
| "py_truthy (PDict d) = (d \<noteq> [])"
| "py_truthy (PObj _) = True"

end
