(* ===== verification/Tokens.thy ===== *)
theory Tokens
  imports Prelude
begin

text \<open>
  The tokenizer of the lexical index (\<open>tokenize\<close> of \<open>engine/_lexical.py\<close>). The pattern
  \<open>[0-9a-z]+(?:[-./][0-9a-z]+)*\<close> is matched by a scanner: a run of alphanumerics goes on over a
  single separator exactly when another alphanumeric follows it.
\<close>

section \<open>Definitions\<close>

definition alnum :: "char \<Rightarrow> bool" where
  "alnum c = (48 \<le> code c \<and> code c \<le> 57 \<or> 97 \<le> code c \<and> code c \<le> 122)"

definition separator :: "char \<Rightarrow> bool" where
  "separator c = (c \<in> {CHR ''-'', CHR ''.'', CHR ''/''})"

fun token_rest :: "string \<Rightarrow> string \<times> string" where
  "token_rest [] = ([], [])"
| "token_rest (c # cs) =
     (if alnum c \<or> separator c \<and> cs \<noteq> [] \<and> alnum (hd cs)
      then (let (m, r) = token_rest cs in (c # m, r)) else ([], c # cs))"

lemma token_rest_append: "token_rest s = (m, r) \<Longrightarrow> s = m @ r"
  by (induction s arbitrary: m r) (auto split: if_splits prod.splits)

function (sequential) find_tokens :: "string \<Rightarrow> string list" where
  "find_tokens [] = []"
| "find_tokens (c # cs) =
     (if alnum c then (let (m, r) = token_rest cs in (c # m) # find_tokens r) else find_tokens cs)"
  by pat_completeness auto
termination
  by (relation "measure length") (auto dest: token_rest_append [OF sym])

definition tokenize :: "string \<Rightarrow> string list" where
  "tokenize text = (if text = [] then [] else find_tokens (py_lower text))"

section \<open>Lemmas\<close>

lemma lower_char_idem [simp]: "lower_char (lower_char c) = lower_char c"
  using code_less [of c] by (simp add: lower_char_def)

lemma py_lower_idem [simp]: "py_lower (py_lower s) = py_lower s"
  by (simp add: py_lower_def)

lemma py_lower_append: "py_lower (s @ t) = py_lower s @ py_lower t"
  by (simp add: py_lower_def)

lemma py_lower_Nil_iff [simp]: "py_lower s = [] \<longleftrightarrow> s = []"
  by (simp add: py_lower_def)

lemma tokenize_eq: "tokenize s = find_tokens (py_lower s)"
  by (simp add: tokenize_def py_lower_def)

lemma lower_fixed: "alnum c \<or> separator c \<Longrightarrow> lower_char c = c"
  by (auto simp: alnum_def separator_def lower_char_def code_def)

section \<open>What the tokens of a text are\<close>

text \<open>A token: alphanumerics with single separators between them.\<close>

fun single_separators :: "string \<Rightarrow> bool" where
  "single_separators (a # b # cs) = ((alnum a \<or> alnum b) \<and> single_separators (b # cs))"
| "single_separators _ = True"

definition token_form :: "string \<Rightarrow> bool" where
  "token_form t = (t \<noteq> [] \<and> alnum (hd t) \<and> alnum (last t) \<and> list_all (\<lambda>c. alnum c \<or> separator c) t \<and> single_separators t)"

text \<open>Text that would make the token before it longer.\<close>

fun continues :: "string \<Rightarrow> bool" where
  "continues (c # d # cs) = (alnum c \<or> separator c \<and> alnum d)"
| "continues [c] = alnum c"
| "continues [] = False"

text \<open>
  The tokens of a text: what is skipped before, between and after them has no alphanumeric, and no
  token could be longer.
\<close>

inductive splits :: "string \<Rightarrow> string list \<Rightarrow> bool" where
  no_token: "list_all (\<lambda>c. \<not> alnum c) g \<Longrightarrow> splits g []"
| first_token: "list_all (\<lambda>c. \<not> alnum c) g \<Longrightarrow> token_form t \<Longrightarrow> \<not> continues u \<Longrightarrow> splits u ts \<Longrightarrow> splits (g @ t @ u) (t # ts)"

lemma splits_skip: "splits u ts \<Longrightarrow> \<not> alnum c \<Longrightarrow> splits (c # u) ts"
proof (induction rule: splits.cases)
  case (no_token g)
  then show ?thesis by (auto intro: splits.no_token)
next
  case (first_token g t u ts)
  then show ?thesis using splits.first_token [of "c # g" t u ts] by simp
qed

lemma token_rest_form:
  "token_rest s = (m, r) \<Longrightarrow> \<not> continues r \<and> list_all (\<lambda>c. alnum c \<or> separator c) m
     \<and> (m \<noteq> [] \<longrightarrow> alnum (last m)) \<and> single_separators m \<and> (m = [] \<or> hd m = hd s)"
proof (induction s arbitrary: m r)
  case (Cons c cs)
  obtain m' r' where mr: "token_rest cs = (m', r')" by (cases "token_rest cs")
  note IH = Cons.IH [OF mr]
  show ?case
  proof (cases "alnum c \<or> separator c \<and> cs \<noteq> [] \<and> alnum (hd cs)")
    case True
    with Cons.prems mr have m: "m = c # m'" "r = r'" by simp_all
    have "alnum c \<or> m' \<noteq> [] \<and> alnum (hd m')" using True mr by (cases cs) (auto split: prod.splits)
    with IH True show ?thesis by (cases m') (auto simp: m)
  next
    case False
    with Cons.prems have m: "m = []" "r = c # cs" by auto
    with False show ?thesis by (cases cs) auto
  qed
qed simp

lemma find_tokens_splits: "splits s (find_tokens s)"
proof (induction s rule: find_tokens.induct)
  case (2 c cs)
  obtain m r where mr: "token_rest cs = (m, r)" by (cases "token_rest cs")
  note f = token_rest_form [OF mr]
  show ?case
  proof (cases "alnum c")
    case True
    then have "token_form (c # m)" using f by (cases m) (auto simp: token_form_def)
    moreover have "splits r (find_tokens r)" using 2(1) True mr by simp
    ultimately have "splits ([] @ (c # m) @ r) ((c # m) # find_tokens r)" using f by (intro splits.first_token) auto
    then show ?thesis using True mr token_rest_append [OF mr] by simp
  next
    case False
    then show ?thesis using 2(2) splits_skip by simp
  qed
qed (simp add: splits.no_token)

lemma find_tokens_skip: "list_all (\<lambda>c. \<not> alnum c) g \<Longrightarrow> find_tokens (g @ u) = find_tokens u"
  by (induction g) auto

lemma token_rest_whole:
  "list_all (\<lambda>c. alnum c \<or> separator c) m \<Longrightarrow> single_separators m \<Longrightarrow> m \<noteq> [] \<longrightarrow> alnum (last m) \<Longrightarrow> \<not> continues u
    \<Longrightarrow> token_rest (m @ u) = (m, u)"
proof (induction m)
  case Nil
  then show ?case by (cases u rule: continues.cases) auto
next
  case (Cons c m)
  have "single_separators m" using Cons.prems(2) by (cases m) auto
  then have "token_rest (m @ u) = (m, u)" using Cons by (auto split: if_splits)
  moreover have "alnum c \<or> separator c \<and> m \<noteq> [] \<and> alnum (hd m)" using Cons.prems by (cases m) auto
  ultimately show ?case by (cases m) auto
qed

lemma find_tokens_first:
  assumes "token_form t" and "\<not> continues u"
  shows "find_tokens (t @ u) = t # find_tokens u"
proof -
  obtain c m where t: "t = c # m" using assms(1) by (cases t) (auto simp: token_form_def)
  have "single_separators m" using assms(1) by (cases m) (auto simp: t token_form_def)
  then have "token_rest (m @ u) = (m, u)"
    using assms by (intro token_rest_whole) (auto simp: t token_form_def split: if_splits)
  then show ?thesis using assms(1) by (simp add: t token_form_def)
qed

lemma splits_find_tokens: "splits u ts \<Longrightarrow> find_tokens u = ts"
proof (induction rule: splits.induct)
  case (no_token g)
  then show ?case using find_tokens_skip [of g "[]"] by simp
next
  case (first_token g t u ts)
  then show ?case by (simp add: find_tokens_skip find_tokens_first)
qed

lemma token_lower: "token_form t \<Longrightarrow> py_lower t = t"
  by (auto simp: py_lower_def token_form_def list_all_iff lower_fixed intro!: map_idI)

section \<open>Properties\<close>

text \<open>
  C30. The tokens of a text are exactly the maximal runs: the tokenizer returns \<open>ts\<close> if and only if the
  lower-cased text splits into \<open>ts\<close>, each of alphanumerics with single interior separators and not
  extensible, and skipped pieces without any alphanumeric.
\<close>

theorem tokens_are_maximal_runs: "tokenize s = ts \<longleftrightarrow> splits (py_lower s) ts"
  using find_tokens_splits splits_find_tokens by (auto simp: tokenize_eq)

text \<open>
  C31. Tokens survive being joined by blanks: a blank-separated list of tokens tokenizes to that very
  list.
\<close>

theorem tokenize_join:
  assumes "list_all token_form ts"
  shows "tokenize (py_join '' '' ts) = ts"
proof -
  have sp: "\<not> alnum CHR '' ''" "\<not> separator CHR '' ''" "lower_char CHR '' '' = CHR '' ''"
    by (simp_all add: alnum_def separator_def lower_char_def code_def)
  have "find_tokens (py_join '' '' ts) = ts \<and> py_lower (py_join '' '' ts) = py_join '' '' ts"
    using assms
  proof (induction ts rule: induct_list012)
    case (2 t)
    then show ?case using find_tokens_first [of t "[]"] by (simp add: token_lower)
  next
    case (3 t t' ts)
    have "\<not> continues (CHR '' '' # u)" for u by (cases u) (simp_all add: sp)
    moreover have "find_tokens (CHR '' '' # u) = find_tokens u" for u by (simp add: sp)
    ultimately show ?case
      using 3 find_tokens_first [of t "CHR '' '' # py_join '' '' (t' # ts)"]
      by (simp add: token_lower py_lower_append) (simp add: py_lower_def sp)
  qed simp
  then show ?thesis by (simp add: tokenize_eq)
qed

theorem tokenize_join_witness:
  "list_all token_form [''abc-123'', ''v1.2''] \<and> tokenize ''abc-123 v1.2'' = [''abc-123'', ''v1.2'']"
proof -
  have t: "list_all token_form [''abc-123'', ''v1.2'']" by code_simp
  from tokenize_join [OF this] t show ?thesis by simp
qed

end
