(* ===== verification/Bm25.thy ===== *)
theory Bm25
  imports Tokens
begin

text \<open>
  The lexical index of \<open>engine/_lexical.py\<close>: the class \<open>Bm25Index\<close> as a record with one field per
  slot, its operations as functions that may raise (a missing dict key is a \<open>KeyError\<close>), ranking,
  and reciprocal rank fusion.

  Float arithmetic is a parameter \<open>arith\<close>: the exact result of each operation goes through a
  rounding function, \<open>math.log\<close> is a function, and so is the order in which a set of strings is
  iterated. The properties of the index hold for every such parameter.

  The set of positions of a group is a list without repetition.
\<close>

section \<open>Definitions\<close>

record arith =
  rnd :: "real \<Rightarrow> real"
  flog :: "real \<Rightarrow> real"
  set_order :: "string list \<Rightarrow> string list"

record bm25 =
  postings :: "(string, (nat, nat) dict) dict"
  doc_freq :: "(string, nat) dict"
  doc_len :: "(nat, nat) dict"
  unit_id_by_pos :: "(nat, string) dict"
  pos_by_unit_id :: "(string, nat) dict"
  terms_by_pos :: "(nat, string list) dict"
  group_by_pos :: "(nat, string) dict"
  positions_by_group :: "(string, nat list) dict"
  n_units :: int
  total_len :: int
  next_pos :: nat
  k1 :: real
  b_param :: real

definition BM25_K1 :: real where "BM25_K1 = 12 / 10"
definition BM25_B :: real where "BM25_B = 75 / 100"
definition RRF_C :: int where "RRF_C = 60"

text \<open>Exact arithmetic: the reals, with a set iterated in order of last occurrence.\<close>

definition exact_arith :: arith where
  "exact_arith = \<lparr> rnd = (\<lambda>x. x), flog = ln, set_order = remdups \<rparr>"

definition empty_bm25 :: "arith \<Rightarrow> real \<Rightarrow> real \<Rightarrow> bm25" where
  "empty_bm25 ar kk bb = \<lparr> postings = [], doc_freq = [], doc_len = [], unit_id_by_pos = [],
     pos_by_unit_id = [], terms_by_pos = [], group_by_pos = [], positions_by_group = [],
     n_units = 0, total_len = 0, next_pos = 0, k1 = rnd ar kk, b_param = rnd ar bb \<rparr>"

text \<open>\<open>counts[token] = counts.get(token, 0) + 1\<close> over the tokens.\<close>

definition token_counts :: "string list \<Rightarrow> (string, nat) dict" where
  "token_counts tokens = fold (\<lambda>t d. AList.update t (dget d t 0 + 1) d) tokens []"

type_synonym vocab = "(string, (nat, nat) dict) dict \<times> (string, nat) dict"

definition add_posting :: "nat \<Rightarrow> string \<times> nat \<Rightarrow> vocab \<Rightarrow> vocab res" where
  "add_posting pos tf v = (case tf of (token, frequency) \<Rightarrow> case v of (P, D) \<Rightarrow>
     (case map_of P token of
        None \<Rightarrow> Inr (AList.update token [(pos, frequency)] P, AList.update token 1 D)
      | Some posting \<Rightarrow>
          res_bind (dlookup D token) (\<lambda>df.
            Inr (AList.update token (AList.update pos frequency posting) P, AList.update token (df + 1) D))))"

definition add_to_group :: "string \<Rightarrow> nat \<Rightarrow> (string, nat list) dict \<Rightarrow> (string, nat list) dict" where
  "add_to_group g pos pg = AList.update g (List.insert pos (dget pg g [])) pg"

definition add_at :: "string \<Rightarrow> string list \<Rightarrow> string \<Rightarrow> bm25 \<Rightarrow> bm25 res" where
  "add_at unit_id tokens group_id idx =
     (let pos = next_pos idx;
          idx1 = idx \<lparr> next_pos := pos + 1,
            doc_len := AList.update pos (length tokens) (doc_len idx),
            total_len := total_len idx + int (length tokens),
            n_units := n_units idx + 1,
            unit_id_by_pos := AList.update pos unit_id (unit_id_by_pos idx),
            pos_by_unit_id := AList.update unit_id pos (pos_by_unit_id idx),
            group_by_pos := AList.update pos group_id (group_by_pos idx),
            positions_by_group := add_to_group group_id pos (positions_by_group idx) \<rparr>
      in if tokens = [] then Inr (idx1 \<lparr> terms_by_pos := AList.update pos [] (terms_by_pos idx) \<rparr>)
         else (let counts = token_counts tokens
               in res_bind (res_fold (add_posting pos) counts (postings idx, doc_freq idx)) (\<lambda>(P, D).
                  Inr (idx1 \<lparr> postings := P, doc_freq := D,
                         terms_by_pos := AList.update pos (dkeys counts) (terms_by_pos idx) \<rparr>))))"

definition del_key :: "('k, 'v) dict \<Rightarrow> 'k \<Rightarrow> ('k, 'v) dict res" where
  "del_key d k = (case map_of d k of None \<Rightarrow> Inl (KeyError ''key'') | Some _ \<Rightarrow> Inr (AList.delete k d))"

definition drop_posting :: "nat \<Rightarrow> string \<Rightarrow> vocab \<Rightarrow> vocab res" where
  "drop_posting pos term v = (case v of (P, D) \<Rightarrow>
     (case map_of P term of
        None \<Rightarrow> Inr (P, D)
      | Some posting \<Rightarrow>
          (let posting' = AList.delete pos posting
           in if posting' \<noteq> []
              then Inr (AList.update term posting' P, AList.update term (length posting') D)
              else res_bind (del_key D term) (\<lambda>D'. Inr (AList.delete term P, D')))))"

definition drop_from_group :: "nat \<Rightarrow> string option \<Rightarrow> (string, nat list) dict \<Rightarrow> (string, nat list) dict" where
  "drop_from_group pos g pg = (case g of
       None \<Rightarrow> pg
     | Some group_id \<Rightarrow>
         (case map_of pg group_id of
            None \<Rightarrow> pg
          | Some positions \<Rightarrow>
              (let ps = removeAll pos positions
               in if ps = [] then AList.delete group_id pg else AList.update group_id ps pg)))"

definition remove_at :: "nat \<Rightarrow> bm25 \<Rightarrow> bm25 res" where
  "remove_at pos idx =
     res_bind (res_fold (drop_posting pos) (dget (terms_by_pos idx) pos []) (postings idx, doc_freq idx)) (\<lambda>(P, D).
       (let u = map_of (unit_id_by_pos idx) pos
        in Inr (idx \<lparr> postings := P, doc_freq := D,
             terms_by_pos := AList.delete pos (terms_by_pos idx),
             total_len := total_len idx - int (dget (doc_len idx) pos 0),
             doc_len := AList.delete pos (doc_len idx),
             unit_id_by_pos := AList.delete pos (unit_id_by_pos idx),
             pos_by_unit_id := (case u of None \<Rightarrow> pos_by_unit_id idx
                                | Some unit_id \<Rightarrow> AList.delete unit_id (pos_by_unit_id idx)),
             group_by_pos := AList.delete pos (group_by_pos idx),
             positions_by_group :=
               drop_from_group pos (map_of (group_by_pos idx) pos) (positions_by_group idx),
             n_units := n_units idx - 1 \<rparr>)))"

definition remove_unit :: "string \<Rightarrow> bm25 \<Rightarrow> bm25 res" where
  "remove_unit unit_id idx = (case map_of (pos_by_unit_id idx) unit_id of
       None \<Rightarrow> Inr idx
     | Some pos \<Rightarrow> remove_at pos idx)"

definition add_unit :: "string \<Rightarrow> string list \<Rightarrow> string option \<Rightarrow> bm25 \<Rightarrow> bm25 res" where
  "add_unit unit_id tokens group_id idx =
     res_bind (if map_of (pos_by_unit_id idx) unit_id \<noteq> None then remove_unit unit_id idx else Inr idx)
       (add_at unit_id tokens (case group_id of None \<Rightarrow> unit_id | Some g \<Rightarrow> g))"

definition remove_group :: "string \<Rightarrow> bm25 \<Rightarrow> bm25 res" where
  "remove_group group_id idx = (case map_of (positions_by_group idx) group_id of
       None \<Rightarrow> Inr idx
     | Some positions \<Rightarrow> (if positions = [] then Inr idx else res_fold remove_at positions idx))"

definition replace_group :: "string \<Rightarrow> (string \<times> string list) list \<Rightarrow> bm25 \<Rightarrow> bm25 res" where
  "replace_group group_id units idx =
     res_bind (remove_group group_id idx)
       (res_fold (\<lambda>(unit_id, tokens). add_unit unit_id tokens (Some group_id)) units)"

definition build_index ::
    "arith \<Rightarrow> string list \<Rightarrow> string list list \<Rightarrow> string list option \<Rightarrow> real \<Rightarrow> real \<Rightarrow> bm25 res" where
  "build_index ar unit_ids token_lists group_ids kk bb =
     (case group_ids of
        None \<Rightarrow> res_fold (\<lambda>(u, ts). add_at u ts u) (zip unit_ids token_lists) (empty_bm25 ar kk bb)
      | Some gs \<Rightarrow>
          (if length gs \<noteq> length unit_ids then Inl (ValueError ''group_ids must align with unit_ids'')
           else res_fold (\<lambda>(u, ts, g). add_at u ts g) (zip unit_ids (zip token_lists gs))
                  (empty_bm25 ar kk bb)))"

definition from_token_lists ::
    "arith \<Rightarrow> string list \<Rightarrow> string list list \<Rightarrow> string list option \<Rightarrow> real \<Rightarrow> real \<Rightarrow> bm25 res" where
  "from_token_lists ar unit_ids token_lists group_ids kk bb =
     (if length unit_ids \<noteq> length token_lists
      then Inl (ValueError ''unit_ids and token_lists must be the same length'')
      else build_index ar unit_ids token_lists group_ids kk bb)"

definition init_index ::
    "arith \<Rightarrow> string list \<Rightarrow> string list \<Rightarrow> string list option \<Rightarrow> real \<Rightarrow> real \<Rightarrow> bm25 res" where
  "init_index ar unit_ids texts group_ids kk bb =
     (if length unit_ids \<noteq> length texts
      then Inl (ValueError ''unit_ids and texts must be the same length'')
      else build_index ar unit_ids (map tokenize texts) group_ids kk bb)"

definition unit_ids :: "bm25 \<Rightarrow> string set" where
  "unit_ids idx = set (dkeys (pos_by_unit_id idx))"

definition position_of :: "bm25 \<Rightarrow> string \<Rightarrow> nat option" where
  "position_of idx unit_id = map_of (pos_by_unit_id idx) unit_id"

definition len_index :: "bm25 \<Rightarrow> int" where
  "len_index idx = n_units idx"

text \<open>Float operations on the rounding of the parameter.\<close>

definition fl :: "arith \<Rightarrow> int \<Rightarrow> real" where "fl ar i = rnd ar (of_int i)"
definition fadd :: "arith \<Rightarrow> real \<Rightarrow> real \<Rightarrow> real" where "fadd ar x y = rnd ar (x + y)"
definition fsub :: "arith \<Rightarrow> real \<Rightarrow> real \<Rightarrow> real" where "fsub ar x y = rnd ar (x - y)"
definition fmul :: "arith \<Rightarrow> real \<Rightarrow> real \<Rightarrow> real" where "fmul ar x y = rnd ar (x * y)"
definition fdiv :: "arith \<Rightarrow> real \<Rightarrow> real \<Rightarrow> real" where "fdiv ar x y = rnd ar (x / y)"

definition idf_of :: "arith \<Rightarrow> int \<Rightarrow> nat \<Rightarrow> real" where
  "idf_of ar n df =
     (if df = 0 then 0
      else flog ar (fadd ar 1 (fdiv ar (fadd ar (fl ar (n - int df)) (1 / 2)) (fadd ar (fl ar (int df)) (1 / 2)))))"

definition idf :: "arith \<Rightarrow> bm25 \<Rightarrow> string \<Rightarrow> real" where
  "idf ar idx term = idf_of ar (n_units idx) (dget (doc_freq idx) term 0)"

definition avg_len :: "arith \<Rightarrow> int \<Rightarrow> int \<Rightarrow> real" where
  "avg_len ar tot n = (let a = (if n \<noteq> 0 then rnd ar (of_int tot / of_int n) else 1) in if a = 0 then 1 else a)"

definition denominator :: "arith \<Rightarrow> real \<Rightarrow> real \<Rightarrow> real \<Rightarrow> nat \<Rightarrow> nat \<Rightarrow> real" where
  "denominator ar kk bb avgdl len tf =
     fadd ar (fl ar (int tf)) (fmul ar kk (fadd ar (fsub ar 1 bb) (fmul ar bb (fdiv ar (fl ar (int len)) avgdl))))"

definition contribution :: "arith \<Rightarrow> real \<Rightarrow> real \<Rightarrow> nat \<Rightarrow> real \<Rightarrow> real" where
  "contribution ar i kk tf den = fdiv ar (fmul ar i (fmul ar (fl ar (int tf)) (fadd ar kk 1))) den"

definition score_posting ::
    "arith \<Rightarrow> bm25 \<Rightarrow> nat list option \<Rightarrow> real \<Rightarrow> real \<Rightarrow> nat \<times> nat \<Rightarrow> (nat, real) dict \<Rightarrow> (nat, real) dict res" where
  "score_posting ar idx allowed avgdl i entry scores = (case entry of (pos, tf) \<Rightarrow>
     (if (case allowed of None \<Rightarrow> False | Some A \<Rightarrow> pos \<notin> set A) then Inr scores
      else res_bind (dlookup (doc_len idx) pos) (\<lambda>len.
        (let den = denominator ar (k1 idx) (b_param idx) avgdl len tf
         in if den \<le> 0 then Inr scores
            else Inr (AList.update pos (fadd ar (dget scores pos 0) (contribution ar i (k1 idx) tf den)) scores)))))"

definition score_term ::
    "arith \<Rightarrow> bm25 \<Rightarrow> nat list option \<Rightarrow> real \<Rightarrow> string \<Rightarrow> (nat, real) dict \<Rightarrow> (nat, real) dict res" where
  "score_term ar idx allowed avgdl term scores =
     (case map_of (postings idx) term of
        None \<Rightarrow> Inr scores
      | Some posting \<Rightarrow>
          (let i = idf ar idx term
           in if posting = [] \<or> i \<le> 0 then Inr scores
              else res_fold (score_posting ar idx allowed avgdl i) posting scores))"

definition rank_index ::
    "arith \<Rightarrow> bm25 \<Rightarrow> string \<Rightarrow> int option \<Rightarrow> nat list option \<Rightarrow> (string \<times> real) list res" where
  "rank_index ar idx query limit allowed =
     (let query_terms = tokenize query in
      if n_units idx = 0 \<or> query_terms = [] then Inr []
      else
        (let avgdl = avg_len ar (total_len idx) (n_units idx) in
         res_bind (res_fold (score_term ar idx allowed avgdl) (set_order ar query_terms) []) (\<lambda>scores.
         res_bind (res_mapM (\<lambda>(pos, s). res_bind (dlookup (unit_id_by_pos idx) pos) (\<lambda>u. Inr (u, s))) scores) (\<lambda>items.
           (let ranked = sort_key (\<lambda>(u, s). (- s, u)) items
            in Inr (case limit of None \<Rightarrow> ranked | Some l \<Rightarrow> py_take l ranked))))))"

text \<open>
  Abstract view: a set of units (id, tokens, group) with at most one unit per id.
\<close>

type_synonym unit3 = "string \<times> string list \<times> string"

abbreviation uid :: "unit3 \<Rightarrow> string" where "uid x \<equiv> fst x"
abbreviation toks :: "unit3 \<Rightarrow> string list" where "toks x \<equiv> fst (snd x)"
abbreviation grp :: "unit3 \<Rightarrow> string" where "grp x \<equiv> snd (snd x)"

datatype index_op =
    AddUnit string "string list" "string option"
  | RemoveUnit string
  | RemoveGroup string
  | ReplaceGroup string "(string \<times> string list) list"

fun run_op :: "index_op \<Rightarrow> bm25 \<Rightarrow> bm25 res" where
  "run_op (AddUnit u ts g) idx = add_unit u ts g idx"
| "run_op (RemoveUnit u) idx = remove_unit u idx"
| "run_op (RemoveGroup g) idx = remove_group g idx"
| "run_op (ReplaceGroup g us) idx = replace_group g us idx"

definition spec_remove :: "string \<Rightarrow> unit3 set \<Rightarrow> unit3 set" where
  "spec_remove u S = {x \<in> S. uid x \<noteq> u}"

definition spec_add :: "string \<Rightarrow> string list \<Rightarrow> string option \<Rightarrow> unit3 set \<Rightarrow> unit3 set" where
  "spec_add u ts g S = insert (u, ts, case g of None \<Rightarrow> u | Some g' \<Rightarrow> g') (spec_remove u S)"

definition spec_remove_group :: "string \<Rightarrow> unit3 set \<Rightarrow> unit3 set" where
  "spec_remove_group g S = {x \<in> S. grp x \<noteq> g}"

definition spec_replace :: "string \<Rightarrow> (string \<times> string list) list \<Rightarrow> unit3 set \<Rightarrow> unit3 set" where
  "spec_replace g us S = fold (\<lambda>(u, ts). spec_add u ts (Some g)) us (spec_remove_group g S)"

fun spec_op :: "index_op \<Rightarrow> unit3 set \<Rightarrow> unit3 set" where
  "spec_op (AddUnit u ts g) S = spec_add u ts g S"
| "spec_op (RemoveUnit u) S = spec_remove u S"
| "spec_op (RemoveGroup g) S = spec_remove_group g S"
| "spec_op (ReplaceGroup g us) S = spec_replace g us S"

text \<open>
  BM25 as a formula over the set of units: the score of a unit is the sum, in the order of the
  query terms, of the contributions of the terms it contains; the ranking lists the scored units
  by falling score and rising id.
\<close>

definition spec_step ::
    "arith \<Rightarrow> real \<Rightarrow> real \<Rightarrow> unit3 set \<Rightarrow> string set option \<Rightarrow> unit3 \<Rightarrow> string \<Rightarrow> real option \<Rightarrow> real option" where
  "spec_step ar kk bb S A x t acc =
     (let i = idf_of ar (int (card S)) (card {y \<in> S. t \<in> set (toks y)});
          avgdl = avg_len ar (\<Sum>y\<in>S. int (length (toks y))) (int (card S));
          den = denominator ar kk bb avgdl (length (toks x)) (count_list (toks x) t)
      in if t \<in> set (toks x) \<and> (case A of None \<Rightarrow> True | Some I \<Rightarrow> uid x \<in> I) \<and> i > 0 \<and> den > 0
         then Some (fadd ar (case acc of None \<Rightarrow> 0 | Some s \<Rightarrow> s)
                (contribution ar i kk (count_list (toks x) t) den))
         else acc)"

definition spec_score ::
    "arith \<Rightarrow> real \<Rightarrow> real \<Rightarrow> unit3 set \<Rightarrow> string set option \<Rightarrow> string list \<Rightarrow> unit3 \<Rightarrow> real option" where
  "spec_score ar kk bb S A terms x = fold (spec_step ar kk bb S A x) terms None"

definition spec_rank ::
    "arith \<Rightarrow> real \<Rightarrow> real \<Rightarrow> unit3 set \<Rightarrow> string \<Rightarrow> int option \<Rightarrow> string set option \<Rightarrow> (string \<times> real) list" where
  "spec_rank ar kk bb S query limit A =
     (if S = {} \<or> tokenize query = [] then []
      else let ranked = map (\<lambda>(s, u). (u, - s)) (sorted_list_of_set
             {(- s, uid x) |x s. x \<in> S \<and> spec_score ar kk bb S A (set_order ar (tokenize query)) x = Some s})
           in case limit of None \<Rightarrow> ranked | Some l \<Rightarrow> py_take l ranked)"

text \<open>Representation of a set of units by the record, through the map of positions.\<close>

definition tf_at :: "(nat \<rightharpoonup> unit3) \<Rightarrow> nat \<Rightarrow> string \<Rightarrow> nat" where
  "tf_at U p t = (case U p of None \<Rightarrow> 0 | Some x \<Rightarrow> count_list (toks x) t)"

definition post_ok :: "(nat, nat) dict option \<Rightarrow> nat option \<Rightarrow> (nat \<Rightarrow> nat) \<Rightarrow> bool" where
  "post_ok q df col \<longleftrightarrow> (case q of
       None \<Rightarrow> df = None \<and> (\<forall>p. col p = 0)
     | Some ps \<Rightarrow> ps \<noteq> [] \<and> dict_ok ps \<and> df = Some (length ps)
         \<and> (\<forall>p. map_of ps p = (if col p = 0 then None else Some (col p))))"

definition post_rel :: "(string, (nat, nat) dict) dict \<Rightarrow> (string, nat) dict \<Rightarrow> (nat \<Rightarrow> string \<Rightarrow> nat) \<Rightarrow> bool" where
  "post_rel P D T \<longleftrightarrow> (\<forall>t. post_ok (map_of P t) (map_of D t) (\<lambda>p. T p t))"

definition group_rel :: "(string, nat list) dict \<Rightarrow> (nat \<rightharpoonup> unit3) \<Rightarrow> bool" where
  "group_rel pg U \<longleftrightarrow>
     (\<forall>g. (case map_of pg g of None \<Rightarrow> {} | Some ps \<Rightarrow> set ps) = {p. \<exists>x. U p = Some x \<and> grp x = g}
        \<and> map_of pg g \<noteq> Some [] \<and> (\<forall>ps. map_of pg g = Some ps \<longrightarrow> distinct ps))"

definition bm25_rel :: "bm25 \<Rightarrow> (nat \<rightharpoonup> unit3) \<Rightarrow> bool" where
  "bm25_rel idx U \<longleftrightarrow>
     finite (dom U) \<and> (\<forall>p \<in> dom U. p < next_pos idx)
     \<and> post_rel (postings idx) (doc_freq idx) (tf_at U)
     \<and> (\<forall>p. map_of (doc_len idx) p = map_option (length \<circ> fst \<circ> snd) (U p))
     \<and> (\<forall>p. map_of (unit_id_by_pos idx) p = map_option fst (U p))
     \<and> (\<forall>p. map_of (group_by_pos idx) p = map_option (snd \<circ> snd) (U p))
     \<and> (\<forall>u p. map_of (pos_by_unit_id idx) u = Some p \<longleftrightarrow> (\<exists>x. U p = Some x \<and> uid x = u))
     \<and> (\<forall>p. map_option set (map_of (terms_by_pos idx) p) = map_option (set \<circ> fst \<circ> snd) (U p))
     \<and> group_rel (positions_by_group idx) U
     \<and> n_units idx = int (card (dom U))
     \<and> total_len idx = (\<Sum>p\<in>dom U. int (length (toks (the (U p)))))"

definition rep :: "real \<Rightarrow> real \<Rightarrow> bm25 \<Rightarrow> unit3 set \<Rightarrow> bool" where
  "rep kk bb idx S \<longleftrightarrow> k1 idx = kk \<and> b_param idx = bb \<and> (\<exists>U. bm25_rel idx U \<and> ran U = S)"

section \<open>Postings\<close>

lemma token_counts_snoc:
  "token_counts (ts @ [t]) = AList.update t (dget (token_counts ts) t 0 + 1) (token_counts ts)"
  by (simp add: token_counts_def)

lemma map_of_token_counts:
  "map_of (token_counts ts) t = (if t \<in> set ts then Some (count_list ts t) else None)"
proof (induction ts rule: rev_induct)
  case Nil
  then show ?case by (simp add: token_counts_def)
next
  case (snoc a ts)
  then show ?case by (auto simp: token_counts_snoc dget_def count_list_0_iff)
qed

lemma dict_ok_token_counts [simp]: "dict_ok (token_counts ts)"
proof (induction ts rule: rev_induct)
  case (snoc a ts)
  then show ?case by (simp add: token_counts_snoc dict_ok_update del: map_map)
qed (simp add: token_counts_def)

lemma dkeys_token_counts: "set (dkeys (token_counts ts)) = set ts"
proof -
  have "t \<in> set (dkeys (token_counts ts)) \<longleftrightarrow> t \<in> set ts" for t
    using map_of_None_iff [of "token_counts ts" t] by (simp add: map_of_token_counts split: if_splits)
  then show ?thesis by blast
qed

lemma post_relD: "post_rel P D T \<Longrightarrow> post_ok (map_of P t) (map_of D t) (\<lambda>p. T p t)"
  by (simp add: post_rel_def)

lemma post_rel_upd:
  assumes "post_rel P D T"
    and "\<And>u. u \<noteq> t \<Longrightarrow> map_of P' u = map_of P u \<and> map_of D' u = map_of D u"
    and "post_ok (map_of P' t) (map_of D' t) ((\<lambda>p. T p t)(pos := f))"
  shows "post_rel P' D' (T(pos := (T pos)(t := f)))"
  unfolding post_rel_def
proof
  fix u
  have "(\<lambda>p. (T(pos := (T pos)(t := f))) p u) = (if u = t then (\<lambda>p. T p t)(pos := f) else (\<lambda>p. T p u))"
    by auto
  with assms(2) [of u] assms(3) post_relD [OF assms(1), of u]
  show "post_ok (map_of P' u) (map_of D' u) (\<lambda>p. (T(pos := (T pos)(t := f))) p u)"
    by (cases "u = t") simp_all
qed

lemma add_posting_ok:
  assumes "post_rel P D T" and "T pos t = 0" and "f > 0"
  shows "\<exists>P' D'. add_posting pos (t, f) (P, D) = Inr (P', D') \<and> post_rel P' D' (T(pos := (T pos)(t := f)))"
proof (cases "map_of P t")
  case None
  with post_relD [OF assms(1), of t] assms(3)
  have "post_rel (AList.update t [(pos, f)] P) (AList.update t 1 D) (T(pos := (T pos)(t := f)))"
    by (intro post_rel_upd [OF assms(1)]) (auto simp: post_ok_def)
  with None show ?thesis by (simp add: add_posting_def)
next
  case (Some ps)
  with post_relD [OF assms(1), of t] have ps: "dict_ok ps" "map_of D t = Some (length ps)"
    "\<And>p. map_of ps p = (if T p t = 0 then None else Some (T p t))"
    by (simp_all add: post_ok_def)
  have "pos \<notin> set (dkeys ps)" using ps(3) [of pos] assms(2) by (simp add: map_of_None_iff)
  then have "length (AList.update pos f ps) = length ps + 1" by (simp add: length_update)
  with ps assms(3) have "post_ok (Some (AList.update pos f ps)) (Some (length ps + 1)) ((\<lambda>p. T p t)(pos := f))"
    by (auto simp: post_ok_def dict_ok_update)
  then have "post_rel (AList.update t (AList.update pos f ps) P) (AList.update t (length ps + 1) D)
      (T(pos := (T pos)(t := f)))"
    by (intro post_rel_upd [OF assms(1)]) simp_all
  with Some ps(2) show ?thesis by (simp add: add_posting_def)
qed

lemma add_postings_ok:
  assumes "post_rel P D T" and "dict_ok cs" and "\<And>t f. (t, f) \<in> set cs \<Longrightarrow> T pos t = 0 \<and> f > 0"
    and "\<And>p t. T' p t = (case map_of cs t of None \<Rightarrow> T p t | Some f \<Rightarrow> if p = pos then f else T p t)"
  shows "\<exists>P' D'. res_fold (add_posting pos) cs (P, D) = Inr (P', D') \<and> post_rel P' D' T'"
  using assms
proof (induction cs arbitrary: P D T)
  case Nil
  then have "T' = T" by (intro ext) simp
  with Nil show ?case by simp
next
  case (Cons c cs)
  obtain t f where c: "c = (t, f)" by (cases c)
  let ?T = "T(pos := (T pos)(t := f))"
  obtain P1 D1 where 1: "add_posting pos (t, f) (P, D) = Inr (P1, D1)" "post_rel P1 D1 ?T"
    using add_posting_ok [OF Cons.prems(1), of pos t f] Cons.prems(3) [of t f] c by auto
  have new: "t \<notin> set (dkeys cs)" using Cons.prems(2) c by simp
  have "\<exists>P' D'. res_fold (add_posting pos) cs (P1, D1) = Inr (P', D') \<and> post_rel P' D' T'"
  proof (rule Cons.IH [OF 1(2)])
    show "dict_ok cs" using Cons.prems(2) by simp
    show "?T pos u = 0 \<and> g > 0" if "(u, g) \<in> set cs" for u g
      using Cons.prems(3) [of u g] that new by force
    show "T' p u = (case map_of cs u of None \<Rightarrow> ?T p u | Some g \<Rightarrow> if p = pos then g else ?T p u)" for p u
      using Cons.prems(4) [of p u] new [folded map_of_None_iff] by (cases "u = t") (auto simp: c split: option.split)
  qed
  with 1(1) show ?case by (simp add: c)
qed

lemma drop_posting_ok:
  assumes "post_rel P D T"
  shows "\<exists>P' D'. drop_posting pos t (P, D) = Inr (P', D') \<and> post_rel P' D' (T(pos := (T pos)(t := 0)))"
proof (cases "map_of P t")
  case None
  with post_relD [OF assms, of t] have "T(pos := (T pos)(t := 0)) = T"
    by (auto simp: post_ok_def fun_eq_iff)
  with None assms show ?thesis by (simp add: drop_posting_def)
next
  case (Some ps)
  let ?q = "AList.delete pos ps"
  from Some post_relD [OF assms, of t] have ps: "dict_ok ps" "map_of D t = Some (length ps)"
    "\<And>p. map_of ps p = (if T p t = 0 then None else Some (T p t))"
    by (simp_all add: post_ok_def)
  show ?thesis
  proof (cases "?q = []")
    case True
    have "((\<lambda>p. T p t)(pos := 0)) p = 0" for p
      using ps(3) [of p] map_of_delete_if [of pos ps p] True by (auto split: if_splits)
    then have "post_rel (AList.delete t P) (AList.delete t D) (T(pos := (T pos)(t := 0)))"
      by (intro post_rel_upd [OF assms]) (simp_all add: post_ok_def)
    with True Some ps(2) show ?thesis by (simp add: drop_posting_def del_key_def)
  next
    case False
    have "post_ok (Some ?q) (Some (length ?q)) ((\<lambda>p. T p t)(pos := 0))"
      using False ps by (simp add: post_ok_def dict_ok_delete)
    then have "post_rel (AList.update t ?q P) (AList.update t (length ?q) D) (T(pos := (T pos)(t := 0)))"
      by (intro post_rel_upd [OF assms]) simp_all
    with False Some show ?thesis by (auto simp add: drop_posting_def Let_def)
  qed
qed

lemma drop_postings_ok:
  assumes "post_rel P D T" and "\<And>p t. T' p t = (if p = pos \<and> t \<in> set ts then 0 else T p t)"
  shows "\<exists>P' D'. res_fold (drop_posting pos) ts (P, D) = Inr (P', D') \<and> post_rel P' D' T'"
  using assms
proof (induction ts arbitrary: P D T)
  case Nil
  then have "T' = T" by (intro ext) simp
  with Nil show ?case by simp
next
  case (Cons t ts)
  let ?T = "T(pos := (T pos)(t := 0))"
  obtain P1 D1 where 1: "drop_posting pos t (P, D) = Inr (P1, D1)" "post_rel P1 D1 ?T"
    using drop_posting_ok [OF Cons.prems(1)] by blast
  have "\<exists>P' D'. res_fold (drop_posting pos) ts (P1, D1) = Inr (P', D') \<and> post_rel P' D' T'"
    by (rule Cons.IH [OF 1(2)]) (simp add: Cons.prems(2))
  with 1(1) show ?case by simp
qed

section \<open>Operations keep the representation\<close>

lemma bm25_relD:
  assumes "bm25_rel idx U"
  shows "finite (dom U)" and "\<And>p x. U p = Some x \<Longrightarrow> p < next_pos idx"
    and "post_rel (postings idx) (doc_freq idx) (tf_at U)"
    and "\<And>p. map_of (doc_len idx) p = map_option (length \<circ> fst \<circ> snd) (U p)"
    and "\<And>p. map_of (unit_id_by_pos idx) p = map_option fst (U p)"
    and "\<And>p. map_of (group_by_pos idx) p = map_option (snd \<circ> snd) (U p)"
    and "\<And>u p. map_of (pos_by_unit_id idx) u = Some p \<longleftrightarrow> (\<exists>x. U p = Some x \<and> uid x = u)"
    and "\<And>p. map_option set (map_of (terms_by_pos idx) p) = map_option (set \<circ> fst \<circ> snd) (U p)"
    and "group_rel (positions_by_group idx) U"
    and "n_units idx = int (card (dom U))"
    and "total_len idx = (\<Sum>p\<in>dom U. int (length (toks (the (U p)))))"
  using assms unfolding bm25_rel_def by blast+

lemma bm25_rel_uid_inj:
  assumes "bm25_rel idx U" and "U p = Some x" and "U q = Some y" and "uid x = uid y"
  shows "p = q"
proof -
  have "map_of (pos_by_unit_id idx) (uid x) = Some p" "map_of (pos_by_unit_id idx) (uid x) = Some q"
    unfolding bm25_relD(7) [OF assms(1)] using assms(2, 3) assms(4) [symmetric] by blast+
  then show ?thesis by simp
qed

lemma group_rel_add:
  assumes "group_rel pg U" and "U pos = None"
  shows "group_rel (add_to_group g pos pg) (U(pos \<mapsto> (u, ts, g)))"
  unfolding group_rel_def
proof (intro allI conjI impI)
  fix h
  from assms(1) have base: "(case map_of pg h of None \<Rightarrow> {} | Some ps \<Rightarrow> set ps) = {p. \<exists>x. U p = Some x \<and> grp x = h}"
    "map_of pg h \<noteq> Some []" "\<And>ps. map_of pg h = Some ps \<Longrightarrow> distinct ps" by (auto simp: group_rel_def)
  show "(case map_of (add_to_group g pos pg) h of None \<Rightarrow> {} | Some ps \<Rightarrow> set ps)
      = {p. \<exists>x. (U(pos \<mapsto> (u, ts, g))) p = Some x \<and> grp x = h}"
    using base(1) assms(2) by (auto simp: add_to_group_def dget_def split: option.splits if_splits)
  show "map_of (add_to_group g pos pg) h \<noteq> Some []"
    using base(2) by (auto simp: add_to_group_def List.insert_def)
  show "distinct ps" if "map_of (add_to_group g pos pg) h = Some ps" for ps
    using base(3) that by (auto simp: add_to_group_def dget_def split: if_splits option.splits)
qed

lemma group_rel_drop:
  assumes "group_rel pg U" and "U pos = Some x"
  shows "group_rel (drop_from_group pos (Some (grp x)) pg) (U(pos := None))"
  unfolding group_rel_def
proof (intro allI conjI impI)
  fix h
  from assms(1) have base: "(case map_of pg k of None \<Rightarrow> {} | Some ps \<Rightarrow> set ps) = {p. \<exists>x. U p = Some x \<and> grp x = k}"
    "map_of pg k \<noteq> Some []" "\<And>ps. map_of pg k = Some ps \<Longrightarrow> distinct ps" for k by (auto simp: group_rel_def)
  have "pos \<in> (case map_of pg (grp x) of None \<Rightarrow> {} | Some ps \<Rightarrow> set ps)"
    using base(1) [of "grp x"] assms(2) by blast
  then obtain ps where ps: "map_of pg (grp x) = Some ps" by (auto split: option.splits)
  have look: "map_of (drop_from_group pos (Some (grp x)) pg) h =
      (if h = grp x then (if removeAll pos ps = [] then None else Some (removeAll pos ps)) else map_of pg h)"
    by (simp add: drop_from_group_def ps Let_def)
  have rm: "set (removeAll pos ps) = {p. \<exists>y. (U(pos := None)) p = Some y \<and> grp y = grp x}"
    using base(1) [of "grp x"] ps by auto
  have other: "{p. \<exists>y. (U(pos := None)) p = Some y \<and> grp y = h} = {p. \<exists>y. U p = Some y \<and> grp y = h}" if "h \<noteq> grp x"
    using assms(2) that by auto
  show "(case map_of (drop_from_group pos (Some (grp x)) pg) h of None \<Rightarrow> {} | Some ps \<Rightarrow> set ps)
      = {p. \<exists>y. (U(pos := None)) p = Some y \<and> grp y = h}"
  proof (cases "h = grp x")
    case True
    then have "(case map_of (drop_from_group pos (Some (grp x)) pg) h of None \<Rightarrow> {} | Some ps \<Rightarrow> set ps)
        = set (removeAll pos ps)"
      unfolding look by (simp del: set_removeAll)
    with rm True show ?thesis by (simp only:)
  next
    case False
    with other [OF False] base(1) [of h] show ?thesis unfolding look by (simp only: if_False)
  qed
  show "map_of (drop_from_group pos (Some (grp x)) pg) h \<noteq> Some []"
    using base(2) by (simp add: look)
  show "distinct qs" if "map_of (drop_from_group pos (Some (grp x)) pg) h = Some qs" for qs
    using base(3) that ps by (auto simp: look distinct_removeAll split: if_splits)
qed

lemma count_list_pos: "t \<in> set ts \<Longrightarrow> 0 < count_list ts t"
  by (metis count_list_0_iff gr0I)

lemma count_list_pos_iff: "0 < count_list ts t \<longleftrightarrow> t \<in> set ts"
  using count_list_pos [of t ts] count_list_0_iff [of ts t] by auto

lemma tf_at_add: "tf_at (U(pos \<mapsto> (u, ts, g))) p t =
    (if p = pos then count_list ts t else tf_at U p t)"
  by (simp add: tf_at_def)

lemma add_at_rel:
  assumes rel: "bm25_rel idx U" and fresh: "\<forall>x \<in> ran U. uid x \<noteq> u"
  shows "\<exists>idx'. add_at u ts g idx = Inr idx' \<and> bm25_rel idx' (U(next_pos idx \<mapsto> (u, ts, g)))
    \<and> k1 idx' = k1 idx \<and> b_param idx' = b_param idx"
proof -
  let ?p = "next_pos idx" and ?c = "token_counts ts"
  let ?U = "U(?p \<mapsto> (u, ts, g))"
  note r = bm25_relD [OF rel]
  have new: "U ?p = None" using r(2) by (cases "U ?p") auto
  have T0: "tf_at U ?p t = 0" for t by (simp add: tf_at_def new)
  obtain P D where PD: "res_fold (add_posting ?p) ?c (postings idx, doc_freq idx) = Inr (P, D)" "post_rel P D (tf_at ?U)"
  proof -
    have "tf_at U ?p t = 0 \<and> f > 0" if "(t, f) \<in> set ?c" for t f
      using that T0 map_of_is_SomeI [OF dict_ok_token_counts that] by (auto simp: map_of_token_counts count_list_pos split: if_splits)
    moreover have "tf_at ?U p t = (case map_of ?c t of None \<Rightarrow> tf_at U p t | Some f \<Rightarrow> if p = ?p then f else tf_at U p t)" for p t
      using T0 by (auto simp: tf_at_add map_of_token_counts count_list_0_iff)
    ultimately show ?thesis
      using that add_postings_ok [OF r(3), of ?c ?p "tf_at ?U"] by auto
  qed
  have dom: "dom ?U = insert ?p (dom U)" "?p \<notin> dom U" using new by auto
  have tot: "(\<Sum>p\<in>dom ?U. int (length (toks (the (?U p))))) = int (length ts) + total_len idx"
    unfolding dom(1) r(11) using r(1) dom(2) by (simp add: sum.insert) (rule sum.cong, auto)
  have pos: "map_of (AList.update u ?p (pos_by_unit_id idx)) v = Some q \<longleftrightarrow> (\<exists>x. ?U q = Some x \<and> uid x = v)" for v q
    using r(7) [of v q] fresh new by (auto simp: ran_def)
  define i where "i = idx \<lparr> next_pos := ?p + 1, doc_len := AList.update ?p (length ts) (doc_len idx),
      total_len := total_len idx + int (length ts), n_units := n_units idx + 1,
      unit_id_by_pos := AList.update ?p u (unit_id_by_pos idx),
      pos_by_unit_id := AList.update u ?p (pos_by_unit_id idx),
      group_by_pos := AList.update ?p g (group_by_pos idx),
      positions_by_group := add_to_group g ?p (positions_by_group idx),
      postings := P, doc_freq := D, terms_by_pos := AList.update ?p (dkeys ?c) (terms_by_pos idx) \<rparr>"
  have i: "add_at u ts g idx = Inr i"
    using PD(1) by (auto simp: add_at_def i_def token_counts_def Let_def)
  have f: "postings i = P" "doc_freq i = D"
    "terms_by_pos i = AList.update ?p (dkeys ?c) (terms_by_pos idx)"
    "doc_len i = AList.update ?p (length ts) (doc_len idx)"
    "unit_id_by_pos i = AList.update ?p u (unit_id_by_pos idx)"
    "pos_by_unit_id i = AList.update u ?p (pos_by_unit_id idx)"
    "group_by_pos i = AList.update ?p g (group_by_pos idx)"
    "positions_by_group i = add_to_group g ?p (positions_by_group idx)"
    "total_len i = total_len idx + int (length ts)" "n_units i = n_units idx + 1" "next_pos i = ?p + 1"
    and k: "k1 i = k1 idx" "b_param i = b_param idx"
    by (simp_all add: i_def)
  have "bm25_rel i ?U"
    unfolding bm25_rel_def f
  proof (intro conjI allI ballI)
    show "p < ?p + 1" if "p \<in> dom ?U" for p using that r(2) less_Suc_eq by (auto split: if_splits)
    show "n_units idx + 1 = int (card (dom ?U))" using dom r(1, 10) by simp
    show "total_len idx + int (length ts) = (\<Sum>p\<in>dom ?U. int (length (toks (the (?U p)))))"
      by (simp only: tot)
    show "finite (dom ?U)" using r(1) dom(1) by simp
  qed (use PD(2) group_rel_add [OF r(9) new] pos dkeys_token_counts [of ts] in
      \<open>simp_all add: r(4-6, 8) del: split_paired_Ex\<close>)
  with i k show ?thesis by blast
qed

lemma remove_at_rel:
  assumes rel: "bm25_rel idx U" and x: "U pos = Some x"
  shows "\<exists>idx'. remove_at pos idx = Inr idx' \<and> bm25_rel idx' (U(pos := None))
    \<and> k1 idx' = k1 idx \<and> b_param idx' = b_param idx"
proof -
  let ?U = "U(pos := None)"
  note r = bm25_relD [OF rel]
  from r(8) [of pos] x obtain terms where terms: "map_of (terms_by_pos idx) pos = Some terms" "set terms = set (toks x)"
    by auto
  have "tf_at ?U p t = (if p = pos \<and> t \<in> set terms then 0 else tf_at U p t)" for p t
    using x terms(2) by (auto simp: tf_at_def count_list_0_iff)
  then obtain P D where PD: "res_fold (drop_posting pos) terms (postings idx, doc_freq idx) = Inr (P, D)"
    "post_rel P D (tf_at ?U)"
    using drop_postings_ok [OF r(3), of "tf_at ?U"] by blast
  have dom: "dom U = insert pos (dom ?U)" "pos \<notin> dom ?U" "finite (dom ?U)" using x r(1) by auto
  have card: "card (dom U) = Suc (card (dom ?U))" unfolding dom(1) using dom(2, 3) by (rule card_insert_disjoint [rotated])
  have tot: "total_len idx = int (length (toks x)) + (\<Sum>p\<in>dom ?U. int (length (toks (the (?U p)))))"
  proof -
    have "(\<Sum>p\<in>dom U. int (length (toks (the (U p))))) =
        int (length (toks (the (U pos)))) + (\<Sum>p\<in>dom ?U. int (length (toks (the (U p)))))"
      unfolding dom(1) using dom(2, 3) by (rule sum.insert [rotated])
    moreover have "(\<Sum>p\<in>dom ?U. int (length (toks (the (U p))))) = (\<Sum>p\<in>dom ?U. int (length (toks (the (?U p)))))"
      by (rule sum.cong) auto
    ultimately show ?thesis unfolding r(11) by (simp only: x option.sel)
  qed
  have pos: "map_of (AList.delete (uid x) (pos_by_unit_id idx)) v = Some q \<longleftrightarrow> (\<exists>y. ?U q = Some y \<and> uid y = v)" for v q
  proof -
    have "(\<exists>y. ?U q = Some y \<and> uid y = v) \<longleftrightarrow> v \<noteq> uid x \<and> (\<exists>y. U q = Some y \<and> uid y = v)"
      using bm25_rel_uid_inj [OF rel, of q _ pos x] x by (metis fun_upd_apply option.distinct(1) option.inject)
    then show ?thesis using r(7) [of v q] by simp
  qed
  have less: "p < next_pos idx" if "?U p = Some y" for p y
    using r(2) [of p y] that by (simp split: if_splits)
  have eqs: "map_of (unit_id_by_pos idx) pos = Some (uid x)" "map_of (group_by_pos idx) pos = Some (grp x)"
    "dget (doc_len idx) pos 0 = length (toks x)" "dget (terms_by_pos idx) pos [] = terms"
    using r(4-6) [of pos] x terms by (simp_all add: dget_def)
  define i where "i = idx \<lparr> postings := P, doc_freq := D,
      terms_by_pos := AList.delete pos (terms_by_pos idx),
      total_len := total_len idx - int (length (toks x)),
      doc_len := AList.delete pos (doc_len idx),
      unit_id_by_pos := AList.delete pos (unit_id_by_pos idx),
      pos_by_unit_id := AList.delete (uid x) (pos_by_unit_id idx),
      group_by_pos := AList.delete pos (group_by_pos idx),
      positions_by_group := drop_from_group pos (Some (grp x)) (positions_by_group idx),
      n_units := n_units idx - 1 \<rparr>"
  have i: "remove_at pos idx = Inr i" using PD(1) by (simp add: remove_at_def eqs i_def)
  have f: "postings i = P" "doc_freq i = D"
    "terms_by_pos i = AList.delete pos (terms_by_pos idx)" "doc_len i = AList.delete pos (doc_len idx)"
    "unit_id_by_pos i = AList.delete pos (unit_id_by_pos idx)"
    "pos_by_unit_id i = AList.delete (uid x) (pos_by_unit_id idx)"
    "group_by_pos i = AList.delete pos (group_by_pos idx)"
    "positions_by_group i = drop_from_group pos (Some (grp x)) (positions_by_group idx)"
    "total_len i = total_len idx - int (length (toks x))" "n_units i = n_units idx - 1" "next_pos i = next_pos idx"
    and k: "k1 i = k1 idx" "b_param i = b_param idx"
    by (simp_all add: i_def)
  have "bm25_rel i ?U"
    unfolding bm25_rel_def f
  proof (intro conjI allI ballI)
    show "p < next_pos idx" if "p \<in> dom ?U" for p using that less by (metis domD)
    show "n_units idx - 1 = int (card (dom ?U))" by (simp only: r(10) card)
    show "total_len idx - int (length (toks x)) = (\<Sum>p\<in>dom ?U. int (length (toks (the (?U p)))))"
      by (simp only: tot)
  qed (use PD(2) dom(3) group_rel_drop [OF r(9) x] pos in \<open>simp_all add: r(4-6, 8) del: split_paired_Ex\<close>)
  with i k show ?thesis by blast
qed

lemma empty_rel: "bm25_rel (empty_bm25 ar kk bb) Map.empty"
  by (simp add: bm25_rel_def empty_bm25_def post_rel_def post_ok_def tf_at_def group_rel_def)

lemma remove_at_ran:
  assumes "bm25_rel idx U" and "U pos = Some x"
  shows "ran (U(pos := None)) = {y \<in> ran U. uid y \<noteq> uid x}"
proof
  show "ran (U(pos := None)) \<subseteq> {y \<in> ran U. uid y \<noteq> uid x}"
    using bm25_rel_uid_inj [OF assms(1) _ assms(2)] by (auto simp: ran_def)
  show "{y \<in> ran U. uid y \<noteq> uid x} \<subseteq> ran (U(pos := None))"
  proof
    fix y assume "y \<in> {y \<in> ran U. uid y \<noteq> uid x}"
    then obtain q where q: "U q = Some y" "uid y \<noteq> uid x" by (auto simp: ran_def)
    with assms(2) have "q \<noteq> pos" by auto
    with q(1) show "y \<in> ran (U(pos := None))" by (auto intro: ranI [of _ q])
  qed
qed

lemma rep_empty: "rep (rnd ar kk) (rnd ar bb) (empty_bm25 ar kk bb) {}"
  using empty_rel [of ar kk bb] by (auto simp: rep_def empty_bm25_def)

lemma rep_remove_unit:
  assumes "rep kk bb idx S"
  shows "\<exists>idx'. remove_unit u idx = Inr idx' \<and> rep kk bb idx' (spec_remove u S)"
proof -
  from assms obtain U where U: "bm25_rel idx U" "ran U = S" "k1 idx = kk" "b_param idx = bb"
    by (auto simp: rep_def)
  note look = bm25_relD(7) [OF U(1)]
  show ?thesis
  proof (cases "map_of (pos_by_unit_id idx) u")
    case None
    then have "\<forall>x \<in> S. uid x \<noteq> u" using look [of u] U(2) by (force simp: ran_def)
    then have "spec_remove u S = S" by (auto simp: spec_remove_def)
    with None assms show ?thesis by (simp add: remove_unit_def)
  next
    case (Some pos)
    with look obtain x where x: "U pos = Some x" "uid x = u" by blast
    with Some remove_at_rel [OF U(1) x(1)] remove_at_ran [OF U(1) x(1)] U(2-4) show ?thesis
      by (auto simp: remove_unit_def rep_def spec_remove_def)
  qed
qed

lemma rep_add_at:
  assumes "rep kk bb idx S" and "\<forall>x \<in> S. uid x \<noteq> u"
  shows "\<exists>idx'. add_at u ts g idx = Inr idx' \<and> rep kk bb idx' (insert (u, ts, g) S)"
proof -
  from assms obtain U where U: "bm25_rel idx U" "ran U = S" "k1 idx = kk" "b_param idx = bb"
    by (auto simp: rep_def)
  have "U (next_pos idx) = None"
    using bm25_relD(2) [OF U(1)] by (cases "U (next_pos idx)") auto
  then have "ran (U(next_pos idx \<mapsto> (u, ts, g))) = insert (u, ts, g) S" using U(2) by simp
  with add_at_rel [OF U(1), of u ts g] assms(2) U(2-4) show ?thesis by (auto simp: rep_def)
qed

lemma rep_add_unit:
  assumes "rep kk bb idx S"
  shows "\<exists>idx'. add_unit u ts g idx = Inr idx' \<and> rep kk bb idx' (spec_add u ts g S)"
proof -
  obtain i where i: "remove_unit u idx = Inr i" "rep kk bb i (spec_remove u S)"
    using rep_remove_unit [OF assms] by blast
  moreover have "(if map_of (pos_by_unit_id idx) u \<noteq> None then remove_unit u idx else Inr idx) = remove_unit u idx"
    by (simp add: remove_unit_def)
  moreover have "\<forall>x \<in> spec_remove u S. uid x \<noteq> u" by (simp add: spec_remove_def)
  ultimately show ?thesis
    using rep_add_at [of kk bb i "spec_remove u S" u ts] by (simp add: add_unit_def spec_add_def)
qed

lemma res_fold_rep:
  assumes "\<And>x i S. x \<in> set xs \<Longrightarrow> R i S \<Longrightarrow> \<exists>i'. f x i = Inr i' \<and> R i' (g x S)" and "R i S"
  shows "\<exists>i'. res_fold f xs i = Inr i' \<and> R i' (fold g xs S)"
  using assms
proof (induction xs arbitrary: i S)
  case (Cons x xs)
  then obtain i1 where "f x i = Inr i1" "R i1 (g x S)" by (meson list.set_intros(1))
  with Cons show ?case by (metis fold_simps(2) list.set_intros(2) res_bind_simps(2) res_fold.simps(2))
qed simp

lemma remove_all_rel:
  assumes "bm25_rel idx U" and "distinct ps" and "\<forall>p \<in> set ps. U p \<noteq> None"
  shows "\<exists>idx'. res_fold remove_at ps idx = Inr idx' \<and> bm25_rel idx' (\<lambda>p. if p \<in> set ps then None else U p)
    \<and> k1 idx' = k1 idx \<and> b_param idx' = b_param idx"
  using assms
proof (induction ps arbitrary: idx U)
  case (Cons p ps)
  then obtain x where "U p = Some x" by fastforce
  then obtain i where i: "remove_at p idx = Inr i" "bm25_rel i (U(p := None))" "k1 i = k1 idx" "b_param i = b_param idx"
    using remove_at_rel [OF Cons.prems(1)] by blast
  have "\<forall>q \<in> set ps. (U(p := None)) q \<noteq> None" using Cons.prems(2, 3) by auto
  with Cons.IH [OF i(2)] Cons.prems(2) obtain i' where i': "res_fold remove_at ps i = Inr i'"
    "bm25_rel i' (\<lambda>q. if q \<in> set ps then None else (U(p := None)) q)" "k1 i' = k1 i" "b_param i' = b_param i"
    by auto
  have "(\<lambda>q. if q \<in> set ps then None else (U(p := None)) q) = (\<lambda>q. if q \<in> set (p # ps) then None else U q)"
    by auto
  with i i' show ?case by simp
qed simp

lemma rep_remove_group:
  assumes "rep kk bb idx S"
  shows "\<exists>idx'. remove_group g idx = Inr idx' \<and> rep kk bb idx' (spec_remove_group g S)"
proof -
  from assms obtain U where U: "bm25_rel idx U" "ran U = S" "k1 idx = kk" "b_param idx = bb"
    by (auto simp: rep_def)
  from bm25_relD(9) [OF U(1)] have gr: "(case map_of (positions_by_group idx) g of None \<Rightarrow> {} | Some ps \<Rightarrow> set ps)
      = {p. \<exists>x. U p = Some x \<and> grp x = g}" "\<And>ps. map_of (positions_by_group idx) g = Some ps \<Longrightarrow> distinct ps"
    unfolding group_rel_def by blast+
  show ?thesis
  proof (cases "map_of (positions_by_group idx) g")
    case None
    with gr(1) have "\<forall>x \<in> S. grp x \<noteq> g" using U(2) by (auto simp: ran_def)
    then have "spec_remove_group g S = S" by (auto simp: spec_remove_group_def)
    with None assms show ?thesis by (simp add: remove_group_def)
  next
    case (Some ps)
    then have ps: "set ps = {p. \<exists>x. U p = Some x \<and> grp x = g}" "distinct ps" using gr by auto
    let ?V = "\<lambda>p. if p \<in> set ps then None else U p"
    obtain i where i: "res_fold remove_at ps idx = Inr i" "bm25_rel i ?V" "k1 i = kk" "b_param i = bb"
      using remove_all_rel [OF U(1) ps(2)] ps(1) U(3, 4) by auto
    have "?V p = Some y \<longleftrightarrow> U p = Some y \<and> grp y \<noteq> g" for p y
      unfolding ps(1) by (cases "U p") auto
    then have "ran ?V = spec_remove_group g S"
      unfolding ran_def spec_remove_group_def U(2) [symmetric] by auto
    with i have "rep kk bb i (spec_remove_group g S)" by (auto simp: rep_def)
    moreover have "remove_group g idx = res_fold remove_at ps idx"
      using Some by (simp add: remove_group_def)
    ultimately show ?thesis using i(1) by simp
  qed
qed

section \<open>The index as an abstract store of units\<close>

text \<open>
  Interface of an index of units: each operation returns, and keeps the representation of the
  set of units it stands for.
\<close>

locale unit_store =
  fixes repr :: "'i \<Rightarrow> unit3 set \<Rightarrow> bool"
    and add :: "string \<Rightarrow> string list \<Rightarrow> string option \<Rightarrow> 'i \<Rightarrow> 'i res"
    and rem :: "string \<Rightarrow> 'i \<Rightarrow> 'i res"
    and rem_group :: "string \<Rightarrow> 'i \<Rightarrow> 'i res"
  assumes add_repr: "repr i S \<Longrightarrow> \<exists>i'. add u ts g i = Inr i' \<and> repr i' (spec_add u ts g S)"
    and rem_repr: "repr i S \<Longrightarrow> \<exists>i'. rem u i = Inr i' \<and> repr i' (spec_remove u S)"
    and rem_group_repr: "repr i S \<Longrightarrow> \<exists>i'. rem_group h i = Inr i' \<and> repr i' (spec_remove_group h S)"
begin

lemma replace_repr:
  assumes "repr i S"
  shows "\<exists>i'. res_bind (rem_group g i) (res_fold (\<lambda>(u, ts). add u ts (Some g)) us) = Inr i'
    \<and> repr i' (spec_replace g us S)"
proof -
  obtain i1 where i1: "rem_group g i = Inr i1" "repr i1 (spec_remove_group g S)"
    using rem_group_repr [OF assms] by blast
  have "\<exists>i'. res_fold (\<lambda>(u, ts). add u ts (Some g)) us i1 = Inr i'
      \<and> repr i' (fold (\<lambda>(u, ts). spec_add u ts (Some g)) us (spec_remove_group g S))"
    by (rule res_fold_rep [of us repr, OF _ i1(2)]) (auto intro: add_repr)
  with i1(1) show ?thesis by (simp add: spec_replace_def)
qed

lemma replace_twice:
  assumes "repr i S"
  shows "\<exists>i'. res_bind (res_bind (rem_group g i) (res_fold (\<lambda>(u, ts). add u ts (Some g)) us)) (rem_group g) = Inr i'
    \<and> repr i' (spec_remove_group g (spec_replace g us S))"
  using replace_repr [OF assms, of g us] rem_group_repr by fastforce

end

interpretation ix: unit_store "rep kk bb" add_unit remove_unit remove_group for kk bb
  by unfold_locales (rule rep_add_unit rep_remove_unit rep_remove_group; assumption)+

lemma rep_run_op: "rep kk bb idx S \<Longrightarrow> \<exists>idx'. run_op oper idx = Inr idx' \<and> rep kk bb idx' (spec_op oper S)"
  using ix.add_repr ix.rem_repr ix.rem_group_repr ix.replace_repr
  by (cases oper) (simp_all add: replace_group_def)

section \<open>Building and ranking\<close>

lemma rep_add_all:
  assumes "rep kk bb i S" and "distinct (map uid us)" and "\<forall>x \<in> S. uid x \<notin> uid ` set us"
  shows "\<exists>i'. res_fold (\<lambda>(u, ts, g). add_at u ts g) us i = Inr i' \<and> rep kk bb i' (S \<union> set us)"
  using assms
proof (induction us arbitrary: i S)
  case (Cons x us)
  obtain u ts g where x: "x = (u, ts, g)" by (cases x)
  obtain i1 where i1: "add_at u ts g i = Inr i1" "rep kk bb i1 (insert (u, ts, g) S)"
    using rep_add_at [OF Cons.prems(1), of u ts g] Cons.prems(3) x by auto
  have "\<forall>y \<in> insert (u, ts, g) S. uid y \<notin> uid ` set us"
    using Cons.prems(2, 3) x by auto
  with Cons.IH [OF i1(2)] Cons.prems(2) obtain i' where
    "res_fold (\<lambda>(u, ts, g). add_at u ts g) us i1 = Inr i'" "rep kk bb i' (insert (u, ts, g) S \<union> set us)" by auto
  with i1(1) show ?case by (simp add: x)
qed simp

lemma zip_units: "zip (map uid us) (zip (map toks us) (map grp us)) = us"
  by (induction us) auto

lemma rep_from_token_lists:
  assumes "distinct (map uid us)"
  shows "\<exists>i. from_token_lists ar (map uid us) (map toks us) (Some (map grp us)) kk bb = Inr i
    \<and> rep (rnd ar kk) (rnd ar bb) i (set us)"
  using rep_add_all [OF rep_empty assms, of ar kk bb]
  by (simp add: from_token_lists_def build_index_def zip_units)

lemma bm25_rel_bij:
  assumes "bm25_rel idx U"
  shows "bij_betw (\<lambda>p. the (U p)) (dom U) (ran U)"
  unfolding bij_betw_def
proof
  show "inj_on (\<lambda>p. the (U p)) (dom U)"
    by (rule inj_onI) (metis assms bm25_rel_uid_inj domD option.sel)
  show "(\<lambda>p. the (U p)) ` dom U = ran U"
    by (force simp: ran_def dom_def image_def)
qed

lemma rel_card: "bm25_rel idx U \<Longrightarrow> card (dom U) = card (ran U)"
  by (rule bij_betw_same_card [OF bm25_rel_bij])

lemma rel_total: "bm25_rel idx U \<Longrightarrow> total_len idx = (\<Sum>x\<in>ran U. int (length (toks x)))"
  using sum.reindex_bij_betw [OF bm25_rel_bij, of idx U "\<lambda>x. int (length (toks x))"]
  by (simp only: bm25_relD(11))

lemma rel_df:
  assumes "bm25_rel idx U"
  shows "dget (doc_freq idx) t 0 = card {y \<in> ran U. t \<in> set (toks y)}"
proof -
  have "bij_betw (\<lambda>p. the (U p)) {p \<in> dom U. t \<in> set (toks (the (U p)))} {y \<in> ran U. t \<in> set (toks y)}"
    using bm25_rel_bij [OF assms] by (rule bij_betw_subset) (auto simp: ran_def dom_def image_def, force)
  then have c: "card {y \<in> ran U. t \<in> set (toks y)} = card {p \<in> dom U. t \<in> set (toks (the (U p)))}"
    by (rule bij_betw_same_card [symmetric])
  have tf: "tf_at U p t \<noteq> 0 \<longleftrightarrow> p \<in> dom U \<and> t \<in> set (toks (the (U p)))" for p
    by (auto simp: tf_at_def count_list_pos_iff split: option.splits)
  note ok = post_relD [OF bm25_relD(3) [OF assms], of t]
  show ?thesis
  proof (cases "map_of (postings idx) t")
    case None
    with ok tf have "{p \<in> dom U. t \<in> set (toks (the (U p)))} = {}" by (simp add: post_ok_def)
    with None ok c show ?thesis by (simp add: post_ok_def dget_def)
  next
    case (Some ps)
    with ok have ps: "dict_ok ps" "map_of (doc_freq idx) t = Some (length ps)"
      "\<And>p. map_of ps p = (if tf_at U p t = 0 then None else Some (tf_at U p t))" by (auto simp: post_ok_def)
    have "q \<in> set (dkeys ps) \<longleftrightarrow> tf_at U q t \<noteq> 0" for q
      using ps(3) [of q] map_of_None_iff [of ps q] by (auto split: if_splits)
    then have "set (dkeys ps) = {p \<in> dom U. t \<in> set (toks (the (U p)))}"
      using tf by blast
    then have "length ps = card {p \<in> dom U. t \<in> set (toks (the (U p)))}"
      using distinct_card [OF ps(1)] by simp
    with ps(2) c show ?thesis by (simp add: dget_def)
  qed
qed

definition allowed_positions :: "bm25 \<Rightarrow> string list option \<Rightarrow> nat list option" where
  "allowed_positions idx ids = map_option (List.map_filter (position_of idx)) ids"

lemma allowed_iff:
  assumes "bm25_rel idx U" and "U p = Some x"
  shows "(case allowed_positions idx ids of None \<Rightarrow> False | Some A \<Rightarrow> p \<notin> set A)
    \<longleftrightarrow> \<not> (case map_option set ids of None \<Rightarrow> True | Some I \<Rightarrow> uid x \<in> I)"
proof -
  have "position_of idx u = Some p \<longleftrightarrow> u = uid x" for u
    unfolding position_of_def bm25_relD(7) [OF assms(1)] assms(2) by (auto simp del: split_paired_Ex)
  then have "p \<in> set (List.map_filter (position_of idx) I) \<longleftrightarrow> uid x \<in> set I" for I
    unfolding set_map_filter by simp
  then show ?thesis by (cases ids) (simp_all add: allowed_positions_def)
qed

text \<open>What one term does to the scores, in terms of the formula.\<close>

lemma score_posting_ok:
  assumes rel: "bm25_rel idx U" and S: "ran U = S" and x: "U p = Some x" and t: "t \<in> set (toks x)"
    and i: "i = idf_of ar (int (card S)) (card {y \<in> S. t \<in> set (toks y)})" "i > 0"
    and avg: "avgdl = avg_len ar (\<Sum>y\<in>S. int (length (toks y))) (int (card S))"
    and "dict_ok scores"
  shows "\<exists>scores'. score_posting ar idx (allowed_positions idx ids) avgdl i (p, count_list (toks x) t) scores = Inr scores'
    \<and> dict_ok scores' \<and> (\<forall>q. map_of scores' q =
        (if q = p then spec_step ar (k1 idx) (b_param idx) S (map_option set ids) x t (map_of scores q) else map_of scores q))"
proof -
  have len: "dlookup (doc_len idx) p = Inr (length (toks x))"
    using bm25_relD(4) [OF rel, of p] x by simp
  define ok where "ok = (case map_option set ids of None \<Rightarrow> True | Some I \<Rightarrow> uid x \<in> I)"
  define den where "den = denominator ar (k1 idx) (b_param idx) avgdl (length (toks x)) (count_list (toks x) t)"
  have step: "spec_step ar (k1 idx) (b_param idx) S (map_option set ids) x t acc =
      (if ok \<and> den > 0 then Some (fadd ar (case acc of None \<Rightarrow> 0 | Some s \<Rightarrow> s)
         (contribution ar i (k1 idx) (count_list (toks x) t) den)) else acc)" for acc
    using t i by (simp add: spec_step_def Let_def ok_def den_def avg)
  have al: "(case allowed_positions idx ids of None \<Rightarrow> False | Some A \<Rightarrow> p \<notin> set A) \<longleftrightarrow> \<not> ok"
    unfolding ok_def by (rule allowed_iff [OF rel x])
  have run: "score_posting ar idx (allowed_positions idx ids) avgdl i (p, count_list (toks x) t) scores =
      (if \<not> ok then Inr scores else if den \<le> 0 then Inr scores
       else Inr (AList.update p (fadd ar (dget scores p 0) (contribution ar i (k1 idx) (count_list (toks x) t) den)) scores))"
    unfolding score_posting_def prod.case al len res_bind_simps Let_def den_def [symmetric] ..
  show ?thesis
    unfolding run step using assms(8) by (cases "ok \<and> den > 0") (auto simp: dget_def dict_ok_update)
qed

lemma score_postings_ok:
  assumes rel: "bm25_rel idx U" and S: "ran U = S"
    and i: "i = idf_of ar (int (card S)) (card {y \<in> S. t \<in> set (toks y)})" "i > 0"
    and avg: "avgdl = avg_len ar (\<Sum>y\<in>S. int (length (toks y))) (int (card S))"
    and "dict_ok ps" and "\<And>p f. (p, f) \<in> set ps \<Longrightarrow> \<exists>x. U p = Some x \<and> t \<in> set (toks x) \<and> f = count_list (toks x) t"
    and "dict_ok scores"
  shows "\<exists>scores'. res_fold (score_posting ar idx (allowed_positions idx ids) avgdl i) ps scores = Inr scores'
    \<and> dict_ok scores' \<and> (\<forall>q. map_of scores' q =
        (if q \<in> set (dkeys ps)
         then spec_step ar (k1 idx) (b_param idx) S (map_option set ids) (the (U q)) t (map_of scores q)
         else map_of scores q))"
  using assms(6-8)
proof (induction ps arbitrary: scores)
  case (Cons e ps)
  obtain p f where e: "e = (p, f)" by (cases e)
  obtain x where x: "U p = Some x" "t \<in> set (toks x)" "f = count_list (toks x) t"
    using Cons.prems(2) [of p f] e by auto
  from score_posting_ok [OF rel S x(1, 2) i avg Cons.prems(3), of ids] obtain s1 where
    s1: "score_posting ar idx (allowed_positions idx ids) avgdl i (p, f) scores = Inr s1" "dict_ok s1"
    "\<And>q. map_of s1 q = (if q = p then spec_step ar (k1 idx) (b_param idx) S (map_option set ids) x t (map_of scores q) else map_of scores q)"
    unfolding x(3) by blast
  obtain s2 where s2: "res_fold (score_posting ar idx (allowed_positions idx ids) avgdl i) ps s1 = Inr s2" "dict_ok s2"
    "\<And>q. map_of s2 q = (if q \<in> set (dkeys ps)
         then spec_step ar (k1 idx) (b_param idx) S (map_option set ids) (the (U q)) t (map_of s1 q) else map_of s1 q)"
  proof -
    have "dict_ok ps" using Cons.prems(1) by simp
    moreover have "\<exists>x. U q = Some x \<and> t \<in> set (toks x) \<and> g = count_list (toks x) t" if "(q, g) \<in> set ps" for q g
      by (rule Cons.prems(2)) (simp add: that)
    ultimately show ?thesis using that Cons.IH [OF _ _ s1(2)] by blast
  qed
  have "p \<notin> set (dkeys ps)" using Cons.prems(1) e by simp
  then have "map_of s2 q = (if q \<in> set (dkeys (e # ps))
         then spec_step ar (k1 idx) (b_param idx) S (map_option set ids) (the (U q)) t (map_of scores q)
         else map_of scores q)" for q
    unfolding s2(3) s1(3) using x(1) by (simp add: e)
  with s1(1) s2(1, 2) show ?case by (simp add: e)
qed simp

definition scores_rel :: "(nat \<rightharpoonup> unit3) \<Rightarrow> (unit3 \<Rightarrow> real option) \<Rightarrow> (nat, real) dict \<Rightarrow> bool" where
  "scores_rel U sc scores \<longleftrightarrow> dict_ok scores \<and> (\<forall>p. map_of scores p = Option.bind (U p) sc)"

lemma score_term_ok:
  assumes rel: "bm25_rel idx U" and S: "ran U = S"
    and avg: "avgdl = avg_len ar (\<Sum>y\<in>S. int (length (toks y))) (int (card S))"
    and sc: "scores_rel U sc scores"
  shows "\<exists>scores'. score_term ar idx (allowed_positions idx ids) avgdl t scores = Inr scores'
    \<and> scores_rel U (\<lambda>x. spec_step ar (k1 idx) (b_param idx) S (map_option set ids) x t (sc x)) scores'"
proof -
  let ?step = "\<lambda>x. spec_step ar (k1 idx) (b_param idx) S (map_option set ids) x t"
  define i where "i = idf_of ar (int (card S)) (card {y \<in> S. t \<in> set (toks y)})"
  have i: "idf ar idx t = i"
    using rel_df [OF rel, of t] bm25_relD(10) [OF rel] rel_card [OF rel] S by (simp add: idf_def i_def)
  note ok = post_relD [OF bm25_relD(3) [OF rel], of t]
  have skip: "scores_rel U (\<lambda>x. ?step x (sc x)) scores" if skip_cond: "\<And>x. x \<in> S \<Longrightarrow> i \<le> 0 \<or> t \<notin> set (toks x)"
  proof -
    have "?step x (sc x) = sc x" if "U p = Some x" for p x
    proof -
      have "x \<in> S" using that S by (auto intro: ranI)
      then have "\<not> (t \<in> set (toks x) \<and> i > 0)" by (auto dest: skip_cond)
      then show ?thesis unfolding spec_step_def Let_def i_def [symmetric] by auto
    qed
    then have "Option.bind (U p) (\<lambda>x. ?step x (sc x)) = Option.bind (U p) sc" for p
      by (cases "U p") simp_all
    with sc show ?thesis by (simp add: scores_rel_def)
  qed
  show ?thesis
  proof (cases "map_of (postings idx) t")
    case None
    with ok have zero: "tf_at U p t = 0" for p by (simp add: post_ok_def)
    have "t \<notin> set (toks x)" if "x \<in> S" for x
    proof -
      from that S obtain p where "U p = Some x" by (auto simp: ran_def)
      with zero [of p] show ?thesis by (simp add: tf_at_def count_list_0_iff)
    qed
    with None skip show ?thesis by (auto simp: score_term_def)
  next
    case (Some ps)
    with ok have ps: "dict_ok ps" "ps \<noteq> []" "\<And>p. map_of ps p = (if tf_at U p t = 0 then None else Some (tf_at U p t))"
      by (auto simp: post_ok_def)
    show ?thesis
    proof (cases "i \<le> 0")
      case True
      with Some skip show ?thesis by (auto simp: score_term_def i)
    next
      case False
      have mem: "\<exists>x. U p = Some x \<and> t \<in> set (toks x) \<and> f = count_list (toks x) t" if "(p, f) \<in> set ps" for p f
      proof -
        have "map_of ps p = Some f" using ps(1) that by (rule map_of_is_SomeI)
        with ps(3) [of p] have "tf_at U p t = f" "f > 0" by (auto split: if_splits)
        then show ?thesis by (cases "U p") (auto simp: tf_at_def count_list_pos_iff)
      qed
      from False have "i > 0" by simp
      have dsc: "dict_ok scores" using sc by (simp add: scores_rel_def)
      from score_postings_ok [OF rel S i_def \<open>i > 0\<close> avg ps(1) mem dsc, of ids]
      obtain s2 where s2: "res_fold (score_posting ar idx (allowed_positions idx ids) avgdl i) ps scores = Inr s2"
        "dict_ok s2" "\<And>q. map_of s2 q = (if q \<in> set (dkeys ps) then ?step (the (U q)) (map_of scores q) else map_of scores q)"
        by blast
      have "map_of s2 q = Option.bind (U q) (\<lambda>x. ?step x (sc x))" for q
      proof (cases "U q")
        case None
        then have "q \<notin> set (dkeys ps)" using mem by force
        with None s2(3) [of q] sc show ?thesis by (simp add: scores_rel_def)
      next
        case (Some x)
        have "q \<in> set (dkeys ps) \<longleftrightarrow> t \<in> set (toks x)"
          using ps(3) [of q] map_of_None_iff [of ps q] Some by (auto simp: tf_at_def count_list_0_iff split: if_splits)
        with Some s2(3) [of q] sc show ?thesis by (simp add: scores_rel_def spec_step_def Let_def)
      qed
      with s2 Some False ps(2) show ?thesis by (simp add: score_term_def i scores_rel_def)
    qed
  qed
qed

lemma score_terms_ok:
  assumes rel: "bm25_rel idx U" and S: "ran U = S"
    and avg: "avgdl = avg_len ar (\<Sum>y\<in>S. int (length (toks y))) (int (card S))"
  shows "scores_rel U sc scores \<Longrightarrow>
    \<exists>scores'. res_fold (score_term ar idx (allowed_positions idx ids) avgdl) terms scores = Inr scores'
    \<and> scores_rel U (\<lambda>x. fold (spec_step ar (k1 idx) (b_param idx) S (map_option set ids) x) terms (sc x)) scores'"
proof (induction terms arbitrary: sc scores)
  case (Cons t ts)
  from score_term_ok [OF rel S avg Cons.prems, of ids t] obtain s1 where
    s1: "score_term ar idx (allowed_positions idx ids) avgdl t scores = Inr s1"
    "scores_rel U (\<lambda>x. spec_step ar (k1 idx) (b_param idx) S (map_option set ids) x t (sc x)) s1" by blast
  from Cons.IH [OF s1(2)] s1(1) show ?case by simp
qed simp

lemma scored_items:
  assumes rel: "bm25_rel idx U" and S: "ran U = S" and sc: "scores_rel U sc scores"
  shows "\<exists>items. res_mapM (\<lambda>(pos, s). res_bind (dlookup (unit_id_by_pos idx) pos) (\<lambda>u. Inr (u, s))) scores = Inr items
    \<and> distinct (map fst items) \<and> set items = {(uid x, s) |x s. x \<in> S \<and> sc x = Some s}"
proof -
  let ?f = "\<lambda>(p, s). (uid (the (U p)), s)"
  have item: "\<exists>x. U p = Some x \<and> sc x = Some s" if "(p, s) \<in> set scores" for p s
  proof -
    have "dict_ok scores" using sc by (simp add: scores_rel_def)
    then have "map_of scores p = Some s" using that by (rule map_of_is_SomeI)
    with sc show ?thesis by (cases "U p") (auto simp: scores_rel_def simp del: split_paired_Ex)
  qed
  have look: "dlookup (unit_id_by_pos idx) p = Inr (uid (the (U p)))" if "(p, s) \<in> set scores" for p s
    using item [OF that] bm25_relD(5) [OF rel, of p] by fastforce
  have 1: "res_mapM (\<lambda>(pos, s). res_bind (dlookup (unit_id_by_pos idx) pos) (\<lambda>u. Inr (u, s))) scores = Inr (map ?f scores)"
    by (rule res_mapM_ok) (auto simp: look)
  have "inj_on (\<lambda>p. uid (the (U p))) (set (dkeys scores))"
  proof (rule inj_onI)
    fix p q assume pq: "p \<in> set (dkeys scores)" "q \<in> set (dkeys scores)" "uid (the (U p)) = uid (the (U q))"
    then obtain s s' where "(p, s) \<in> set scores" "(q, s') \<in> set scores" by auto
    with item obtain x y where "U p = Some x" "U q = Some y" by blast
    with pq(3) bm25_rel_uid_inj [OF rel] show "p = q" by simp
  qed
  moreover have "dict_ok scores" using sc by (simp add: scores_rel_def)
  ultimately have "distinct (map (\<lambda>p. uid (the (U p))) (dkeys scores))"
    unfolding distinct_map [of _ "dkeys scores"] by blast
  moreover have "map fst (map ?f scores) = map (\<lambda>p. uid (the (U p))) (dkeys scores)" by (auto simp: case_prod_beta')
  ultimately have 2: "distinct (map fst (map ?f scores))" by (simp only:)
  have 3: "set (map ?f scores) = {(uid x, s) |x s. x \<in> S \<and> sc x = Some s}"
  proof (intro set_eqI iffI)
    fix z assume "z \<in> set (map ?f scores)"
    then obtain p s where z: "(p, s) \<in> set scores" "z = (uid (the (U p)), s)" by auto
    with item [OF z(1)] S show "z \<in> {(uid x, s) |x s. x \<in> S \<and> sc x = Some s}" by (force intro: ranI)
  next
    fix z assume "z \<in> {(uid x, s) |x s. x \<in> S \<and> sc x = Some s}"
    then obtain x s where z: "z = (uid x, s)" "x \<in> S" "sc x = Some s" by auto
    then obtain p where p: "U p = Some x" using S by (auto simp: ran_def)
    with sc z(3) have "map_of scores p = Some s" by (simp add: scores_rel_def)
    then have "(p, s) \<in> set scores" by (rule map_of_SomeD)
    with p z(1) show "z \<in> set (map ?f scores)" by force
  qed
  from 1 2 3 show ?thesis by blast
qed

lemma sort_items:
  assumes "distinct (map fst (items :: (string \<times> real) list))"
  shows "sort_key (\<lambda>(u, s). (- s, u)) items =
    map (\<lambda>(s, u). (u, - s)) (sorted_list_of_set ((\<lambda>(u, s). (- s, u)) ` set items))"
proof -
  let ?k = "\<lambda>(u, s). (- s :: real, u :: string)" and ?r = "\<lambda>(s, u). (u :: string, - s :: real)"
  have eq: "map snd (map ?k items) = map fst items" by (simp add: case_prod_beta' comp_def)
  have "distinct (map snd (map ?k items))" unfolding eq by (rule assms)
  then have "distinct (map ?k items)" unfolding distinct_map by blast
  then have k: "map ?k (sort_key ?k items) = sorted_list_of_set (?k ` set items)" by (rule sort_key_distinct)
  have "map ?r (map ?k xs) = xs" for xs by (induction xs) auto
  from this [of "sort_key ?k items"] show ?thesis unfolding k by simp
qed

lemma rank_index_spec:
  assumes "rep kk bb idx S"
  shows "rank_index ar idx q limit (allowed_positions idx ids) = Inr (spec_rank ar kk bb S q limit (map_option set ids))"
proof -
  from assms obtain U where rel: "bm25_rel idx U" and S: "ran U = S" and k: "k1 idx = kk" "b_param idx = bb"
    by (auto simp: rep_def)
  have fin: "finite S" using bm25_relD(1) [OF rel] S by (auto intro: finite_ran)
  have n: "n_units idx = int (card S)" using bm25_relD(10) [OF rel] rel_card [OF rel] S by simp
  show ?thesis
  proof (cases "S = {} \<or> tokenize q = []")
    case True
    then show ?thesis by (auto simp: rank_index_def spec_rank_def n fin)
  next
    case False
    then have ne: "n_units idx \<noteq> 0" "tokenize q \<noteq> []" using fin n by auto
    define avgdl where "avgdl = avg_len ar (\<Sum>y\<in>S. int (length (toks y))) (int (card S))"
    have avg: "avg_len ar (total_len idx) (n_units idx) = avgdl"
      using rel_total [OF rel] S n by (simp add: avgdl_def)
    let ?terms = "set_order ar (tokenize q)"
    have "scores_rel U (\<lambda>x. None) []" by (simp add: scores_rel_def)
    from score_terms_ok [OF rel S avgdl_def this, of ids ?terms, folded spec_score_def, unfolded k]
    obtain scores where
      sc: "res_fold (score_term ar idx (allowed_positions idx ids) avgdl) ?terms [] = Inr scores"
      "scores_rel U (spec_score ar kk bb S (map_option set ids) ?terms) scores"
      unfolding spec_score_def by blast
    from scored_items [OF rel S sc(2)] obtain items where
      it: "res_mapM (\<lambda>(pos, s). res_bind (dlookup (unit_id_by_pos idx) pos) (\<lambda>u. Inr (u, s))) scores = Inr items"
      "distinct (map fst items)"
      "set items = {(uid x, s) |x s. x \<in> S \<and> spec_score ar kk bb S (map_option set ids) ?terms x = Some s}" by blast
    have "(\<lambda>(u, s). (- s, u)) ` set items =
        {(- s, uid x) |x s. x \<in> S \<and> spec_score ar kk bb S (map_option set ids) ?terms x = Some s}"
      unfolding it(3) by force
    with sort_items [OF it(2)] have ranked: "sort_key (\<lambda>(u, s). (- s, u)) items =
        map (\<lambda>(s, u). (u, - s)) (sorted_list_of_set
          {(- s, uid x) |x s. x \<in> S \<and> spec_score ar kk bb S (map_option set ids) ?terms x = Some s})" by simp
    have "\<not> (n_units idx = 0 \<or> tokenize q = [])" using ne by simp
    then show ?thesis
      unfolding rank_index_def spec_rank_def Let_def avg sc(1) it(1) res_bind_simps ranked
      using False by simp
  qed
qed

section \<open>Properties\<close>

text \<open>
  C9. Refinement of the incremental index: every sequence of \<open>add_unit\<close>, \<open>remove_unit\<close>,
  \<open>remove_group\<close> and \<open>replace_group\<close> runs without a \<open>KeyError\<close> from the empty index, and the
  result represents exactly the set of units that the operations describe: postings, document
  frequencies, lengths, both id maps, both group maps and the corpus totals included.
\<close>

theorem index_operations_refine:
  "\<exists>idx. res_fold run_op ops (empty_bm25 ar kk bb) = Inr idx
     \<and> rep (rnd ar kk) (rnd ar bb) idx (fold spec_op ops {})"
  by (rule res_fold_rep [of ops "rep (rnd ar kk) (rnd ar bb)", OF _ rep_empty]) (rule rep_run_op)

text \<open>
  C12. An index brought to its state by any edits ranks exactly as a fresh bulk build over the
  final units, ids and scores included, for every query, limit and allowlist of ids, and whatever
  the rounding of floats and the iteration order of sets of terms are.
\<close>

theorem incremental_ranks_like_bulk:
  assumes "set us = fold spec_op ops {}" and "distinct (map uid us)"
  shows "\<exists>i j. res_fold run_op ops (empty_bm25 ar kk bb) = Inr i
     \<and> from_token_lists ar (map uid us) (map toks us) (Some (map grp us)) kk bb = Inr j
     \<and> (\<forall>q limit ids. rank_index ar i q limit (allowed_positions i ids) = rank_index ar j q limit (allowed_positions j ids))"
proof -
  obtain i where i: "res_fold run_op ops (empty_bm25 ar kk bb) = Inr i"
    "rep (rnd ar kk) (rnd ar bb) i (fold spec_op ops {})"
    using res_fold_rep [of ops "rep (rnd ar kk) (rnd ar bb)", OF _ rep_empty] rep_run_op by blast
  obtain j where j: "from_token_lists ar (map uid us) (map toks us) (Some (map grp us)) kk bb = Inr j"
    "rep (rnd ar kk) (rnd ar bb) j (set us)"
    using rep_from_token_lists [OF assms(2)] by blast
  show ?thesis
    using i j rank_index_spec [OF i(2), of ar] rank_index_spec [OF j(2), of ar] by (simp add: assms(1))
qed

theorem incremental_ranks_like_bulk_witness:
  "\<exists>i j. res_fold run_op [AddUnit ''a'' [''x'', ''y''] None, AddUnit ''b'' [''x''] (Some ''d''), ReplaceGroup ''d'' [(''c'', [''x'', ''x''])]]
        (empty_bm25 exact_arith BM25_K1 BM25_B) = Inr i
     \<and> from_token_lists exact_arith (map uid [(''c'', [''x'', ''x''], ''d''), (''a'', [''x'', ''y''], ''a'')])
          (map toks [(''c'', [''x'', ''x''], ''d''), (''a'', [''x'', ''y''], ''a'')])
          (Some (map grp [(''c'', [''x'', ''x''], ''d''), (''a'', [''x'', ''y''], ''a'')])) BM25_K1 BM25_B = Inr j
     \<and> (\<forall>q limit ids. rank_index exact_arith i q limit (allowed_positions i ids) = rank_index exact_arith j q limit (allowed_positions j ids))"
proof (rule incremental_ranks_like_bulk)
  show "set [(''c'', [''x'', ''x''], ''d''), (''a'', [''x'', ''y''], ''a'')] =
      fold spec_op [AddUnit ''a'' [''x'', ''y''] None, AddUnit ''b'' [''x''] (Some ''d''), ReplaceGroup ''d'' [(''c'', [''x'', ''x''])]] {}"
    by (auto simp: spec_add_def spec_remove_def spec_replace_def spec_remove_group_def)
qed simp

text \<open>
  C10. Ranking computes the BM25 formula on the units the index holds: the returned list is the
  set of positively scored, allowed units by falling score and rising id, cut at the limit, and
  the query never raises.
\<close>

theorem rank_computes_bm25:
  assumes "rep kk bb idx S"
  shows "rank_index ar idx q limit (allowed_positions idx ids) =
    Inr (spec_rank ar kk bb S q limit (map_option set ids))"
  using assms by (rule rank_index_spec)

theorem rank_computes_bm25_witness:
  "\<exists>idx. from_token_lists exact_arith [''a'', ''b''] [[''x'', ''y''], [''x'']] (Some [''d'', ''d'']) BM25_K1 BM25_B = Inr idx
     \<and> rank_index exact_arith idx ''x y'' (Some 5) (allowed_positions idx None) =
        Inr (spec_rank exact_arith BM25_K1 BM25_B {(''a'', [''x'', ''y''], ''d''), (''b'', [''x''], ''d'')} ''x y'' (Some 5) None)"
proof -
  obtain idx where idx: "from_token_lists exact_arith [''a'', ''b''] [[''x'', ''y''], [''x'']] (Some [''d'', ''d'']) BM25_K1 BM25_B = Inr idx"
    "rep BM25_K1 BM25_B idx {(''a'', [''x'', ''y''], ''d''), (''b'', [''x''], ''d'')}"
    using rep_from_token_lists [of "[(''a'', [''x'', ''y''], ''d''), (''b'', [''x''], ''d'')]" exact_arith BM25_K1 BM25_B]
    by (auto simp: exact_arith_def)
  from rank_computes_bm25 [OF idx(2), of exact_arith "''x y''" "Some 5" None] idx(1) show ?thesis by simp
qed

end
