(* ===== verification/RankFusion.thy ===== *)
theory RankFusion
  imports Bm25
begin

text \<open>
  Reciprocal rank fusion and the builders of the lexical corpus (\<open>engine/_lexical.py\<close>). The fused
  list is shown to be the RRF formula in sorted order for any rounding, and in exact arithmetic to
  respect agreement between the rankers; the corpus built from stored tokens is shown to give the
  same index as the one rebuilt from stored text.
\<close>

section \<open>Definitions\<close>

fun rrf_ranking ::
    "arith \<Rightarrow> int \<Rightarrow> real \<Rightarrow> nat \<Rightarrow> string list \<Rightarrow> string list \<Rightarrow> (string, real) dict \<Rightarrow> (string, real) dict res" where
  "rrf_ranking ar c weight position seen [] fused = Inr fused"
| "rrf_ranking ar c weight position seen (unit_id # ids) fused =
     (if unit_id \<in> set seen then rrf_ranking ar c weight (position + 1) seen ids fused
      else let rank = int position + 1
           in if c + rank = 0 then Inl ZeroDivisionError
              else rrf_ranking ar c weight (position + 1) (unit_id # seen) ids
                     (AList.update unit_id (fadd ar (dget fused unit_id 0) (fdiv ar weight (fl ar (c + rank)))) fused))"

definition rrf_weights :: "arith \<Rightarrow> 'a list \<Rightarrow> real list option \<Rightarrow> real list" where
  "rrf_weights ar rankings weights = (case weights of
       None \<Rightarrow> replicate (length rankings) 1
     | Some ws \<Rightarrow> map (rnd ar) ws)"

definition reciprocal_rank_fusion ::
    "arith \<Rightarrow> string list list \<Rightarrow> int \<Rightarrow> real list option \<Rightarrow> (string \<times> real) list res" where
  "reciprocal_rank_fusion ar rankings c weights =
     (if (case weights of None \<Rightarrow> False | Some ws \<Rightarrow> length ws \<noteq> length rankings)
      then Inl (ValueError ''weights must align with rankings'')
      else res_bind
        (res_fold (\<lambda>(weight, ranking). rrf_ranking ar c weight 0 [] ranking)
          (zip (rrf_weights ar rankings weights) rankings) [])
        (\<lambda>fused. Inr (sort_key (\<lambda>(u, s). (- s, u)) fused)))"

definition fuse_unit_rankings :: "arith \<Rightarrow> string list \<Rightarrow> string list \<Rightarrow> int \<Rightarrow> string list res" where
  "fuse_unit_rankings ar vector_unit_ids lexical_unit_ids c =
     res_bind (reciprocal_rank_fusion ar [vector_unit_ids, lexical_unit_ids] c None)
       (\<lambda>fused. Inr (map fst fused))"

type_synonym 'a corpus = "string list \<times> 'a list \<times> string list"

text \<open>The loop over the chunks of a document, which both corpus builders run.\<close>

definition corpus_append :: "string \<Rightarrow> string list \<Rightarrow> 'a list \<Rightarrow> 'a corpus \<Rightarrow> 'a corpus" where
  "corpus_append document_id ids pieces acc = (case acc of (a, b, g) \<Rightarrow>
     (a @ map fst (zip ids pieces), b @ map snd (zip ids pieces), g @ map (\<lambda>_. document_id) (zip ids pieces)))"

definition build_chunk_texts ::
    "(string, string) dict \<Rightarrow> (string, string list) dict \<Rightarrow> (string \<Rightarrow> int \<Rightarrow> string list res) \<Rightarrow> int
      \<Rightarrow> string corpus res" where
  "build_chunk_texts document_texts document_chunk_ids chunker chunk_character_limit =
     res_fold (\<lambda>(document_id, ids) acc.
       (case map_of document_texts document_id of
          None \<Rightarrow> Inr acc
        | Some text \<Rightarrow>
            res_bind (chunker text chunk_character_limit) (\<lambda>pieces. Inr (corpus_append document_id ids pieces acc))))
       document_chunk_ids ([], [], [])"

definition build_chunk_token_lists ::
    "(string, string list list) dict \<Rightarrow> (string, string list) dict \<Rightarrow> string list corpus" where
  "build_chunk_token_lists document_tokens document_chunk_ids =
     fold (\<lambda>(document_id, ids) acc.
       (case map_of document_tokens document_id of
          None \<Rightarrow> acc
        | Some chunks \<Rightarrow> (if chunks = [] then acc else corpus_append document_id ids chunks acc)))
       document_chunk_ids ([], [], [])"

text \<open>The formula: rank of the first occurrence, and the sum over the rankers that returned the id.\<close>

fun first_rank :: "string list \<Rightarrow> string \<Rightarrow> nat option" where
  "first_rank [] x = None"
| "first_rank (y # ys) x = (if x = y then Some 1 else map_option Suc (first_rank ys x))"

definition rrf_term :: "arith \<Rightarrow> int \<Rightarrow> string \<Rightarrow> real \<times> string list \<Rightarrow> real option \<Rightarrow> real option" where
  "rrf_term ar c x wr acc = (case wr of (w, r) \<Rightarrow>
     (case first_rank r x of
        None \<Rightarrow> acc
      | Some k \<Rightarrow> Some (fadd ar (case acc of None \<Rightarrow> 0 | Some s \<Rightarrow> s) (fdiv ar w (fl ar (c + int k))))))"

definition rrf_score :: "arith \<Rightarrow> int \<Rightarrow> (real \<times> string list) list \<Rightarrow> string \<Rightarrow> real option" where
  "rrf_score ar c wrs x = fold (rrf_term ar c x) wrs None"

definition rrf_spec :: "arith \<Rightarrow> int \<Rightarrow> (real \<times> string list) list \<Rightarrow> (string \<times> real) list" where
  "rrf_spec ar c wrs = map (\<lambda>(s, u). (u, - s))
     (sorted_list_of_set {(- s, x) |x s. rrf_score ar c wrs x = Some s})"

definition before :: "'a list \<Rightarrow> 'a \<Rightarrow> 'a \<Rightarrow> bool" where
  "before xs x y = (\<exists>i < length xs. \<exists>j < length xs. i < j \<and> xs ! i = x \<and> xs ! j = y)"

definition ahead :: "string list \<Rightarrow> string \<Rightarrow> string \<Rightarrow> bool" where
  "ahead r x y = (case first_rank r x of
       None \<Rightarrow> False
     | Some i \<Rightarrow> (case first_rank r y of None \<Rightarrow> True | Some j \<Rightarrow> i < j))"

section \<open>The loop computes the formula\<close>

lemma rrf_ranking_ok:
  assumes "c \<ge> 0" and "dict_ok fused"
  shows "\<exists>fused'. rrf_ranking ar c w pos seen r fused = Inr fused' \<and> dict_ok fused'
    \<and> (\<forall>x. map_of fused' x = (if x \<in> set seen then map_of fused x
         else case first_rank r x of
             None \<Rightarrow> map_of fused x
           | Some k \<Rightarrow> Some (fadd ar (case map_of fused x of None \<Rightarrow> 0 | Some s \<Rightarrow> s)
               (fdiv ar w (fl ar (c + int (pos + k)))))))"
  using assms(2)
proof (induction r arbitrary: pos seen fused)
  case (Cons u r)
  show ?case
  proof (cases "u \<in> set seen")
    case True
    from Cons.IH [OF Cons.prems, of "pos + 1" seen] obtain f where
      f: "rrf_ranking ar c w (pos + 1) seen r fused = Inr f" "dict_ok f"
      "\<And>x. map_of f x = (if x \<in> set seen then map_of fused x
         else case first_rank r x of None \<Rightarrow> map_of fused x
           | Some k \<Rightarrow> Some (fadd ar (case map_of fused x of None \<Rightarrow> 0 | Some s \<Rightarrow> s) (fdiv ar w (fl ar (c + int (pos + 1 + k))))))"
      by blast
    have "map_of f x = (if x \<in> set seen then map_of fused x
         else case first_rank (u # r) x of None \<Rightarrow> map_of fused x
           | Some k \<Rightarrow> Some (fadd ar (case map_of fused x of None \<Rightarrow> 0 | Some s \<Rightarrow> s) (fdiv ar w (fl ar (c + int (pos + k))))))" for x
      using f(3) [of x] True by (cases "first_rank r x") auto
    with f(1, 2) True show ?thesis by simp
  next
    case False
    let ?s = "fadd ar (dget fused u 0) (fdiv ar w (fl ar (c + (int pos + 1))))"
    have ok: "dict_ok (AList.update u ?s fused)" using Cons.prems by (rule dict_ok_update)
    from Cons.IH [OF ok, of "pos + 1" "u # seen"] obtain f where
      f: "rrf_ranking ar c w (pos + 1) (u # seen) r (AList.update u ?s fused) = Inr f" "dict_ok f"
      "\<And>x. map_of f x = (if x \<in> set (u # seen) then map_of (AList.update u ?s fused) x
         else case first_rank r x of None \<Rightarrow> map_of (AList.update u ?s fused) x
           | Some k \<Rightarrow> Some (fadd ar (case map_of (AList.update u ?s fused) x of None \<Rightarrow> 0 | Some s \<Rightarrow> s) (fdiv ar w (fl ar (c + int (pos + 1 + k))))))"
      by blast
    have "map_of f x = (if x \<in> set seen then map_of fused x
         else case first_rank (u # r) x of None \<Rightarrow> map_of fused x
           | Some k \<Rightarrow> Some (fadd ar (case map_of fused x of None \<Rightarrow> 0 | Some s \<Rightarrow> s) (fdiv ar w (fl ar (c + int (pos + k))))))" for x
      using f(3) [of x] False by (cases "x = u"; cases "first_rank r x") (auto simp: dget_def add.commute)
    moreover have "c + (int pos + 1) \<noteq> 0" using assms(1) by linarith
    ultimately show ?thesis using f(1, 2) False by simp
  qed
qed simp

lemma first_rank_pos: "first_rank r x = Some k \<Longrightarrow> 1 \<le> k"
  by (cases r) (auto split: if_splits)

lemma first_rank_None: "first_rank r x = None \<longleftrightarrow> x \<notin> set r"
  by (induction r) auto

lemma rrf_fold_ok:
  assumes "c \<ge> 0" and "dict_ok fused"
  shows "\<exists>fused'. res_fold (\<lambda>(w, r). rrf_ranking ar c w 0 [] r) wrs fused = Inr fused' \<and> dict_ok fused'
    \<and> (\<forall>x. map_of fused' x = fold (rrf_term ar c x) wrs (map_of fused x))"
  using assms(2)
proof (induction wrs arbitrary: fused)
  case (Cons wr wrs)
  obtain w r where wr: "wr = (w, r)" by (cases wr)
  from rrf_ranking_ok [OF assms(1) Cons.prems, of ar w 0 "[]" r, unfolded add_0] obtain f where
    f: "rrf_ranking ar c w 0 [] r fused = Inr f" "dict_ok f" "\<And>x. map_of f x = rrf_term ar c x (w, r) (map_of fused x)"
    by (auto simp: rrf_term_def)
  from Cons.IH [OF f(2)] f(1, 3) show ?case by (simp add: wr)
qed simp

lemma rrf_loop_spec:
  assumes "c \<ge> 0"
  shows "\<exists>fused. res_fold (\<lambda>(w, r). rrf_ranking ar c w 0 [] r) wrs [] = Inr fused
    \<and> sort_key (\<lambda>(u, s). (- s, u)) fused = rrf_spec ar c wrs"
proof -
  from rrf_fold_ok [OF assms, of "[]" ar wrs] obtain f where
    f: "res_fold (\<lambda>(w, r). rrf_ranking ar c w 0 [] r) wrs [] = Inr f" "dict_ok f"
    "\<And>x. map_of f x = rrf_score ar c wrs x" by (auto simp: rrf_score_def)
  have mem: "(x, s) \<in> set f \<longleftrightarrow> rrf_score ar c wrs x = Some s" for x s
    unfolding f(3) [symmetric] using f(2) by (metis map_of_SomeD map_of_is_SomeI)
  have "(\<lambda>(u, s). (- s, u)) ` set f = {(- s, x) |x s. rrf_score ar c wrs x = Some s}"
    unfolding mem [symmetric] by force
  with f(1) sort_items [OF f(2)] show ?thesis by (simp add: rrf_spec_def)
qed

lemma reciprocal_rank_fusion_spec:
  assumes "c \<ge> 0" and "\<And>ws. weights = Some ws \<Longrightarrow> length ws = length rankings"
  shows "reciprocal_rank_fusion ar rankings c weights =
    Inr (rrf_spec ar c (zip (rrf_weights ar rankings weights) rankings))"
  using rrf_loop_spec [OF assms(1), of ar "zip (rrf_weights ar rankings weights) rankings"] assms(2)
  by (auto simp: reciprocal_rank_fusion_def split: option.splits)

section \<open>Two rankers in exact arithmetic\<close>

lemma before_sorted:
  assumes "finite A" and "a \<in> A" and "b \<in> A" and "a < (b :: 'a :: linorder)"
  shows "before (sorted_list_of_set A) a b"
proof -
  let ?xs = "sorted_list_of_set A"
  obtain i j where ij: "i < length ?xs" "?xs ! i = a" "j < length ?xs" "?xs ! j = b"
    using assms(1-3) by (metis in_set_conv_nth set_sorted_list_of_set)
  have "i < j"
  proof (rule ccontr)
    assume "\<not> i < j"
    then have "?xs ! j \<le> ?xs ! i" using ij by (intro sorted_nth_mono) auto
    with ij assms(4) show False by simp
  qed
  with ij show ?thesis unfolding before_def by blast
qed

lemma before_map: "before xs x y \<Longrightarrow> before (map f xs) (f x) (f y)"
  unfolding before_def by (metis length_map nth_map)

lemma rrf_score_finite: "finite {(- s, x) |x s. rrf_score ar c wrs x = Some s}"
proof -
  have "x \<in> (\<Union>(w, r) \<in> set wrs. set r)" if "rrf_score ar c wrs x = Some s" for x s
  proof (rule ccontr)
    assume "x \<notin> (\<Union>(w, r) \<in> set wrs. set r)"
    then have "fold (rrf_term ar c x) wrs acc = acc" for acc
      by (induction wrs arbitrary: acc) (auto simp: rrf_term_def first_rank_None [THEN iffD2])
    with that show False by (simp add: rrf_score_def)
  qed
  then have "{(- s, x) |x s. rrf_score ar c wrs x = Some s} \<subseteq>
      (\<lambda>x. (- the (rrf_score ar c wrs x), x)) ` (\<Union>(w, r) \<in> set wrs. set r)" by force
  then show ?thesis by (rule finite_subset) auto
qed

text \<open>
  Arithmetic that rounds as binary64 does: between the given bounds, far inside the normal range, the
  relative error of a rounded result is at most half a unit in the last place.
\<close>

definition float_like :: "arith \<Rightarrow> bool" where
  "float_like ar \<longleftrightarrow> (\<forall>x. 1 / 2 ^ 60 \<le> x \<longrightarrow> x \<le> 2 ^ 60 \<longrightarrow> \<bar>rnd ar x - x\<bar> \<le> x / 2 ^ 53)"

lemma exact_float_like: "float_like exact_arith"
proof -
  have "0 \<le> x / 2 ^ 53" if "1 / 2 ^ 60 \<le> x" for x :: real
    using order_trans [OF _ that, of 0] by simp
  then show ?thesis by (simp add: float_like_def exact_arith_def)
qed

definition near :: "real \<Rightarrow> real \<Rightarrow> real \<Rightarrow> bool" where
  "near e x' x \<longleftrightarrow> (1 - e) * x \<le> x' \<and> x' \<le> (1 + e) * x"

abbreviation ulp :: real where
  "ulp \<equiv> 1 / 2 ^ 53"

lemma near_refl: "near 0 x x"
  by (simp add: near_def)

lemma near_rnd:
  assumes "float_like ar" and "near e x' x" and "0 \<le> e" "e \<le> 1 / 2" and "1 / 2 ^ 50 \<le> x" "x \<le> 2 ^ 50"
  shows "near (e + 2 * ulp) (rnd ar x') x"
proof -
  have x: "0 < x" using assms(5) by (rule less_le_trans [rotated]) simp
  have "x / 2 \<le> (1 - e) * x" "(1 + e) * x \<le> 2 * x" using assms(3,4) x by (simp_all add: field_simps)
  moreover have "(1 - e) * x \<le> x'" "x' \<le> (1 + e) * x" using assms(2) by (simp_all add: near_def)
  ultimately have x': "x / 2 \<le> x'" "x' \<le> 2 * x" using x by linarith+
  have "1 / 2 ^ 60 \<le> x'" "x' \<le> 2 ^ 60" using x' assms(5,6) by simp_all
  then have "\<bar>rnd ar x' - x'\<bar> \<le> x' / 2 ^ 53"
    using assms(1) by (simp add: float_like_def)
  moreover have "x' / 2 ^ 53 \<le> 2 * ulp * x" using x'(2) by (simp add: field_simps)
  moreover have "(1 - e) * x - 2 * ulp * x = (1 - (e + 2 * ulp)) * x" "(1 + e) * x + 2 * ulp * x = (1 + (e + 2 * ulp)) * x"
    by (simp_all add: algebra_simps)
  ultimately show ?thesis using assms(2) unfolding near_def by linarith
qed

lemma near_add: "near e x' x \<Longrightarrow> near e y' y \<Longrightarrow> near e (x' + y') (x + y)"
  by (simp add: near_def algebra_simps)

lemma near_weaken: "near e x' x \<Longrightarrow> e \<le> e' \<Longrightarrow> 0 \<le> x \<Longrightarrow> near e' x' x"
  unfolding near_def using mult_right_mono [of "1 - e'" "1 - e" x] mult_right_mono [of "1 + e" "1 + e'" x] by linarith

lemma near_inverse:
  assumes "near e x' x" and "0 \<le> e" "e \<le> 1 / 2" and "0 < x"
  shows "near (2 * e) (1 / x') (1 / x)"
proof -
  have p: "0 < (1 - e) * x" using assms by simp
  then have x': "0 < x'" using assms(1) by (simp add: near_def)
  have "(1 - 2 * e) * x' \<le> (1 - 2 * e) * ((1 + e) * x)"
    using assms(1,3) by (intro mult_left_mono) (auto simp: near_def)
  also have "\<dots> = x - (e + 2 * e * e) * x" by (simp add: algebra_simps)
  also have "\<dots> \<le> x" using assms(2,4) by simp
  finally have lo: "(1 - 2 * e) * x' \<le> x" .
  have "x \<le> x + (1 - 2 * e) * (e * x)" using assms by simp
  also have "\<dots> = (1 + 2 * e) * ((1 - e) * x)" by (simp add: algebra_simps)
  also have "\<dots> \<le> (1 + 2 * e) * x'" using assms(1,2) by (intro mult_left_mono) (auto simp: near_def)
  finally have "x \<le> (1 + 2 * e) * x'" .
  with lo show ?thesis using x' assms(4) by (simp add: near_def field_simps)
qed

definition rrf_share :: "int \<Rightarrow> string list \<Rightarrow> string \<Rightarrow> real" where
  "rrf_share c r x = (case first_rank r x of None \<Rightarrow> 0 | Some k \<Rightarrow> 1 / of_int (c + int k))"

lemma first_rank_le: "first_rank r x = Some k \<Longrightarrow> k \<le> length r"
  by (induction r arbitrary: k) (auto split: if_splits)

lemma share_range:
  assumes "0 \<le> c" and "c + int (length r) \<le> 2 ^ 40" and "first_rank r x = Some k"
  shows "1 \<le> real_of_int (c + int k)" "real_of_int (c + int k) \<le> 2 ^ 40"
proof -
  have "1 \<le> k" "k \<le> length r" using first_rank_pos [OF assms(3)] first_rank_le [OF assms(3)] by simp_all
  then have "1 \<le> c + int k" "c + int k \<le> 2 ^ 40" using assms(1,2) by simp_all
  then show "1 \<le> real_of_int (c + int k)" "real_of_int (c + int k) \<le> 2 ^ 40"
    by (metis of_int_1_le_iff) (metis \<open>c + int k \<le> 2 ^ 40\<close> of_int_le_iff of_int_numeral of_int_power)
qed

lemma near_share:
  assumes "float_like ar" and "0 \<le> c" and "c + int (length r) \<le> 2 ^ 40" and "first_rank r x = Some k"
  shows "near (6 * ulp) (fdiv ar 1 (fl ar (c + int k))) (rrf_share c r x)"
proof -
  let ?n = "real_of_int (c + int k)"
  note n = share_range [OF assms(2-4)]
  have "1 / (2::real) ^ 50 \<le> 1" "(2::real) ^ 40 \<le> 2 ^ 50" by simp_all
  then have "near (0 + 2 * ulp) (rnd ar ?n) ?n" using n by (intro near_rnd [OF assms(1) near_refl]) linarith+
  then have i: "near (2 * (2 * ulp)) (1 / rnd ar ?n) (1 / ?n)" using n by (intro near_inverse) simp_all
  have "1 / 2 ^ 40 \<le> 1 / ?n" using n by (intro divide_left_mono) simp_all
  moreover have "1 / (2::real) ^ 50 \<le> 1 / 2 ^ 40" by simp
  ultimately have "1 / 2 ^ 50 \<le> 1 / ?n" by linarith
  moreover have "1 / ?n \<le> 1" using n by simp
  ultimately have "near (2 * (2 * ulp) + 2 * ulp) (rnd ar (1 / rnd ar ?n)) (1 / ?n)"
    by (intro near_rnd [OF assms(1) i]) simp_all
  then show ?thesis by (simp add: fdiv_def fl_def rrf_share_def assms(4))
qed

lemma share_bounds:
  assumes "0 \<le> c" and "c + int (length r) \<le> 2 ^ 40"
  shows "rrf_share c r x = 0 \<or> 1 / 2 ^ 40 \<le> rrf_share c r x \<and> rrf_share c r x \<le> 1"
proof (cases "first_rank r x")
  case (Some k)
  note n = share_range [OF assms Some]
  have "1 / 2 ^ 40 \<le> 1 / real_of_int (c + int k)" using n by (intro divide_left_mono) simp_all
  then show ?thesis using n by (simp add: rrf_share_def Some)
qed (simp add: rrf_share_def)

lemma near_score:
  assumes ar: "float_like ar" and c: "0 \<le> c" "c + int (length v) \<le> 2 ^ 40" "c + int (length l) \<le> 2 ^ 40"
    and found: "first_rank v x \<noteq> None \<or> first_rank l x \<noteq> None"
  shows "\<exists>s. rrf_score ar c [(1, v), (1, l)] x = Some s \<and> near (10 * ulp) s (rrf_share c v x + rrf_share c l x)"
proof -
  have range: "1 / 2 ^ 50 \<le> t \<and> t \<le> 2 ^ 50" if "1 / 2 ^ 40 \<le> t" "t \<le> 2" for t :: real
  proof -
    have "1 / (2::real) ^ 50 \<le> 1 / 2 ^ 40" "(2::real) \<le> 2 ^ 50" by simp_all
    with that show ?thesis by linarith
  qed
  have round: "near (e + 2 * ulp) (rnd ar t') t" if "near e t' t" "0 \<le> e" "e \<le> 1 / 2" "1 / 2 ^ 40 \<le> t" "t \<le> 2" for e t' t
    using near_rnd [OF ar that(1-3)] range [OF that(4,5)] by blast
  have once: "near (8 * ulp) (fadd ar 0 (fdiv ar 1 (fl ar (c + int k)))) (rrf_share c r x)"
    if "first_rank r x = Some k" "c + int (length r) \<le> 2 ^ 40" for r k
  proof -
    have "rrf_share c r x \<noteq> 0" using share_range [OF c(1) that(2,1)] by (simp add: rrf_share_def that(1))
    then have "1 / 2 ^ 40 \<le> rrf_share c r x" "rrf_share c r x \<le> 2" using share_bounds [OF c(1) that(2), of x] by auto
    then have "near (6 * ulp + 2 * ulp) (rnd ar (fdiv ar 1 (fl ar (c + int k)))) (rrf_share c r x)"
      by (intro round [OF near_share [OF ar c(1) that(2,1)]]) simp_all
    then show ?thesis by (simp add: fadd_def)
  qed
  show ?thesis
  proof (cases "first_rank v x")
    case None
    with found obtain k where k: "first_rank l x = Some k" by auto
    then have "rrf_score ar c [(1, v), (1, l)] x = Some (fadd ar 0 (fdiv ar 1 (fl ar (c + int k))))"
      by (simp add: rrf_score_def rrf_term_def None)
    moreover have "near (10 * ulp) (fadd ar 0 (fdiv ar 1 (fl ar (c + int k)))) (rrf_share c v x + rrf_share c l x)"
      using near_weaken [OF once [OF k c(3)], of "10 * ulp"] share_bounds [OF c(1,3), of x] by (auto simp: rrf_share_def None)
    ultimately show ?thesis by blast
  next
    case (Some k)
    note a = once [OF Some c(2)]
    have pos: "1 / 2 ^ 40 \<le> rrf_share c v x" "rrf_share c v x \<le> 1"
      using share_bounds [OF c(1,2), of x] share_range [OF c(1,2) Some] by (auto simp: rrf_share_def Some)
    show ?thesis
    proof (cases "first_rank l x")
      case None
      then show ?thesis
        using near_weaken [OF a, of "10 * ulp"] order_trans [OF _ pos(1), of 0]
        by (simp add: rrf_score_def rrf_term_def Some) (simp add: rrf_share_def)
    next
      case l: (Some j)
      let ?b = "fdiv ar 1 (fl ar (c + int j))"
      have b: "1 / 2 ^ 40 \<le> rrf_share c l x" "rrf_share c l x \<le> 1"
        using share_bounds [OF c(1,3), of x] share_range [OF c(1,3) l] by (auto simp: rrf_share_def l)
      have "0 \<le> rrf_share c l x" using b(1) by (rule order_trans [rotated]) simp
      then have "near (8 * ulp) ?b (rrf_share c l x)" by (intro near_weaken [OF near_share [OF ar c(1,3) l]]) simp_all
      from near_add [OF a this]
      have "near (8 * ulp + 2 * ulp) (rnd ar (fadd ar 0 (fdiv ar 1 (fl ar (c + int k))) + ?b)) (rrf_share c v x + rrf_share c l x)"
        using pos b by (intro round) simp_all
      then show ?thesis by (simp add: rrf_score_def rrf_term_def Some l fadd_def)
    qed
  qed
qed

lemma share_gap:
  assumes "0 \<le> c" and "c + int (length r) \<le> 2 ^ 40" and "ahead r x y"
  shows "(1 + 1 / 2 ^ 40) * rrf_share c r y \<le> rrf_share c r x" "0 < rrf_share c r x"
proof -
  from assms(3) obtain i where i: "first_rank r x = Some i" by (auto simp: ahead_def split: option.splits)
  note n = share_range [OF assms(1,2) i]
  show "0 < rrf_share c r x" using n by (simp add: rrf_share_def i)
  show "(1 + 1 / 2 ^ 40) * rrf_share c r y \<le> rrf_share c r x"
  proof (cases "first_rank r y")
    case None
    with n show ?thesis by (simp add: rrf_share_def i)
  next
    case (Some j)
    let ?n = "real_of_int (c + int i)" and ?m = "real_of_int (c + int j)"
    have "i < j" using assms(3) i Some by (simp add: ahead_def)
    then have m: "?n + 1 \<le> ?m" by simp
    have "?n / 2 ^ 40 \<le> 1" using n(2) by simp
    then have "(1 + 1 / 2 ^ 40) * ?n \<le> ?m" using m by (simp add: algebra_simps)
    then have "(1 + 1 / 2 ^ 40) * (1 / ?m) \<le> 1 / ?n" using n(1) m by (simp add: field_simps)
    then show ?thesis by (simp add: rrf_share_def i Some)
  qed
qed

section \<open>Properties\<close>

text \<open>
  C13. Reciprocal rank fusion returns, for any rounding, the ids of all rankings with the sum over
  the rankers of weight / (c + rank of the first occurrence), by falling score and rising id.
\<close>

theorem fusion_is_rrf:
  assumes "c \<ge> 0" and "\<forall>ws. weights = Some ws \<longrightarrow> length ws = length rankings"
  shows "reciprocal_rank_fusion ar rankings c weights =
    Inr (rrf_spec ar c (zip (rrf_weights ar rankings weights) rankings))"
  using assms by (intro reciprocal_rank_fusion_spec) auto

theorem fusion_is_rrf_witness:
  "reciprocal_rank_fusion exact_arith [[''a'', ''b'', ''a''], [''b'']] 60 (Some [2, 1]) =
    Inr (rrf_spec exact_arith 60 (zip (rrf_weights exact_arith [[''a'', ''b'', ''a''], [''b'']] (Some [2, 1])) [[''a'', ''b'', ''a''], [''b'']]))"
  by (rule fusion_is_rrf) simp_all

text \<open>
  C27. Hybrid fusion respects agreement, rounding included: with arithmetic as accurate as binary64
  and rankings of up to about a million million units, a unit that both the vector and the lexical
  ranking place ahead of another one is ahead of it in the fused order.
\<close>

theorem fusion_respects_agreement:
  assumes "float_like ar" and "c \<ge> 0" and "c + int (length v) \<le> 2 ^ 40" and "c + int (length l) \<le> 2 ^ 40"
    and "ahead v x y" and "ahead l x y" and "y \<in> set v \<union> set l"
  shows "\<exists>fused. fuse_unit_rankings ar v l c = Inr fused \<and> before fused x y"
proof -
  let ?wrs = "[(1, v), (1, l)]"
  let ?A = "{(- s, x) |x s. rrf_score ar c ?wrs x = Some s}"
  define tx where "tx = rrf_share c v x + rrf_share c l x"
  define ty where "ty = rrf_share c v y + rrf_share c l y"
  have "first_rank v x \<noteq> None" using assms(5) by (auto simp: ahead_def split: option.splits)
  then obtain sx where sx: "rrf_score ar c ?wrs x = Some sx" "near (10 * ulp) sx tx"
    using near_score [OF assms(1-4), of x] by (auto simp: tx_def)
  have "first_rank v y \<noteq> None \<or> first_rank l y \<noteq> None" using assms(7) by (auto simp: first_rank_None)
  then obtain sy where sy: "rrf_score ar c ?wrs y = Some sy" "near (10 * ulp) sy ty"
    using near_score [OF assms(1-4), of y] by (auto simp: ty_def)
  have gap: "(1 + 1 / 2 ^ 40) * ty \<le> tx" "0 < tx"
    using share_gap [OF assms(2,3,5)] share_gap [OF assms(2,4,6)] by (simp_all add: tx_def ty_def distrib_left)
  have "sy \<le> (1 + 10 * ulp) * ty" using sy(2) by (simp add: near_def)
  also have "\<dots> \<le> (1 + 10 * ulp) * (tx / (1 + 1 / 2 ^ 40))"
    using gap(1) by (intro mult_left_mono) (simp_all add: field_simps)
  also have "\<dots> < (1 - 10 * ulp) * tx" using gap(2) by (simp add: field_simps)
  also have "\<dots> \<le> sx" using sx(2) by (simp add: near_def)
  finally have "before (sorted_list_of_set ?A) (- sx, x) (- sy, y)"
    using sx(1) sy(1) by (intro before_sorted rrf_score_finite) auto
  then have "before (map fst (rrf_spec ar c ?wrs)) x y"
    unfolding rrf_spec_def map_map using before_map [of _ _ _ "fst \<circ> (\<lambda>(s, u). (u, - s))"] by fastforce
  moreover have "fuse_unit_rankings ar v l c = Inr (map fst (rrf_spec ar c ?wrs))"
    using reciprocal_rank_fusion_spec [OF assms(2), of None "[v, l]" ar]
    by (simp add: fuse_unit_rankings_def rrf_weights_def)
  ultimately show ?thesis by blast
qed

theorem fusion_respects_agreement_witness:
  "float_like exact_arith \<and> (\<exists>fused. fuse_unit_rankings exact_arith [''z'', ''b'', ''a''] [''z'', ''a''] 60 = Inr fused \<and> before fused ''z'' ''a'')"
  using fusion_respects_agreement [OF exact_float_like, where v = "[''z'', ''b'', ''a'']" and l = "[''z'', ''a'']" and c = 60 and x = "''z''" and y = "''a''"]
    exact_float_like by (simp add: ahead_def)

text \<open>
  C26. The index rebuilt from the persisted token lists is the index rebuilt from the stored text:
  when the stored tokens are those of the chunks of the stored text, the two corpus builders
  agree on ids, tokens and groups, and the two constructors return the same index.
\<close>

theorem token_store_rebuilds_index:
  assumes "\<And>d. d \<in> set (dkeys chunk_ids) \<Longrightarrow>
      map_of tokens d = map_option (\<lambda>t. map tokenize (pieces t)) (map_of texts d)"
    and "\<And>t. chunker t limit = Inr (pieces t)"
  shows "\<exists>ids ts gs. build_chunk_texts texts chunk_ids chunker limit = Inr (ids, ts, gs)
    \<and> build_chunk_token_lists tokens chunk_ids = (ids, map tokenize ts, gs)
    \<and> init_index ar ids ts (Some gs) kk bb = from_token_lists ar ids (map tokenize ts) (Some gs) kk bb"
proof -
  let ?f = "\<lambda>(d, ids) acc. (case map_of texts d of None \<Rightarrow> Inr acc
      | Some text \<Rightarrow> res_bind (chunker text limit) (\<lambda>ps. Inr (corpus_append d ids ps acc)))"
  let ?g = "\<lambda>(d, ids) acc. (case map_of tokens d of None \<Rightarrow> acc
      | Some cs \<Rightarrow> (if cs = [] then acc else corpus_append d ids cs acc))"
  have "\<exists>ids ts gs. res_fold ?f ds (a, b, c) = Inr (ids, ts, gs) \<and> fold ?g ds (a, map tokenize b, c) = (ids, map tokenize ts, gs)
      \<and> length ids = length ts"
    if "set ds \<subseteq> set chunk_ids" "length a = length b" for ds a b c
    using that
  proof (induction ds arbitrary: a b c)
    case (Cons d ds)
    obtain di ids where d: "d = (di, ids)" by (cases d)
    have tok: "map_of tokens di = map_option (\<lambda>t. map tokenize (pieces t)) (map_of texts di)"
      using Cons.prems d by (intro assms(1)) force
    show ?case
    proof (cases "map_of texts di")
      case None
      with tok Cons show ?thesis by (simp add: d)
    next
      case (Some t)
      have "corpus_append di ids (map tokenize (pieces t)) (a, map tokenize b, c) =
          (case corpus_append di ids (pieces t) (a, b, c) of (x, y, z) \<Rightarrow> (x, map tokenize y, z))"
        by (simp add: corpus_append_def zip_map2 case_prod_beta' comp_def)
      moreover have "corpus_append di ids [] acc = acc" for acc :: "string list corpus"
        by (simp add: corpus_append_def split: prod.split)
      moreover obtain x y z where xyz: "corpus_append di ids (pieces t) (a, b, c) = (x, y, z)" "length x = length y"
        using Cons.prems(2) by (auto simp: corpus_append_def)
      ultimately show ?thesis
        using Some tok Cons by (auto simp: d assms(2))
    qed
  qed simp
  from this [of chunk_ids "[]" "[]" "[]"] show ?thesis
    by (auto simp: build_chunk_texts_def build_chunk_token_lists_def init_index_def from_token_lists_def)
qed

theorem token_store_rebuilds_index_witness:
  "\<exists>ids ts gs. build_chunk_texts [(''d'', ''Ab cd'')] [(''d'', [''d:0'']), (''e'', [''e:0''])] (\<lambda>t l. Inr [t]) 10 = Inr (ids, ts, gs)
    \<and> build_chunk_token_lists [(''d'', [[''ab'', ''cd'']])] [(''d'', [''d:0'']), (''e'', [''e:0''])] = (ids, map tokenize ts, gs)
    \<and> init_index exact_arith ids ts (Some gs) BM25_K1 BM25_B = from_token_lists exact_arith ids (map tokenize ts) (Some gs) BM25_K1 BM25_B"
proof (rule token_store_rebuilds_index [where pieces = "\<lambda>t. [t]"])
  have t: "tokenize ''Ab cd'' = [''ab'', ''cd'']" by code_simp
  fix d :: string
  show "map_of [(''d'', [[''ab'', ''cd'']])] d = map_option (\<lambda>t. map tokenize [t]) (map_of [(''d'', ''Ab cd'')] d)"
    by (simp add: t)
qed simp

end
