(* ===== verification/PyNumber.thy ===== *)
theory PyNumber
  imports Prelude
begin

text \<open>
  Numbers of Python as the filters compare them: \<open>float(text)\<close> with its grammar (surrounding
  white space, sign, digits with single underscores, fraction, exponent, \<open>inf\<close> and \<open>nan\<close>), rounded
  to the nearest binary64 value, ties to even, and the comparison of the results. A finite value
  is a \<open>rat\<close>; the two zeros are one value, since they compare equal. The lemmas show that an
  integer below \<open>2 ^ 53\<close> written in decimal is read back exactly.
\<close>

section \<open>Binary64 values\<close>

datatype pyfloat = Nan | NegInf | Finite rat | PosInf

fun bitlen :: "nat \<Rightarrow> nat" where
  "bitlen n = (if n = 0 then 0 else Suc (bitlen (n div 2)))"

declare bitlen.simps [simp del]

definition pow2 :: "int \<Rightarrow> rat" where
  "pow2 t = (if 0 \<le> t then 2 ^ nat t else 1 / 2 ^ nat (- t))"

definition round_half_even :: "rat \<Rightarrow> int" where
  "round_half_even q =
     (let lo = \<lfloor>q\<rfloor>; frac = q - of_int lo
      in if frac < 1 / 2 then lo
         else if frac > 1 / 2 then lo + 1
         else if even lo then lo else lo + 1)"

text \<open>Exponent of the leading bit of a positive rational.\<close>

definition lead_exp :: "rat \<Rightarrow> int" where
  "lead_exp q =
     (let (n, d) = quotient_of q; k = int (bitlen (nat n)) - int (bitlen (nat d))
      in if pow2 k \<le> q then k else k - 1)"

definition round64 :: "rat \<Rightarrow> pyfloat" where
  "round64 q =
     (if q = 0 then Finite 0
      else let t = max (lead_exp \<bar>q\<bar> - 52) (- 1074);
               r = of_int (round_half_even (\<bar>q\<bar> / pow2 t)) * pow2 t
           in if r \<ge> 2 ^ 1024 then (if q < 0 then NegInf else PosInf)
              else Finite (if q < 0 then - r else r))"

text \<open>Rounding to single precision, as \<open>array('f')\<close> stores a float: ties to even, too large becomes infinite.\<close>

definition round32 :: "pyfloat \<Rightarrow> pyfloat" where
  "round32 x = (case x of
       Finite q \<Rightarrow>
         (if q = 0 then Finite 0
          else let t = max (lead_exp \<bar>q\<bar> - 23) (- 149);
                   r = of_int (round_half_even (\<bar>q\<bar> / pow2 t)) * pow2 t
               in if r \<ge> 2 ^ 128 then (if q < 0 then NegInf else PosInf)
                  else Finite (if q < 0 then - r else r))
     | _ \<Rightarrow> x)"

type_synonym vector = "pyfloat list"

fun float_less :: "pyfloat \<Rightarrow> pyfloat \<Rightarrow> bool" where
  "float_less (Finite a) (Finite b) = (a < b)"
| "float_less NegInf (Finite _) = True"
| "float_less NegInf PosInf = True"
| "float_less (Finite _) PosInf = True"
| "float_less _ _ = False"

fun float_eq :: "pyfloat \<Rightarrow> pyfloat \<Rightarrow> bool" where
  "float_eq Nan _ = False"
| "float_eq _ Nan = False"
| "float_eq a b = (a = b)"

section \<open>Reading a float\<close>

definition c_space :: "char \<Rightarrow> bool" where
  "c_space c = (code c \<in> {9, 10, 11, 12, 13, 32, 133, 160})"

definition float_strip :: "string \<Rightarrow> string" where
  "float_strip s = rev (dropWhile c_space (rev (dropWhile c_space s)))"

text \<open>Underscores are dropped; each of them must stand between two digits.\<close>

fun drop_underscores :: "bool \<Rightarrow> string \<Rightarrow> string option" where
  "drop_underscores after_digit [] = Some []"
| "drop_underscores after_digit (c # cs) =
     (if c = CHR ''_''
      then (if after_digit \<and> cs \<noteq> [] \<and> is_digit (hd cs) then drop_underscores False cs else None)
      else map_option (Cons c) (drop_underscores (is_digit c) cs))"

definition split_sign :: "string \<Rightarrow> bool \<times> string" where
  "split_sign s = (case s of
       [] \<Rightarrow> (False, [])
     | c # cs \<Rightarrow> (if c = CHR ''-'' then (True, cs) else if c = CHR ''+'' then (False, cs) else (False, s)))"

definition parse_exponent :: "string \<Rightarrow> int option" where
  "parse_exponent s = (case s of
       [] \<Rightarrow> Some 0
     | c # cs \<Rightarrow>
         (if c \<in> {CHR ''e'', CHR ''E''}
          then (let (neg, ds) = split_sign cs
                in if ds \<noteq> [] \<and> list_all is_digit ds
                   then Some (if neg then - int (dec_nat ds) else int (dec_nat ds)) else None)
          else None))"

definition pow10 :: "int \<Rightarrow> rat" where
  "pow10 t = (if 0 \<le> t then 10 ^ nat t else 1 / 10 ^ nat (- t))"

definition parse_decimal :: "string \<Rightarrow> rat option" where
  "parse_decimal s =
     (let ip = takeWhile is_digit s; r1 = dropWhile is_digit s;
          (fp, r2) = (if r1 \<noteq> [] \<and> hd r1 = CHR ''.''
                      then (takeWhile is_digit (tl r1), dropWhile is_digit (tl r1)) else ([], r1))
      in if ip = [] \<and> fp = [] then None
         else map_option (\<lambda>e. of_nat (dec_nat (ip @ fp)) * pow10 (e - int (length fp)))
                (parse_exponent r2))"

definition py_float :: "string \<Rightarrow> pyfloat option" where
  "py_float s = (case drop_underscores False (float_strip s) of
       None \<Rightarrow> None
     | Some t \<Rightarrow>
         (let (neg, u) = split_sign t
          in if py_lower u \<in> {''inf'', ''infinity''} then Some (if neg then NegInf else PosInf)
             else if py_lower u = ''nan'' then Some Nan
             else map_option (\<lambda>q. round64 (if neg then - q else q)) (parse_decimal u)))"

section \<open>Conversions between objects\<close>

definition hex_digit :: "nat \<Rightarrow> char" where
  "hex_digit d = (if d < 10 then char_of (48 + d) else char_of (87 + d))"

definition hex2 :: "nat \<Rightarrow> string" where
  "hex2 n = [hex_digit (n div 16), hex_digit (n mod 16)]"

text \<open>\<open>repr\<close> of a str: single quotes unless only they occur, escapes for what is not printable.\<close>

definition repr_char :: "char \<Rightarrow> char \<Rightarrow> string" where
  "repr_char q c =
     (if c = q \<or> code c = 92 then [char_of (92 :: nat), c]
      else if code c = 10 then [char_of (92 :: nat), CHR ''n'']
      else if code c = 13 then [char_of (92 :: nat), CHR ''r'']
      else if code c = 9 then [char_of (92 :: nat), CHR ''t'']
      else if code c < 32 \<or> 127 \<le> code c \<and> code c \<le> 160 \<or> code c = 173
      then [char_of (92 :: nat), CHR ''x''] @ hex2 (code c) else [c])"

definition repr_str :: "string \<Rightarrow> string" where
  "repr_str s = (let q = (if char_of (39 :: nat) \<in> set s \<and> char_of (34 :: nat) \<notin> set s
                          then char_of (34 :: nat) else char_of (39 :: nat))
                 in [q] @ concat (map (repr_char q) s) @ [q])"

fun py_repr :: "pyval \<Rightarrow> string" where
  "py_repr PNone = ''None''"
| "py_repr (PBool b) = (if b then ''True'' else ''False'')"
| "py_repr (PInt i) = int_dec i"
| "py_repr (PFloat r) = r"
| "py_repr (PStr s) = repr_str s"
| "py_repr (PList xs) = ''['' @ py_join '', '' (map py_repr xs) @ '']''"
| "py_repr (PTuple xs) = (if length xs = 1 then ''('' @ concat (map py_repr xs) @ '',)''
                          else ''('' @ py_join '', '' (map py_repr xs) @ '')'')"
| "py_repr (PDict kvs) = ''{'' @ py_join '', '' (map (\<lambda>(k, v). py_repr k @ '': '' @ py_repr v) kvs) @ ''}''"
| "py_repr (PObj r) = r"

definition py_str :: "pyval \<Rightarrow> string" where
  "py_str v = (case v of PStr s \<Rightarrow> s | _ \<Rightarrow> py_repr v)"

text \<open>Iteration over a value: items of a sequence, keys of a dict, characters of a str.\<close>

fun py_iter :: "pyval \<Rightarrow> pyval list res" where
  "py_iter (PList xs) = Inr xs"
| "py_iter (PTuple xs) = Inr xs"
| "py_iter (PDict kvs) = Inr (dkeys kvs)"
| "py_iter (PStr s) = Inr (map (\<lambda>c. PStr [c]) s)"
| "py_iter _ = Inl (TypeError ''object is not iterable'')"

fun hashable :: "pyval \<Rightarrow> bool" where
  "hashable (PList _) = False"
| "hashable (PDict _) = False"
| "hashable (PTuple xs) = list_all hashable xs"
| "hashable _ = True"

text \<open>\<open>dict(value)\<close>: a copy of a mapping, or a dict from a sequence of pairs.\<close>

definition add_pair :: "pyval \<Rightarrow> (pyval, pyval) dict \<Rightarrow> (pyval, pyval) dict res" where
  "add_pair item d = res_bind (py_iter item) (\<lambda>xs. case xs of
       [k, v] \<Rightarrow> (if hashable k then Inr (AList.update k v d) else Inl (TypeError ''unhashable type''))
     | _ \<Rightarrow> Inl (ValueError ''dictionary update sequence element has wrong length''))"

fun py_dict :: "pyval \<Rightarrow> (pyval, pyval) dict res" where
  "py_dict (PDict d) = Inr d"
| "py_dict v = res_bind (py_iter v) (\<lambda>items. res_fold add_pair items [])"

definition py_or :: "pyval \<Rightarrow> pyval \<Rightarrow> pyval" where
  "py_or a b = (if py_truthy a then a else b)"

definition pget :: "(pyval, pyval) dict \<Rightarrow> string \<Rightarrow> pyval \<Rightarrow> pyval" where
  "pget d k v = (case map_of d (PStr k) of None \<Rightarrow> v | Some w \<Rightarrow> w)"

definition pitem :: "(pyval, pyval) dict \<Rightarrow> string \<Rightarrow> pyval res" where
  "pitem d k = (case map_of d (PStr k) of None \<Rightarrow> Inl (KeyError k) | Some w \<Rightarrow> Inr w)"

definition int_of_text :: "string \<Rightarrow> int res" where
  "int_of_text s = (case drop_underscores False (float_strip s) of
       None \<Rightarrow> Inl (ValueError ''invalid literal for int()'')
     | Some t \<Rightarrow>
         (let (neg, u) = split_sign t
          in if u \<noteq> [] \<and> list_all is_digit u
             then Inr (if neg then - int (dec_nat u) else int (dec_nat u))
             else Inl (ValueError ''invalid literal for int()'')))"

definition trunc_rat :: "rat \<Rightarrow> int" where
  "trunc_rat q = (if q < 0 then \<lceil>q\<rceil> else \<lfloor>q\<rfloor>)"

fun py_int :: "pyval \<Rightarrow> int res" where
  "py_int (PInt i) = Inr i"
| "py_int (PBool b) = Inr (if b then 1 else 0)"
| "py_int (PStr s) = int_of_text s"
| "py_int (PFloat r) = (case py_float r of
       Some (Finite q) \<Rightarrow> Inr (trunc_rat q)
     | Some Nan \<Rightarrow> Inl (ValueError ''cannot convert float NaN to integer'')
     | _ \<Rightarrow> Inl (OverflowError ''cannot convert float infinity to integer''))"
| "py_int _ = Inl (TypeError ''int() argument must be a string or a number'')"

lemma py_str_simps [simp]:
  "py_str (PStr s) = s"
  "py_str PNone = ''None''"
  "py_str (PBool b) = (if b then ''True'' else ''False'')"
  "py_str (PInt i) = int_dec i"
  "py_str (PFloat r) = r"
  "py_str (PObj r) = r"
  by (simp_all add: py_str_def)

section \<open>Order\<close>

lemma float_less_linear:
  "x \<noteq> Nan \<Longrightarrow> y \<noteq> Nan \<Longrightarrow> float_less x y \<or> float_eq x y \<or> float_less y x"
  by (cases x; cases y) auto

lemma float_less_irrefl: "\<not> float_less x x"
  by (cases x) auto

lemma float_less_trans: "float_less x y \<Longrightarrow> float_less y z \<Longrightarrow> float_less x z"
  by (cases x; cases y; cases z) auto

lemma float_less_asym: "float_less x y \<Longrightarrow> \<not> float_less y x \<and> \<not> float_eq x y"
  by (cases x; cases y) auto

lemma float_eq_iff: "x \<noteq> Nan \<Longrightarrow> float_eq x y \<longleftrightarrow> x = y"
  by (cases x; cases y) auto

section \<open>Small integers are exact\<close>

lemma bitlen_le: "n < 2 ^ k \<Longrightarrow> bitlen n \<le> k"
proof (induction k arbitrary: n)
  case 0
  then show ?case by (simp add: bitlen.simps)
next
  case (Suc k)
  then have "n div 2 < 2 ^ k" by auto
  with Suc.IH have "bitlen (n div 2) \<le> k" by blast
  then show ?case by (subst bitlen.simps) auto
qed

lemma bitlen_1: "bitlen 1 = 1"
  by (simp add: bitlen.simps)

lemma quotient_of_nat: "quotient_of (of_nat n) = (int n, 1)"
  by (metis Rat.of_int_def of_int_of_nat_eq quotient_of_int)

lemma lead_exp_nat: "n < 2 ^ 53 \<Longrightarrow> lead_exp (of_nat n) \<le> 52"
  using bitlen_le [of n 53] by (simp add: lead_exp_def quotient_of_nat bitlen_1 [simplified] Let_def)

lemma round_half_even_int: "round_half_even (of_int i) = i"
  by (simp add: round_half_even_def)

lemma round64_nat:
  assumes "n < 2 ^ 53"
  shows "round64 (of_nat n) = Finite (of_nat n)"
proof (cases "n = 0")
  case False
  define t where "t = max (lead_exp (of_nat n) - 52) (- 1074)"
  have t: "t \<le> 0" using lead_exp_nat [OF assms] by (simp add: t_def)
  have "of_nat n / pow2 t = of_int (int n * 2 ^ nat (- t))"
    using t by (cases "t = 0") (simp_all add: pow2_def)
  then have "round_half_even (of_nat n / pow2 t) = int n * 2 ^ nat (- t)"
    by (metis round_half_even_int)
  then have r: "of_int (round_half_even (of_nat n / pow2 t)) * pow2 t = of_nat n"
    using t by (cases "t = 0") (simp_all add: pow2_def)
  have "n < 2 ^ 1024" using assms by (rule less_le_trans) (rule power_increasing; simp)
  then have "\<not> of_nat n \<ge> (2 ^ 1024 :: rat)"
    by (metis linorder_not_le of_nat_less_iff of_nat_numeral of_nat_power)
  then show ?thesis
    using False r by (simp add: round64_def Let_def flip: t_def)
qed (simp add: round64_def)

lemma digit_no_space: "is_digit c \<Longrightarrow> \<not> c_space c"
  by (auto simp: is_digit_def c_space_def)

lemma digit_no_underscore: "is_digit c \<Longrightarrow> c \<noteq> CHR ''_''"
  by (auto simp: is_digit_def code_def)

lemma digit_no_sign: "is_digit c \<Longrightarrow> c \<noteq> CHR ''-'' \<and> c \<noteq> CHR ''+''"
  by (auto simp: is_digit_def code_def)

lemma float_strip_digits:
  assumes "\<forall>c \<in> set s. is_digit c"
  shows "float_strip s = s"
proof -
  have "dropWhile c_space u = u" if "\<forall>c \<in> set u. is_digit c" for u
    using that by (cases u) (auto simp: digit_no_space)
  with assms show ?thesis by (simp add: float_strip_def)
qed

lemma drop_underscores_digits: "\<forall>c \<in> set s. is_digit c \<Longrightarrow> drop_underscores b s = Some s"
  by (induction s arbitrary: b) (auto dest: digit_no_underscore)

lemma split_sign_digits: "\<forall>c \<in> set s. is_digit c \<Longrightarrow> split_sign s = (False, s)"
  using digit_no_sign by (cases s) (auto simp: split_sign_def)

lemma py_lower_digits:
  assumes "\<forall>c \<in> set s. is_digit c"
  shows "py_lower s = s"
proof -
  have "lower_char c = c" if "c \<in> set s" for c
    using assms that by (auto simp: lower_char_def is_digit_def)
  then show ?thesis by (simp add: py_lower_def map_idI)
qed

lemma parse_decimal_digits:
  assumes "\<forall>c \<in> set s. is_digit c" and "s \<noteq> []"
  shows "parse_decimal s = Some (of_nat (dec_nat s))"
proof -
  have "takeWhile is_digit s = s" "dropWhile is_digit s = []"
    using assms by (simp_all add: takeWhile_eq_all_conv dropWhile_eq_Nil_conv)
  then show ?thesis using assms by (simp add: parse_decimal_def Let_def parse_exponent_def pow10_def
        del: dropWhile_eq_Nil_conv takeWhile_eq_all_conv)
qed

lemma py_float_nat_dec:
  assumes "n < 2 ^ 53"
  shows "py_float (nat_dec n) = Some (Finite (of_nat n))"
proof -
  let ?s = "nat_dec n"
  note ds = nat_dec_digits [of n]
  have nd: "\<not> is_digit CHR ''i''" "\<not> is_digit CHR ''n''" by (simp_all add: is_digit_def code_def)
  have "?s \<noteq> ''inf''" "?s \<noteq> ''infinity''" "?s \<noteq> ''nan''"
    using ds nd by (auto dest: sym)
  then show ?thesis
    using ds assms
    by (simp add: py_float_def float_strip_digits drop_underscores_digits split_sign_digits
        py_lower_digits parse_decimal_digits round64_nat)
qed

end
