(* ===== verification/Hashing.thy ===== *)
theory Hashing
  imports PyNumber "HOL-Library.Word"
begin

text \<open>
  Bytes, the UTF-8 codec and the SHA-256 digest of the Python standard library, which the engine
  uses for index keys, chunk ids and the checksums of persisted files.  Bytes are lists of 8-bit
  characters.  Text holds the code points of Latin-1, so its UTF-8 form has one or two bytes per
  character; other sequences are refused by the decoder.  The digest follows FIPS 180-4 on 32-bit
  words, whose addition wraps.
\<close>

unbundle bit_operations_syntax

section \<open>Definitions\<close>

type_synonym bytes = string

definition utf8_char :: "char \<Rightarrow> bytes" where
  "utf8_char c = (if code c < 128 then [c] else [char_of (192 + code c div 64), char_of (128 + code c mod 64)])"

definition utf8_encode :: "string \<Rightarrow> bytes" where
  "utf8_encode s = concat (map utf8_char s)"

fun utf8_decode :: "bytes \<Rightarrow> string res" where
  "utf8_decode [] = Inr []"
| "utf8_decode (a # bs) =
     (if code a < 128 then res_bind (utf8_decode bs) (\<lambda>s. Inr (a # s))
      else case bs of
             [] \<Rightarrow> Inl UnicodeDecodeError
           | b # bs' \<Rightarrow>
               (if (code a = 194 \<or> code a = 195) \<and> 128 \<le> code b \<and> code b < 192
                then res_bind (utf8_decode bs') (\<lambda>s. Inr (char_of ((code a - 192) * 64 + (code b - 128)) # s))
                else Inl UnicodeDecodeError))"

subsection \<open>SHA-256\<close>

type_synonym w32 = "32 word"

text \<open>
  The constants of the standard by their meaning: the first 32 bits of the fractional parts of the
  cube roots of the first 64 primes and of the square roots of the first 8.
\<close>

fun root_digits :: "nat \<Rightarrow> int \<Rightarrow> int list \<Rightarrow> int \<Rightarrow> int" where
  "root_digits k n [] r = r"
| "root_digits k n (b # bs) r = root_digits k n bs (if (r + b) ^ k \<le> n then r + b else r)"

definition root_word :: "nat \<Rightarrow> int \<Rightarrow> w32" where
  "root_word k p = word_of_int (root_digits k (p * 2 ^ (32 * k)) (map (\<lambda>i. 2 ^ i) (rev [0 ..< 35])) 0)"

fun next_primes :: "nat \<Rightarrow> int \<Rightarrow> int list \<Rightarrow> int list" where
  "next_primes 0 n ps = rev ps"
| "next_primes (Suc k) n ps = next_primes k (n + 1) (if list_all (\<lambda>p. n mod p \<noteq> 0) ps then n # ps else ps)"

definition sha_k :: "w32 list" where
  "sha_k = map (root_word 3) (next_primes 310 2 [])"

definition sha_init :: "w32 list" where
  "sha_init = map (root_word 2) (next_primes 18 2 [])"

definition rotr :: "nat \<Rightarrow> w32 \<Rightarrow> w32" where
  "rotr n x = drop_bit n x OR push_bit (32 - n) x"

definition sha_pad :: "bytes \<Rightarrow> bytes" where
  "sha_pad m = m @ char_of (128 :: nat) # replicate ((119 - length m mod 64) mod 64) (char_of (0 :: nat))
     @ map (\<lambda>i. char_of (drop_bit (8 * (7 - i)) (8 * int (length m)))) [0 ..< 8]"

definition be_word :: "bytes \<Rightarrow> w32" where
  "be_word bs = foldl (\<lambda>w c. push_bit 8 w OR of_char c) 0 bs"

fun chunked :: "nat \<Rightarrow> nat \<Rightarrow> 'a list \<Rightarrow> 'a list list" where
  "chunked 0 n xs = []"
| "chunked (Suc k) n xs = take n xs # chunked k n (drop n xs)"

text \<open>The message schedule, newest word first.\<close>

definition schedule_next :: "w32 list \<Rightarrow> w32" where
  "schedule_next ws =
     (let w2 = ws ! 1; w7 = ws ! 6; w15 = ws ! 14; w16 = ws ! 15;
          s0 = rotr 7 w15 XOR rotr 18 w15 XOR drop_bit 3 w15;
          s1 = rotr 17 w2 XOR rotr 19 w2 XOR drop_bit 10 w2
      in w16 + s0 + w7 + s1)"

definition sha_schedule :: "bytes \<Rightarrow> w32 list" where
  "sha_schedule block = rev (fold (\<lambda>_ ws. schedule_next ws # ws) [0 ..< 48] (rev (map be_word (chunked 16 4 block))))"

fun sha_round :: "w32 \<times> w32 \<Rightarrow> w32 list \<Rightarrow> w32 list" where
  "sha_round (k, w) [a, b, c, d, e, f, g, h] =
     (let s1 = rotr 6 e XOR rotr 11 e XOR rotr 25 e;
          ch = (e AND f) XOR (NOT e AND g);
          t1 = h + s1 + ch + k + w;
          s0 = rotr 2 a XOR rotr 13 a XOR rotr 22 a;
          maj = (a AND b) XOR (a AND c) XOR (b AND c)
      in [t1 + s0 + maj, a, b, c, d + t1, e, f, g])"
| "sha_round _ st = st"

definition sha_block :: "bytes \<Rightarrow> w32 list \<Rightarrow> w32 list" where
  "sha_block block hs = map2 (+) hs (fold sha_round (zip sha_k (sha_schedule block)) hs)"

definition word_hex :: "w32 \<Rightarrow> string" where
  "word_hex w = map (\<lambda>i. hex_digit (unat (drop_bit (4 * (7 - i)) w AND 15))) [0 ..< 8]"

definition sha256_hex :: "bytes \<Rightarrow> string" where
  "sha256_hex m = (let p = sha_pad m
     in concat (map word_hex (fold sha_block (chunked (length p div 64) 64 p) sha_init)))"

definition sha256_text :: "string \<Rightarrow> string" where
  "sha256_text value = sha256_hex (utf8_encode value)"

section \<open>UTF-8\<close>

lemma utf8_decode_char: "utf8_decode (utf8_char c @ bs) = res_bind (utf8_decode bs) (\<lambda>s. Inr (c # s))"
proof (cases "code c < 128")
  case True
  then show ?thesis by (simp add: utf8_char_def)
next
  case False
  have lt: "code c < 256" by (rule code_less)
  with False have hi: "192 + code c div 64 = 194 \<or> 192 + code c div 64 = 195" "192 + code c div 64 < 256" by auto
  then have a: "code (char_of (192 + code c div 64)) = 192 + code c div 64" by (intro code_char_of)
  have b: "code (char_of (128 + code c mod 64)) = 128 + code c mod 64" by (intro code_char_of) simp
  have "(192 + code c div 64 - 192) * 64 + (128 + code c mod 64 - 128) = code c" by simp
  then have "char_of ((192 + code c div 64 - 192) * 64 + (128 + code c mod 64 - 128)) = c" by (simp only: char_of_code)
  with False hi show ?thesis by (simp add: utf8_char_def a b)
qed

lemma utf8_roundtrip [simp]: "utf8_decode (utf8_encode s) = Inr s"
  by (induction s) (simp_all add: utf8_encode_def utf8_decode_char)

lemma utf8_encode_ascii: "\<forall>c \<in> set s. code c < 128 \<Longrightarrow> utf8_encode s = s"
  by (induction s) (simp_all add: utf8_encode_def utf8_char_def)

lemma utf8_decode_ascii: "\<forall>c \<in> set s. code c < 128 \<Longrightarrow> utf8_decode s = Inr s"
  using utf8_roundtrip [of s] by (simp add: utf8_encode_ascii)

lemma utf8_encode_inject: "utf8_encode s = utf8_encode t \<longleftrightarrow> s = t"
  by (metis utf8_roundtrip sum.inject(2))

section \<open>Digests\<close>

text \<open>The test vector of the standard.\<close>

lemma sha256_abc:
  "sha256_hex ''abc'' = ''ba7816bf8f01cfea414140de5dae2223b00361a396177a9cb410ff61f20015ad''"
  by code_simp

lemma sha_round_length: "length st = 8 \<Longrightarrow> length (sha_round kw st) = 8"
  by (cases kw; cases "(kw, st)" rule: sha_round.cases) (auto simp: Let_def)

lemma fold_length_inv: "(\<And>x s. length s = n \<Longrightarrow> length (f x s) = n) \<Longrightarrow> length s = n \<Longrightarrow> length (fold f xs s) = n"
  by (induction xs arbitrary: s) auto

lemma sha_block_length: "length hs = 8 \<Longrightarrow> length (sha_block b hs) = 8"
  using fold_length_inv [of 8 sha_round hs "zip sha_k (sha_schedule b)"] by (simp add: sha_block_def sha_round_length)

lemma word_hex_digits:
  "length (word_hex w) = 8" "list_all (\<lambda>c. is_digit c \<or> 97 \<le> code c \<and> code c \<le> 102) (word_hex w)"
proof -
  have "unat (x AND 15) < 16" for x :: w32
    using word_and_le1 [of x 15] by (simp add: word_le_nat_alt le_imp_less_Suc)
  moreover have "is_digit (hex_digit d) \<or> 97 \<le> code (hex_digit d) \<and> code (hex_digit d) \<le> 102" if "d < 16" for d
    using that by (auto simp: hex_digit_def is_digit_def)
  ultimately show "list_all (\<lambda>c. is_digit c \<or> 97 \<le> code c \<and> code c \<le> 102) (word_hex w)"
    by (auto simp: word_hex_def list_all_iff)
qed (simp add: word_hex_def)

lemma sha256_hex_digest:
  "length (sha256_hex m) = 64 \<and> list_all (\<lambda>c. is_digit c \<or> 97 \<le> code c \<and> code c \<le> 102) (sha256_hex m)"
proof -
  define hs where "hs = fold sha_block (chunked (length (sha_pad m) div 64) 64 (sha_pad m)) sha_init"
  have "length sha_init = 8" by code_simp
  then have "length hs = 8" unfolding hs_def by (intro fold_length_inv) (simp_all add: sha_block_length)
  moreover have "sha256_hex m = concat (map word_hex hs)" by (simp add: sha256_hex_def Let_def hs_def)
  moreover have "length (concat (map word_hex ws)) = 8 * length ws" for ws
    by (induction ws) (simp_all add: word_hex_digits(1))
  moreover have "list_all P (concat (map word_hex ws))" if "\<And>w. list_all P (word_hex w)" for P ws
    using that by (induction ws) auto
  ultimately show ?thesis using word_hex_digits(2) by simp
qed

end
