(* ===== verification/FileSys.thy ===== *)
theory FileSys
  imports Hashing
begin

text \<open>
  The file operations the persistence code performs, as computations that may raise and that record
  the operations they issue.  A file system is a dict of file contents and a list of directories;
  a path is the list of its components.  The trace of operations of a computation determines the
  state after it, and also the states a crash can leave behind: any prefix of the trace, with the
  last write possibly torn.  Replacing a file is one operation, as \<open>os.replace\<close> is atomic within a
  file system.  These are the states after the process dies: operations reach the files in program
  order, and \<open>fsync\<close>, which is in the trace, changes none of them.  The reordering of writes that a
  loss of power can cause, against which \<open>fsync\<close> is issued, is not modelled.
\<close>

section \<open>Definitions\<close>

subsection \<open>Paths\<close>

type_synonym path = "string list"

fun split_slash :: "string \<Rightarrow> string \<Rightarrow> string list" where
  "split_slash cur [] = [rev cur]"
| "split_slash cur (c # cs) = (if c = CHR ''/'' then rev cur # split_slash [] cs else split_slash (c # cur) cs)"

definition path_parts :: "string \<Rightarrow> path" where
  "path_parts s = filter (\<lambda>p. p \<noteq> [] \<and> p \<noteq> ''.'') (split_slash [] s)"

text \<open>\<open>path / name\<close>: an absolute name replaces the path, any other one extends it.\<close>

definition path_join :: "path \<Rightarrow> string \<Rightarrow> path" where
  "path_join p name = (if py_startswith name ''/'' then path_parts name else p @ path_parts name)"

definition path_name :: "path \<Rightarrow> string" where
  "path_name p = (if p = [] then [] else last p)"

definition with_name :: "path \<Rightarrow> string \<Rightarrow> path" where
  "with_name p name = butlast p @ [name]"

subsection \<open>States and operations\<close>

record fs =
  fs_files :: "(path, bytes) dict"
  fs_dirs :: "path list"

datatype fs_op =
    Write path bytes
  | Replace path path
  | Unlink path
  | Mkdir path
  | FsyncFile path
  | FsyncDir path

fun run_op :: "fs_op \<Rightarrow> fs \<Rightarrow> fs" where
  "run_op (Write p b) s = s \<lparr> fs_files := AList.update p b (fs_files s) \<rparr>"
| "run_op (Replace p q) s = (case map_of (fs_files s) p of
     None \<Rightarrow> s
   | Some b \<Rightarrow> s \<lparr> fs_files := AList.update q b (AList.delete p (fs_files s)) \<rparr>)"
| "run_op (Unlink p) s = s \<lparr> fs_files := AList.delete p (fs_files s) \<rparr>"
| "run_op (Mkdir p) s = s \<lparr> fs_dirs := remdups (prefixes p @ fs_dirs s) \<rparr>"
| "run_op (FsyncFile p) s = s"
| "run_op (FsyncDir p) s = s"

definition run_ops :: "fs_op list \<Rightarrow> fs \<Rightarrow> fs" where
  "run_ops ops s = fold run_op ops s"

inductive crash :: "fs \<Rightarrow> fs_op list \<Rightarrow> fs \<Rightarrow> bool" where
  stop: "crash s ops s"
| torn: "crash s (Write p b # ops) (run_op (Write p (take k b)) s)"
| step: "crash (run_op op s) ops s' \<Longrightarrow> crash s (op # ops) s'"

definition file_at :: "fs \<Rightarrow> path \<Rightarrow> bytes option" where
  "file_at s p = map_of (fs_files s) p"

definition is_dir_at :: "fs \<Rightarrow> path \<Rightarrow> bool" where
  "is_dir_at s p = (p = [] \<or> p \<in> set (fs_dirs s))"

subsection \<open>Computations\<close>

type_synonym 'a io = "fs \<Rightarrow> 'a res \<times> fs_op list"

definition io_return :: "'a \<Rightarrow> 'a io" where
  "io_return x s = (Inr x, [])"

definition io_lift :: "'a res \<Rightarrow> 'a io" where
  "io_lift r s = (r, [])"

definition io_bind :: "'a io \<Rightarrow> ('a \<Rightarrow> 'b io) \<Rightarrow> 'b io" where
  "io_bind m f s = (case m s of
       (Inl e, ops) \<Rightarrow> (Inl e, ops)
     | (Inr x, ops) \<Rightarrow> (case f x (run_ops ops s) of (r, ops') \<Rightarrow> (r, ops @ ops')))"

definition io_when :: "bool \<Rightarrow> unit io \<Rightarrow> unit io" where
  "io_when b m = (if b then m else io_return ())"

fun io_mapM :: "('a \<Rightarrow> 'b io) \<Rightarrow> 'a list \<Rightarrow> 'b list io" where
  "io_mapM f [] = io_return []"
| "io_mapM f (x # xs) = io_bind (f x) (\<lambda>y. io_bind (io_mapM f xs) (\<lambda>ys. io_return (y # ys)))"

definition io_result :: "'a io \<Rightarrow> fs \<Rightarrow> 'a res" where
  "io_result m s = fst (m s)"

definition io_ops :: "'a io \<Rightarrow> fs \<Rightarrow> fs_op list" where
  "io_ops m s = snd (m s)"

definition io_state :: "'a io \<Rightarrow> fs \<Rightarrow> fs" where
  "io_state m s = run_ops (io_ops m s) s"

definition is_file :: "path \<Rightarrow> bool io" where
  "is_file p s = (Inr (file_at s p \<noteq> None), [])"

definition is_dir :: "path \<Rightarrow> bool io" where
  "is_dir p s = (Inr (is_dir_at s p), [])"

definition read_bytes :: "path \<Rightarrow> bytes io" where
  "read_bytes p s = (case file_at s p of
       None \<Rightarrow> (Inl (FileNotFoundError (path_name p)), [])
     | Some b \<Rightarrow> (Inr b, []))"

definition read_text :: "path \<Rightarrow> string io" where
  "read_text p = io_bind (read_bytes p) (\<lambda>b. io_lift (utf8_decode b))"

definition stat_size :: "path \<Rightarrow> int io" where
  "stat_size p = io_bind (read_bytes p) (\<lambda>b. io_return (int (length b)))"

definition write_bytes :: "path \<Rightarrow> bytes \<Rightarrow> unit io" where
  "write_bytes p b s = (if p = [] \<or> is_dir_at s p then (Inl (OSError ''is a directory''), [])
     else if is_dir_at s (butlast p) then (Inr (), [Write p b])
     else (Inl (FileNotFoundError (path_name p)), []))"

definition write_text :: "path \<Rightarrow> string \<Rightarrow> unit io" where
  "write_text p t = write_bytes p (utf8_encode t)"

definition os_replace :: "path \<Rightarrow> path \<Rightarrow> unit io" where
  "os_replace p q s = (if file_at s p = None \<or> \<not> is_dir_at s (butlast q) then (Inl (FileNotFoundError (path_name p)), [])
     else if q = [] \<or> is_dir_at s q then (Inl (OSError ''is a directory''), [])
     else (Inr (), [Replace p q]))"

definition unlink_missing_ok :: "path \<Rightarrow> unit io" where
  "unlink_missing_ok p s = (Inr (), if file_at s p = None then [] else [Unlink p])"

definition mkdir_parents :: "path \<Rightarrow> unit io" where
  "mkdir_parents p s = (if list_ex (\<lambda>q. file_at s q \<noteq> None) (prefixes p) then (Inl (OSError ''file exists''), [])
     else (Inr (), [Mkdir p]))"

text \<open>The files of a directory whose name ends in a suffix, as \<open>Path.glob("*suffix")\<close> lists them.\<close>

definition glob_suffix :: "path \<Rightarrow> string \<Rightarrow> path list io" where
  "glob_suffix d suf s =
     (Inr (filter (\<lambda>p. p \<noteq> [] \<and> butlast p = d \<and> py_endswith (last p) suf) (dkeys (fs_files s))), [])"

section \<open>Lemmas\<close>

named_theorems io_simps "evaluation of file computations"

lemma run_ops_simps [simp]:
  "run_ops [] s = s"
  "run_ops (op # ops) s = run_ops ops (run_op op s)"
  "run_ops (xs @ ys) s = run_ops ys (run_ops xs s)"
  by (simp_all add: run_ops_def)

lemma file_at_simps [simp]:
  "file_at (run_op (Write p b) s) q = (if q = p then Some b else file_at s q)"
  "file_at (run_op (Unlink p) s) q = (if q = p then None else file_at s q)"
  "file_at (run_op (Mkdir p) s) q = file_at s q"
  "file_at (run_op (FsyncFile p) s) q = file_at s q"
  "file_at (run_op (FsyncDir p) s) q = file_at s q"
  by (simp_all add: file_at_def)

lemma file_at_Replace [simp]:
  "file_at (run_op (Replace p r) s) q =
     (if file_at s p = None then file_at s q else if q = r then file_at s p else if q = p then None else file_at s q)"
  by (simp add: file_at_def split: option.split)

lemma is_dir_at_simps [simp]:
  "is_dir_at (run_op (Write p b) s) q = is_dir_at s q"
  "is_dir_at (run_op (Unlink p) s) q = is_dir_at s q"
  "is_dir_at (run_op (Replace p r) s) q = is_dir_at s q"
  "is_dir_at (run_op (FsyncFile p) s) q = is_dir_at s q"
  "is_dir_at (run_op (FsyncDir p) s) q = is_dir_at s q"
  "is_dir_at (run_op (Mkdir p) s) q = (prefix q p \<or> is_dir_at s q)"
  by (auto simp: is_dir_at_def split: option.split)

declare run_op.simps [simp del]

lemma io_result_simps [simp, io_simps]:
  "io_result (io_return x) s = Inr x"
  "io_result (io_lift r) s = r"
  "io_result (io_bind m f) s = res_bind (io_result m s) (\<lambda>x. io_result (f x) (io_state m s))"
  by (auto simp: io_result_def io_return_def io_lift_def io_bind_def io_state_def io_ops_def
      split: prod.split sum.split)

lemma io_ops_simps [simp, io_simps]:
  "io_ops (io_return x) s = []"
  "io_ops (io_lift r) s = []"
  "io_ops (io_bind m f) s = io_ops m s @
     (case io_result m s of Inl e \<Rightarrow> [] | Inr x \<Rightarrow> io_ops (f x) (io_state m s))"
  by (auto simp: io_result_def io_return_def io_lift_def io_bind_def io_state_def io_ops_def
      split: prod.split sum.split)

lemma io_state_simps [simp, io_simps]:
  "io_state (io_return x) s = s"
  "io_state (io_lift r) s = s"
  "io_state (io_bind m f) s =
     (case io_result m s of Inl e \<Rightarrow> io_state m s | Inr x \<Rightarrow> io_state (f x) (io_state m s))"
  by (simp_all add: io_state_def split: sum.split)

lemma io_reads [simp, io_simps]:
  "io_result (is_file p) s = Inr (file_at s p \<noteq> None)" "io_ops (is_file p) s = []" "io_state (is_file p) s = s"
  "io_result (is_dir p) s = Inr (is_dir_at s p)" "io_ops (is_dir p) s = []" "io_state (is_dir p) s = s"
  "io_ops (read_bytes p) s = []" "io_state (read_bytes p) s = s"
  "io_ops (glob_suffix p u) s = []" "io_state (glob_suffix p u) s = s"
  by (simp_all add: is_file_def is_dir_def read_bytes_def glob_suffix_def io_result_def io_ops_def io_state_def
      split: option.split)

lemma io_read_bytes [simp, io_simps]:
  "io_result (read_bytes p) s = (case file_at s p of None \<Rightarrow> Inl (FileNotFoundError (path_name p)) | Some b \<Rightarrow> Inr b)"
  by (simp add: read_bytes_def io_result_def split: option.split)

lemma io_read_text [simp, io_simps]:
  "io_ops (read_text p) s = []" "io_state (read_text p) s = s"
  "io_result (read_text p) s =
     (case file_at s p of None \<Rightarrow> Inl (FileNotFoundError (path_name p)) | Some b \<Rightarrow> utf8_decode b)"
  by (simp_all add: read_text_def split: option.split sum.split)

lemma io_stat_size [simp, io_simps]:
  "io_ops (stat_size p) s = []" "io_state (stat_size p) s = s"
  "io_result (stat_size p) s =
     (case file_at s p of None \<Rightarrow> Inl (FileNotFoundError (path_name p)) | Some b \<Rightarrow> Inr (int (length b)))"
  by (simp_all add: stat_size_def split: option.split sum.split)

lemma io_bind_assoc: "io_bind (io_bind m f) g = io_bind m (\<lambda>x. io_bind (f x) g)"
  by (rule ext) (auto simp: io_bind_def split: prod.split sum.split)

lemma io_bind_lift [simp]: "io_bind (io_lift (Inr x)) f = f x" "io_bind (io_return x) f = f x"
  by (rule ext, simp add: io_bind_def io_lift_def io_return_def split: prod.split)+

lemma io_step:
  assumes "io_result m s = Inr x" and "io_ops m s = ops"
  shows "io_result (io_bind m f) s = io_result (f x) (run_ops ops s)"
    and "io_ops (io_bind m f) s = ops @ io_ops (f x) (run_ops ops s)"
  using assms by (simp_all add: io_state_def)

subsection \<open>Crashes\<close>

inductive_simps crash_Nil [simp]: "crash s [] s'"
inductive_simps crash_Cons: "crash s (op # ops) s'"
inductive_cases crash_ConsE: "crash s (op # ops) s'"

lemma crash_append: "crash s (xs @ ys) s' \<longleftrightarrow> crash s xs s' \<or> crash (run_ops xs s) ys s'"
proof (induction xs arbitrary: s)
  case Nil
  show ?case by (auto intro: crash.stop)
next
  case (Cons op xs)
  then show ?case by (auto simp: crash_Cons intro: crash.stop)
qed

lemma crash_done: "crash s ops (run_ops ops s)"
proof (induction ops arbitrary: s)
  case (Cons op ops)
  then show ?case by (simp add: crash.step)
qed (simp add: crash.stop)

text \<open>What no operation of a trace touches, no crash changes.\<close>

fun op_paths :: "fs_op \<Rightarrow> path set" where
  "op_paths (Write p b) = {p}"
| "op_paths (Replace p q) = {p, q}"
| "op_paths (Unlink p) = {p}"
| "op_paths _ = {}"

lemma run_op_frame: "q \<notin> op_paths op \<Longrightarrow> file_at (run_op op s) q = file_at s q"
  by (cases op) auto

lemma run_ops_frame: "q \<notin> \<Union> (op_paths ` set ops) \<Longrightarrow> file_at (run_ops ops s) q = file_at s q"
  by (induction ops arbitrary: s) (simp_all add: run_op_frame)

lemma crash_frame: "crash s ops s' \<Longrightarrow> q \<notin> \<Union> (op_paths ` set ops) \<Longrightarrow> file_at s' q = file_at s q"
  by (induction rule: crash.induct) (simp_all add: run_op_frame)

lemma run_op_dir_mono: "is_dir_at s d \<Longrightarrow> is_dir_at (run_op op s) d"
  by (cases op) simp_all

lemma crash_dir_mono: "crash s ops s' \<Longrightarrow> is_dir_at s d \<Longrightarrow> is_dir_at s' d"
proof (induction rule: crash.induct)
  case (step op s ops s')
  then show ?case using run_op_dir_mono by blast
qed simp_all

end
