(* ===== verification/JsonCodec.thy ===== *)
theory JsonCodec
  imports PyNumber
begin

text \<open>
  The JSON text codec of the Python standard library, as far as the sources use it: \<open>json.dumps\<close>
  with the options \<open>sort_keys\<close>, \<open>separators\<close> and \<open>indent\<close>, and \<open>json.loads\<close>.  Every persisted
  manifest, journal body and property column goes through this codec.  A float is carried as its
  text, so a parsed float keeps the text it had.  Characters are those of Latin-1, so an escape of
  a larger code point is outside the model and refused by the parser.
\<close>

section \<open>Definitions\<close>

subsection \<open>Writing\<close>

record json_style =
  item_sep :: string
  key_sep :: string
  sort_keys :: bool
  indent :: "nat option"

definition plain_style :: json_style where
  "plain_style = \<lparr> item_sep = '', '', key_sep = '': '', sort_keys = False, indent = None \<rparr>"

definition sorted_style :: json_style where
  "sorted_style = plain_style \<lparr> sort_keys := True \<rparr>"

definition compact_style :: json_style where
  "compact_style = \<lparr> item_sep = '','', key_sep = '':'', sort_keys = True, indent = None \<rparr>"

definition pretty_style :: json_style where
  "pretty_style = \<lparr> item_sep = '','', key_sep = '': '', sort_keys = True, indent = Some 2 \<rparr>"

abbreviation quote_char :: char where "quote_char \<equiv> CHR 0x22"
abbreviation backslash :: char where "backslash \<equiv> CHR 0x5C"

definition json_char :: "char \<Rightarrow> string" where
  "json_char c =
     (if c = quote_char \<or> c = backslash then [backslash, c]
      else if code c = 10 then [backslash, CHR ''n'']
      else if code c = 13 then [backslash, CHR ''r'']
      else if code c = 9 then [backslash, CHR ''t'']
      else if code c = 12 then [backslash, CHR ''f'']
      else if code c = 8 then [backslash, CHR ''b'']
      else if code c < 32 \<or> 126 < code c then [backslash, CHR ''u'', CHR ''0'', CHR ''0''] @ hex2 (code c)
      else [c])"

definition json_str :: "string \<Rightarrow> string" where
  "json_str s = quote_char # concat (map json_char s) @ [quote_char]"

definition json_float :: "string \<Rightarrow> string" where
  "json_float r = (if r = ''nan'' then ''NaN'' else if r = ''inf'' then ''Infinity''
                   else if r = ''-inf'' then ''-Infinity'' else r)"

definition json_key :: "pyval \<Rightarrow> string res" where
  "json_key k = (case k of
       PStr s \<Rightarrow> Inr s
     | PFloat r \<Rightarrow> Inr (json_float r)
     | PBool b \<Rightarrow> Inr (if b then ''true'' else ''false'')
     | PNone \<Rightarrow> Inr ''null''
     | PInt i \<Rightarrow> Inr (int_dec i)
     | _ \<Rightarrow> Inl (TypeError ''keys must be str, int, float, bool or None''))"

definition newline_at :: "json_style \<Rightarrow> nat \<Rightarrow> string" where
  "newline_at st level = (case indent st of None \<Rightarrow> [] | Some w \<Rightarrow> CHR 0x0A # replicate (w * level) CHR '' '')"

definition wrap_items :: "json_style \<Rightarrow> nat \<Rightarrow> char \<Rightarrow> char \<Rightarrow> string list \<Rightarrow> string" where
  "wrap_items st level l r items =
     (if items = [] then [l, r]
      else l # newline_at st (Suc level) @ py_join (item_sep st @ newline_at st (Suc level)) items
           @ newline_at st level @ [r])"

text \<open>\<open>sort_keys\<close> sorts the items by key; it is used on objects whose keys are strings only.\<close>

definition arrange :: "json_style \<Rightarrow> (string \<times> string) list \<Rightarrow> (string \<times> string) list" where
  "arrange st items = (if sort_keys st then sort_key fst items else items)"

fun dumps_at :: "json_style \<Rightarrow> nat \<Rightarrow> pyval \<Rightarrow> string res" where
  "dumps_at st level PNone = Inr ''null''"
| "dumps_at st level (PBool b) = Inr (if b then ''true'' else ''false'')"
| "dumps_at st level (PInt i) = Inr (int_dec i)"
| "dumps_at st level (PFloat r) = Inr (json_float r)"
| "dumps_at st level (PStr s) = Inr (json_str s)"
| "dumps_at st level (PList xs) =
     res_bind (res_mapM (dumps_at st (Suc level)) xs) (\<lambda>items. Inr (wrap_items st level CHR ''['' CHR '']'' items))"
| "dumps_at st level (PTuple xs) =
     res_bind (res_mapM (dumps_at st (Suc level)) xs) (\<lambda>items. Inr (wrap_items st level CHR ''['' CHR '']'' items))"
| "dumps_at st level (PDict kvs) =
     res_bind (raise_if (sort_keys st \<and> 1 < length kvs \<and> \<not> list_all (\<lambda>(k, _). py_is_str k) kvs)
                 (TypeError ''keys are not comparable'')) (\<lambda>_.
     res_bind (res_mapM (\<lambda>(k, v). res_bind (json_key k) (\<lambda>ks.
                 res_bind (dumps_at st (Suc level) v) (\<lambda>vs. Inr (ks, vs)))) kvs) (\<lambda>items.
       Inr (wrap_items st level CHR ''{'' CHR ''}''
              (map (\<lambda>(k, v). json_str k @ key_sep st @ v) (arrange st items)))))"
| "dumps_at st level (PObj r) = Inl (TypeError ''object is not JSON serializable'')"

definition json_dumps :: "json_style \<Rightarrow> pyval \<Rightarrow> string res" where
  "json_dumps st v = dumps_at st 0 v"

subsection \<open>Reading\<close>

definition json_ws :: "char \<Rightarrow> bool" where
  "json_ws c = (code c \<in> {9, 10, 13, 32})"

definition skip_ws :: "string \<Rightarrow> string" where
  "skip_ws s = dropWhile json_ws s"

definition hex_val :: "char \<Rightarrow> nat option" where
  "hex_val c = (if is_digit c then Some (code c - 48)
                else if 97 \<le> code c \<and> code c \<le> 102 then Some (code c - 87)
                else if 65 \<le> code c \<and> code c \<le> 70 then Some (code c - 55) else None)"

definition hex4 :: "char \<Rightarrow> char \<Rightarrow> char \<Rightarrow> char \<Rightarrow> nat option" where
  "hex4 a b c d = (case (hex_val a, hex_val b, hex_val c, hex_val d) of
       (Some w, Some x, Some y, Some z) \<Rightarrow> Some (4096 * w + 256 * x + 16 * y + z) | _ \<Rightarrow> None)"

definition unescape :: "char \<Rightarrow> char option" where
  "unescape e =
     (if e = quote_char \<or> e = backslash \<or> e = CHR ''/'' then Some e
      else if e = CHR ''b'' then Some (char_of (8 :: nat)) else if e = CHR ''f'' then Some (char_of (12 :: nat))
      else if e = CHR ''n'' then Some (char_of (10 :: nat)) else if e = CHR ''r'' then Some (char_of (13 :: nat))
      else if e = CHR ''t'' then Some (char_of (9 :: nat)) else None)"

text \<open>The rest of a string after its opening quote: the characters and what follows the closing quote.\<close>

fun scan_string :: "string \<Rightarrow> (string \<times> string) option"
  and scan_escape :: "string \<Rightarrow> (string \<times> string) option"
  and scan_hex :: "string \<Rightarrow> (string \<times> string) option" where
  "scan_string [] = None"
| "scan_string (c # cs) =
     (if c = quote_char then Some ([], cs)
      else if c = backslash then scan_escape cs
      else if code c < 32 then None
      else map_option (\<lambda>(s, r). (c # s, r)) (scan_string cs))"
| "scan_escape [] = None"
| "scan_escape (e # es) =
     (if e = CHR ''u'' then scan_hex es
      else Option.bind (unescape e) (\<lambda>x. map_option (\<lambda>(s, r). (x # s, r)) (scan_string es)))"
| "scan_hex (a # b # c # d # rest) =
     (case hex4 a b c d of
        None \<Rightarrow> None
      | Some n \<Rightarrow> (if n < 256 then map_option (\<lambda>(s, r). (char_of n # s, r)) (scan_string rest) else None))"
| "scan_hex _ = None"

text \<open>The number pattern: an integer part without leading zeros, an optional fraction and exponent.\<close>

definition scan_frac :: "string \<Rightarrow> string \<times> string" where
  "scan_frac s = (case s of
       c # d # r \<Rightarrow> (if c = CHR ''.'' \<and> is_digit d then (c # takeWhile is_digit (d # r), dropWhile is_digit (d # r)) else ([], s))
     | _ \<Rightarrow> ([], s))"

definition scan_exp :: "string \<Rightarrow> string \<times> string" where
  "scan_exp s = (case s of
       c # r \<Rightarrow>
         (if c = CHR ''e'' \<or> c = CHR ''E''
          then let sg = (case r of g # _ \<Rightarrow> if g = CHR ''+'' \<or> g = CHR ''-'' then [g] else [] | [] \<Rightarrow> []);
                   ds = drop (length sg) r
               in if takeWhile is_digit ds \<noteq> [] then (c # sg @ takeWhile is_digit ds, dropWhile is_digit ds) else ([], s)
          else ([], s))
     | [] \<Rightarrow> ([], s))"

definition scan_digits :: "string \<Rightarrow> (string \<times> string) option" where
  "scan_digits s = (case s of
       [] \<Rightarrow> None
     | c # r \<Rightarrow> (if c = CHR ''0'' then Some ([c], r)
                else if is_digit c then Some (takeWhile is_digit s, dropWhile is_digit s) else None))"

definition scan_number :: "string \<Rightarrow> (pyval \<times> string) option" where
  "scan_number s =
     (let neg = (s \<noteq> [] \<and> hd s = CHR ''-'') in
      case scan_digits (if neg then tl s else s) of
        None \<Rightarrow> None
      | Some (ds, r1) \<Rightarrow>
          (let (fr, r2) = scan_frac r1; (ex, r3) = scan_exp r2 in
           if fr = [] \<and> ex = []
           then Some (PInt (if neg then - int (dec_nat ds) else int (dec_nat ds)), r3)
           else Some (PFloat ((if neg then ''-'' else []) @ ds @ fr @ ex), r3)))"

definition literals :: "(string \<times> pyval) list" where
  "literals = [(''null'', PNone), (''true'', PBool True), (''false'', PBool False),
     (''NaN'', PFloat ''nan''), (''Infinity'', PFloat ''inf''), (''-Infinity'', PFloat ''-inf'')]"

definition scan_literal :: "string \<Rightarrow> (pyval \<times> string) option" where
  "scan_literal s = (case filter (\<lambda>(w, _). prefix w s) literals of
       (w, v) # _ \<Rightarrow> Some (v, drop (length w) s)
     | [] \<Rightarrow> scan_number s)"

text \<open>
  Values, the elements of an array and the members of an object.  The fuel bounds the depth of the
  calls; every second call consumes a character, so twice the length of the text is enough.
\<close>

fun scan_value :: "nat \<Rightarrow> string \<Rightarrow> (pyval \<times> string) option"
  and scan_elements :: "nat \<Rightarrow> string \<Rightarrow> (pyval list \<times> string) option"
  and scan_members :: "nat \<Rightarrow> (pyval, pyval) dict \<Rightarrow> string \<Rightarrow> ((pyval, pyval) dict \<times> string) option" where
  "scan_value 0 s = None"
| "scan_value (Suc n) s = (case s of
       [] \<Rightarrow> None
     | c # r \<Rightarrow>
         (if c = quote_char then map_option (\<lambda>(t, r'). (PStr t, r')) (scan_string r)
          else if c = CHR ''{'' then
            (case skip_ws r of
               [] \<Rightarrow> None
             | d # r' \<Rightarrow> (if d = CHR ''}'' then Some (PDict [], r')
                          else map_option (\<lambda>(kvs, r''). (PDict kvs, r'')) (scan_members n [] (d # r'))))
          else if c = CHR ''['' then
            (case skip_ws r of
               [] \<Rightarrow> None
             | d # r' \<Rightarrow> (if d = CHR '']'' then Some (PList [], r')
                          else map_option (\<lambda>(xs, r''). (PList xs, r'')) (scan_elements n (d # r'))))
          else scan_literal s))"
| "scan_elements 0 s = None"
| "scan_elements (Suc n) s =
     Option.bind (scan_value n s) (\<lambda>(v, r). case skip_ws r of
        [] \<Rightarrow> None
      | d # r' \<Rightarrow> (if d = CHR '']'' then Some ([v], r')
                   else if d = CHR '','' then map_option (\<lambda>(xs, r''). (v # xs, r'')) (scan_elements n (skip_ws r'))
                   else None))"
| "scan_members 0 acc s = None"
| "scan_members (Suc n) acc s = (case s of
       [] \<Rightarrow> None
     | c # r \<Rightarrow> (if c \<noteq> quote_char then None else
         Option.bind (scan_string r) (\<lambda>(k, r1). case skip_ws r1 of
            [] \<Rightarrow> None
          | d # r2 \<Rightarrow> (if d \<noteq> CHR '':'' then None else
              Option.bind (scan_value n (skip_ws r2)) (\<lambda>(v, r3). case skip_ws r3 of
                 [] \<Rightarrow> None
               | e # r4 \<Rightarrow> (let acc' = AList.update (PStr k) v acc in
                   if e = CHR ''}'' then Some (acc', r4)
                   else if e = CHR '','' then scan_members n acc' (skip_ws r4)
                   else None))))))"

definition json_loads :: "string \<Rightarrow> pyval res" where
  "json_loads s =
     (case scan_value (2 * length s + 2) (skip_ws s) of
        None \<Rightarrow> Inl JSONDecodeError
      | Some (v, r) \<Rightarrow> (if skip_ws r = [] then Inr v else Inl JSONDecodeError))"

subsection \<open>What can be written and what is read back\<close>

definition json_float_ok :: "string \<Rightarrow> bool" where
  "json_float_ok r = (r \<in> {''nan'', ''inf'', ''-inf''} \<or> scan_number r = Some (PFloat r, []))"

fun json_ok :: "pyval \<Rightarrow> bool" where
  "json_ok (PFloat r) = json_float_ok r"
| "json_ok (PList xs) = list_all json_ok xs"
| "json_ok (PDict kvs) = (list_all (\<lambda>(k, v). py_is_str k \<and> json_ok v) kvs \<and> dict_ok kvs)"
| "json_ok (PTuple _) = False"
| "json_ok (PObj _) = False"
| "json_ok _ = True"

fun key_sorted :: "pyval \<Rightarrow> pyval" where
  "key_sorted (PList xs) = PList (map key_sorted xs)"
| "key_sorted (PDict kvs) = PDict (sort_key (\<lambda>p. py_str (fst p)) (map (\<lambda>(k, v). (k, key_sorted v)) kvs))"
| "key_sorted v = v"

definition json_view :: "json_style \<Rightarrow> pyval \<Rightarrow> pyval" where
  "json_view st v = (if sort_keys st then key_sorted v else v)"

definition sep_ok :: "char \<Rightarrow> string \<Rightarrow> bool" where
  "sep_ok c s = (s \<noteq> [] \<and> hd s = c \<and> list_all json_ws (tl s))"

definition style_ok :: "json_style \<Rightarrow> bool" where
  "style_ok st = (sep_ok CHR '','' (item_sep st) \<and> sep_ok CHR '':'' (key_sep st))"

definition stops :: "string \<Rightarrow> bool" where
  "stops rest = (case rest of [] \<Rightarrow> True
     | c # _ \<Rightarrow> \<not> is_digit c \<and> c \<noteq> CHR ''.'' \<and> c \<noteq> CHR ''e'' \<and> c \<noteq> CHR ''E'')"

definition reads :: "pyval \<Rightarrow> string \<Rightarrow> bool" where
  "reads v t \<longleftrightarrow> t \<noteq> [] \<and> \<not> json_ws (hd t) \<and> hd t \<noteq> CHR '']'' \<and> hd t \<noteq> CHR ''}''
     \<and> (\<forall>n rest. length t \<le> n \<longrightarrow> stops rest \<longrightarrow> scan_value n (t @ rest) = Some (v, rest))"

section \<open>Strings\<close>

lemma hex_val_digit: "d < 16 \<Longrightarrow> hex_val (hex_digit d) = Some d"
  by (auto simp: hex_val_def hex_digit_def is_digit_def)

lemma hex4_code: "hex4 CHR ''0'' CHR ''0'' (hex_digit (code c div 16)) (hex_digit (code c mod 16)) = Some (code c)"
proof -
  have "code c div 16 < 16" using code_less [of c] by linarith
  then have "hex_val (hex_digit (code c div 16)) = Some (code c div 16)"
    "hex_val (hex_digit (code c mod 16)) = Some (code c mod 16)" by (simp_all add: hex_val_digit)
  moreover have "hex_val CHR ''0'' = Some 0" by code_simp
  ultimately show ?thesis by (simp add: hex4_def)
qed

lemma scan_string_char: "scan_string (json_char c @ rest) = map_option (\<lambda>(s, r). (c # s, r)) (scan_string rest)"
proof -
  have ctrl: "char_of (10 :: nat) = CHR 0x0A" "char_of (13 :: nat) = CHR 0x0D" "char_of (9 :: nat) = CHR 0x09"
    "char_of (12 :: nat) = CHR 0x0C" "char_of (8 :: nat) = CHR 0x08" by code_simp+
  have c: "code c = n \<Longrightarrow> c = char_of n" for n by (metis char_of_code)
  show ?thesis
    using c [of 10] c [of 13] c [of 9] c [of 12] c [of 8]
    by (simp add: json_char_def unescape_def hex2_def hex4_code code_less ctrl)
qed

lemma scan_string_chars: "scan_string (concat (map json_char s) @ quote_char # rest) = Some (s, rest)"
  by (induction s) (simp_all add: scan_string_char)

section \<open>Numbers\<close>

lemma stops_digits:
  assumes "stops rest"
  shows "takeWhile is_digit (ds @ rest) = takeWhile is_digit ds"
    and "dropWhile is_digit (ds @ rest) = dropWhile is_digit ds @ rest"
proof -
  have rest: "takeWhile is_digit rest = []" "dropWhile is_digit rest = rest"
    using assms by (cases rest; simp add: stops_def)+
  show "takeWhile is_digit (ds @ rest) = takeWhile is_digit ds"
    by (induction ds) (simp_all add: rest)
  show "dropWhile is_digit (ds @ rest) = dropWhile is_digit ds @ rest"
    by (induction ds) (simp_all add: rest)
qed

lemma scan_frac_stops: "stops rest \<Longrightarrow> scan_frac rest = ([], rest)"
  by (auto simp: scan_frac_def stops_def split: list.splits)

lemma scan_exp_stops: "stops rest \<Longrightarrow> scan_exp rest = ([], rest)"
  by (auto simp: scan_exp_def stops_def split: list.splits)

lemma scan_digits_append:
  "stops rest \<Longrightarrow> scan_digits s = Some (ds, r) \<Longrightarrow> scan_digits (s @ rest) = Some (ds, r @ rest)"
  using stops_digits [of rest s] by (auto simp: scan_digits_def split: list.splits if_splits)

lemma scan_frac_append:
  assumes "stops rest" and "scan_frac s = (fr, r)"
  shows "scan_frac (s @ rest) = (fr, r @ rest)"
proof (cases s)
  case Nil
  with assms scan_frac_stops show ?thesis by (auto simp: scan_frac_def)
next
  case (Cons c t)
  show ?thesis
  proof (cases t)
    case Nil
    with Cons assms show ?thesis by (auto simp: scan_frac_def stops_def split: list.splits)
  next
    case (Cons d u)
    with \<open>s = c # t\<close> assms stops_digits [OF assms(1), of t] show ?thesis
      by (auto simp: scan_frac_def split: if_splits)
  qed
qed

lemma scan_exp_append:
  assumes "stops rest" and "scan_exp s = (ex, [])"
  shows "scan_exp (s @ rest) = (ex, rest)"
proof (cases s)
  case Nil
  with assms scan_exp_stops show ?thesis by (auto simp: scan_exp_def)
next
  case (Cons c t)
  define sg where "sg = (case t of g # _ \<Rightarrow> if g = CHR ''+'' \<or> g = CHR ''-'' then [g] else [] | [] \<Rightarrow> [])"
  from assms(2) Cons have ex: "c = CHR ''e'' \<or> c = CHR ''E''" "takeWhile is_digit (drop (length sg) t) \<noteq> []"
    "ex = c # sg @ takeWhile is_digit (drop (length sg) t)" "dropWhile is_digit (drop (length sg) t) = []"
    by (auto simp: scan_exp_def Let_def sg_def [symmetric] split: if_splits)
  then have "t \<noteq> []" "length sg \<le> length t" by (auto simp: sg_def split: list.splits)
  then have "(case t @ rest of g # _ \<Rightarrow> if g = CHR ''+'' \<or> g = CHR ''-'' then [g] else [] | [] \<Rightarrow> []) = sg"
    "drop (length sg) (t @ rest) = drop (length sg) t @ rest"
    by (auto simp: sg_def split: list.splits)
  with Cons ex stops_digits [OF assms(1), of "drop (length sg) t"] show ?thesis
    by (simp add: scan_exp_def Let_def)
qed

lemma scan_number_float:
  assumes "stops rest" and "scan_number r = Some (PFloat r, [])"
  shows "scan_number (r @ rest) = Some (PFloat r, rest)"
proof -
  define neg where "neg = (r \<noteq> [] \<and> hd r = CHR ''-'')"
  define u where "u = (if neg then tl r else r)"
  obtain ds r1 where ds: "scan_digits u = Some (ds, r1)"
    using assms(2) by (auto simp: scan_number_def Let_def neg_def u_def split: option.splits)
  obtain fr r2 where fr: "scan_frac r1 = (fr, r2)" by fastforce
  obtain ex r3 where ex: "scan_exp r2 = (ex, r3)" by fastforce
  from assms(2) ds fr ex have v: "\<not> (fr = [] \<and> ex = [])" "(if neg then ''-'' else []) @ ds @ fr @ ex = r" "r3 = []"
    by (auto simp: scan_number_def Let_def neg_def u_def split: if_splits)
  from ds have "u \<noteq> []" by (auto simp: scan_digits_def)
  then have "r \<noteq> []" by (auto simp: u_def split: if_splits)
  then have "neg = (r @ rest \<noteq> [] \<and> hd (r @ rest) = CHR ''-'')" "u @ rest = (if neg then tl (r @ rest) else r @ rest)"
    by (auto simp: neg_def u_def)
  with scan_digits_append [OF assms(1) ds] scan_frac_append [OF assms(1) fr]
    scan_exp_append [OF assms(1), of r2 ex] ex v show ?thesis
    by (simp add: scan_number_def Let_def)
qed

lemma nat_dec_hd: "0 < n \<Longrightarrow> hd (nat_dec n) \<noteq> CHR ''0''"
proof (induction n rule: nat_dec.induct)
  case (1 n)
  have zero: "digit_char d \<noteq> CHR ''0''" if "0 < d" "d < 10" for d
  proof
    assume "digit_char d = CHR ''0''"
    then have "digit_val (digit_char d) = 0" by (simp only:) code_simp
    with that show False by simp
  qed
  show ?case
  proof (cases "n < 10")
    case True
    with 1 zero show ?thesis by (subst nat_dec.simps) simp
  next
    case False
    with 1 show ?thesis by (subst nat_dec.simps) (simp add: hd_append)
  qed
qed

lemma scan_digits_nat_dec: "stops rest \<Longrightarrow> scan_digits (nat_dec n @ rest) = Some (nat_dec n, rest)"
proof (rule scan_digits_append [of rest "nat_dec n" "nat_dec n" "[]", simplified])
  have all: "takeWhile is_digit (nat_dec n) = nat_dec n" "dropWhile is_digit (nat_dec n) = []"
    using nat_dec_digits [of n] by (simp_all add: takeWhile_eq_all_conv dropWhile_all)
  show "scan_digits (nat_dec n) = Some (nat_dec n, [])"
  proof (cases "n = 0")
    case True
    show ?thesis unfolding True by code_simp
  next
    case False
    then obtain c cs where c: "nat_dec n = c # cs" "c \<noteq> CHR ''0''"
      using nat_dec_hd [of n] nat_dec_ne [of n] by (cases "nat_dec n") auto
    with nat_dec_digits [of n] all show ?thesis by (simp add: scan_digits_def)
  qed
qed

lemma scan_number_int:
  assumes "stops rest"
  shows "scan_number (int_dec i @ rest) = Some (PInt i, rest)"
proof -
  have "\<forall>c \<in> set (nat_dec n). c \<noteq> CHR ''-''" for n using nat_dec_digits [of n] by (auto simp: is_digit_def code_def)
  then have hd: "hd (nat_dec n @ rest) \<noteq> CHR ''-''" for n using nat_dec_ne [of n] by (metis hd_append2 hd_in_set)
  show ?thesis
    using scan_digits_nat_dec [OF assms] scan_frac_stops [OF assms] scan_exp_stops [OF assms] hd
    by (simp add: scan_number_def int_dec_def)
qed

definition numeric_start :: "string \<Rightarrow> bool" where
  "numeric_start s = (case s of [] \<Rightarrow> False
     | c # r \<Rightarrow> is_digit c \<or> c = CHR ''-'' \<and> r \<noteq> [] \<and> is_digit (hd r))"

lemma scan_literal_number:
  assumes "numeric_start s"
  shows "scan_literal s = scan_number s"
proof -
  have "\<not> prefix w s" if "(w, v) \<in> set literals" for w v
    using assms that by (cases s; cases "tl s") (auto simp: literals_def numeric_start_def is_digit_def code_def)
  then have "filter (\<lambda>(w, _). prefix w s) literals = []" by (auto simp: filter_empty_conv)
  then show ?thesis by (simp add: scan_literal_def)
qed

lemma numeric_start_int: "numeric_start (int_dec i @ rest)"
proof -
  have "numeric_start (nat_dec n @ rest)" "numeric_start (CHR ''-'' # nat_dec n @ rest)" for n
    using nat_dec_digits [of n] by (cases "nat_dec n"; simp add: numeric_start_def)+
  then show ?thesis by (simp add: int_dec_def)
qed

lemma numeric_start_float:
  assumes "scan_number r = Some v"
  shows "numeric_start (r @ rest)"
proof (cases r)
  case Nil
  with assms show ?thesis by (auto simp: scan_number_def scan_digits_def)
next
  case (Cons c t)
  have "is_digit CHR ''0''" by code_simp
  moreover from assms Cons have "scan_digits (if c = CHR ''-'' then t else r) \<noteq> None"
    by (auto simp: scan_number_def Let_def split: option.splits)
  ultimately have "is_digit c \<or> c = CHR ''-'' \<and> t \<noteq> [] \<and> is_digit (hd t)"
    using Cons by (auto simp: scan_digits_def split: if_splits list.splits)
  with Cons show ?thesis by (auto simp: numeric_start_def)
qed

lemma scan_value_number:
  assumes "numeric_start s"
  shows "scan_value (Suc n) s = scan_number s"
  using assms scan_literal_number [OF assms]
  by (cases s) (auto simp: numeric_start_def is_digit_def code_def)

lemma numeric_start_hd:
  "numeric_start s \<Longrightarrow> s \<noteq> [] \<and> \<not> json_ws (hd s) \<and> hd s \<noteq> CHR '']'' \<and> hd s \<noteq> CHR ''}''"
  by (auto simp: numeric_start_def json_ws_def is_digit_def code_def split: list.splits)

section \<open>Scalars\<close>

lemma reads_number:
  assumes "numeric_start t" and "\<And>rest. stops rest \<Longrightarrow> numeric_start (t @ rest)"
    and "\<And>rest. stops rest \<Longrightarrow> scan_number (t @ rest) = Some (v, rest)"
  shows "reads v t"
  unfolding reads_def
proof (intro conjI allI impI)
  fix n rest assume "length t \<le> n" "stops rest"
  moreover from numeric_start_hd [OF assms(1)] have "0 < length t" by simp
  ultimately obtain m where "n = Suc m" by (cases n) auto
  with assms(2, 3) \<open>stops rest\<close> show "scan_value n (t @ rest) = Some (v, rest)" by (simp only: scan_value_number)
qed (use numeric_start_hd [OF assms(1)] in auto)

lemma reads_int: "reads (PInt i) (int_dec i)"
  using numeric_start_int [of i "[]"] by (intro reads_number) (simp_all add: numeric_start_int scan_number_int)

lemma literal_cases:
  assumes "(w, v) \<in> set literals"
  obtains "w = ''null''" "v = PNone" | "w = ''true''" "v = PBool True" | "w = ''false''" "v = PBool False"
  | "w = ''NaN''" "v = PFloat ''nan''" | "w = ''Infinity''" "v = PFloat ''inf''" | "w = ''-Infinity''" "v = PFloat ''-inf''"
  using assms unfolding literals_def list.set insert_iff empty_iff prod.inject by (elim disjE conjE) simp_all

lemma scan_literal_word:
  assumes "(w, v) \<in> set literals"
  shows "scan_literal (w @ rest) = Some (v, rest)"
  using assms by (cases rule: literal_cases) (simp_all add: scan_literal_def literals_def)

lemma literal_start:
  assumes "(w, v) \<in> set literals"
  shows "w \<noteq> [] \<and> \<not> json_ws (hd w) \<and> hd w \<notin> {CHR '']'', CHR ''}'', quote_char, CHR ''['', CHR ''{''}"
  using assms by (cases rule: literal_cases) (simp_all add: json_ws_def code_def)

lemma reads_literal:
  assumes "(w, v) \<in> set literals"
  shows "reads v w"
  unfolding reads_def
proof (intro conjI allI impI)
  fix n rest assume le: "length w \<le> n"
  obtain c cs where w: "w = c # cs" using literal_start [OF assms] by (cases w) auto
  with le obtain m where n: "n = Suc m" by (cases n) auto
  have "c \<notin> {quote_char, CHR ''['', CHR ''{''}" using literal_start [OF assms] w by simp
  with scan_literal_word [OF assms, of rest] show "scan_value n (w @ rest) = Some (v, rest)"
    by (simp add: n w)
qed (use literal_start [OF assms] in auto)

lemma reads_float:
  assumes "json_float_ok r"
  shows "reads (PFloat r) (json_float r)"
proof (cases "r \<in> {''nan'', ''inf'', ''-inf''}")
  case True
  then have "(json_float r, PFloat r) \<in> set literals" by (auto simp: json_float_def literals_def)
  then show ?thesis by (rule reads_literal)
next
  case False
  with assms have num: "scan_number r = Some (PFloat r, [])" by (simp add: json_float_ok_def)
  from False have "json_float r = r" by (simp add: json_float_def)
  with num show ?thesis
    using numeric_start_float [OF num, of "[]"]
    by (auto intro!: reads_number simp: numeric_start_float [OF num] scan_number_float)
qed

lemma reads_str: "reads (PStr s) (json_str s)"
  unfolding reads_def
proof (intro conjI allI impI)
  fix n rest assume "length (json_str s) \<le> n"
  then obtain m where "n = Suc m" by (cases n) (auto simp: json_str_def)
  then show "scan_value n (json_str s @ rest) = Some (PStr s, rest)"
    by (simp add: json_str_def scan_string_chars)
qed (auto simp: json_str_def json_ws_def code_def)

section \<open>Arrays and objects\<close>

lemma skip_ws_append: "list_all json_ws w \<Longrightarrow> skip_ws (w @ s) = skip_ws s"
  by (induction w) (simp_all add: skip_ws_def)

lemma skip_ws_hd: "s \<noteq> [] \<Longrightarrow> \<not> json_ws (hd s) \<Longrightarrow> skip_ws (s @ r) = s @ r"
  by (cases s) (simp_all add: skip_ws_def)

lemma skip_ws_Cons: "\<not> json_ws c \<Longrightarrow> skip_ws (c # r) = c # r"
  by (simp add: skip_ws_def)

lemma punctuation_not_ws:
  "\<not> json_ws CHR '']''" "\<not> json_ws CHR ''}''" "\<not> json_ws CHR '',''" "\<not> json_ws CHR '':''" "\<not> json_ws quote_char"
  by (simp_all add: json_ws_def code_def)

lemma ws_stops: "json_ws c \<Longrightarrow> stops (c # r)"
  by (auto simp: stops_def json_ws_def is_digit_def code_def)

lemma stops_punctuation: "stops (CHR '']'' # r)" "stops (CHR ''}'' # r)" "stops (CHR '','' # r)"
  by (simp_all add: stops_def is_digit_def code_def)

lemma stops_after_ws: "list_all json_ws w \<Longrightarrow> stops r \<Longrightarrow> stops (w @ r)"
  by (cases w) (simp_all add: ws_stops)

lemma sep_okE:
  assumes "sep_ok c s"
  obtains w where "s = c # w" "list_all json_ws w"
  using assms by (cases s) (auto simp: sep_ok_def)

lemma sep_ok_append: "sep_ok c s \<Longrightarrow> list_all json_ws w \<Longrightarrow> sep_ok c (s @ w)"
  by (cases s) (simp_all add: sep_ok_def)

lemma newline_ws: "list_all json_ws (newline_at st level)"
  by (cases "indent st") (simp_all add: newline_at_def json_ws_def code_def list_all_iff)

lemma readsD:
  assumes "reads v t"
  shows "t \<noteq> []" "\<not> json_ws (hd t)" "hd t \<noteq> CHR '']''" "hd t \<noteq> CHR ''}''"
    and "length t \<le> n \<Longrightarrow> stops r \<Longrightarrow> scan_value n (t @ r) = Some (v, r)"
  using assms unfolding reads_def by blast+

lemma scan_elements_join:
  assumes "sep_ok CHR '','' sep" and "list_all json_ws w"
  shows "list_all2 reads vs ts \<Longrightarrow> ts \<noteq> [] \<Longrightarrow> length (py_join sep ts) < n \<Longrightarrow>
    scan_elements n (py_join sep ts @ w @ CHR '']'' # rest) = Some (vs, rest)"
proof (induction ts arbitrary: vs n rule: induct_list012)
  case (2 t)
  then obtain v m where v: "vs = [v]" "reads v t" "n = Suc m" "length t \<le> m" by (cases n) (auto simp: list_all2_Cons2)
  have "scan_value m (t @ w @ CHR '']'' # rest) = Some (v, w @ CHR '']'' # rest)"
    by (intro readsD(5) v stops_after_ws assms stops_punctuation)
  then show ?case by (simp add: v skip_ws_append [OF assms(2)] skip_ws_Cons punctuation_not_ws)
next
  case (3 t u us)
  then obtain v vs' m where v: "vs = v # vs'" "reads v t" "list_all2 reads vs' (u # us)" "n = Suc m"
    by (cases n) (auto simp: list_all2_Cons2)
  obtain a where a: "sep = CHR '','' # a" "list_all json_ws a" using assms(1) by (rule sep_okE)
  have len: "length t + length sep + length (py_join sep (u # us)) \<le> m" using "3.prems"(3) v(4) by simp
  let ?more = "py_join sep (u # us) @ w @ CHR '']'' # rest"
  have first: "scan_value m (t @ sep @ ?more) = Some (v, sep @ ?more)"
    unfolding a(1) append_Cons using len by (intro readsD(5) v stops_punctuation) simp
  have u: "reads (hd vs') u" using v(3) by (auto simp: list_all2_Cons2)
  have "py_join sep (u # us) = u @ tl (py_join sep (u # us)) \<or> (\<exists>x. py_join sep (u # us) = u @ x)"
    by (cases us) auto
  then obtain x where x: "py_join sep (u # us) = u @ x" by blast
  have skip: "skip_ws (a @ ?more) = ?more"
    unfolding x append_assoc skip_ws_append [OF a(2)] by (intro skip_ws_hd readsD(1, 2) [OF u])
  have "scan_elements m ?more = Some (vs', rest)"
    using len a(1) by (intro "3.IH"(2) v(3)) simp_all
  then show ?case using first skip
    by (simp add: v(1, 4) a(1) skip_ws_Cons punctuation_not_ws)
qed simp

lemma reads_list:
  assumes "style_ok st" and "list_all2 reads vs ts"
  shows "reads (PList vs) (wrap_items st level CHR ''['' CHR '']'' ts)"
  unfolding reads_def
proof (intro conjI allI impI)
  fix n rest assume len: "length (wrap_items st level CHR ''['' CHR '']'' ts) \<le> n"
  show "scan_value n (wrap_items st level CHR ''['' CHR '']'' ts @ rest) = Some (PList vs, rest)"
  proof (cases "ts = []")
    case True
    with len assms(2) show ?thesis by (cases n) (auto simp: wrap_items_def skip_ws_Cons punctuation_not_ws)
  next
    case False
    let ?sep = "item_sep st @ newline_at st (Suc level)"
    let ?body = "py_join ?sep ts @ newline_at st level @ CHR '']'' # rest"
    obtain m where m: "n = Suc m" "length (py_join ?sep ts) < m"
      using len False by (cases n) (auto simp: wrap_items_def)
    have sep: "sep_ok CHR '','' ?sep"
      using assms(1) by (auto simp: style_ok_def intro: sep_ok_append newline_ws)
    obtain t us v where t: "ts = t # us" "reads v t" using False assms(2) by (cases ts) (auto simp: list_all2_Cons2)
    obtain x where x: "py_join ?sep ts = t @ x" by (cases us) (auto simp: t(1))
    have skip: "skip_ws (newline_at st (Suc level) @ ?body) = ?body"
      unfolding x append_assoc skip_ws_append [OF newline_ws] by (intro skip_ws_hd readsD(1, 2) [OF t(2)])
    obtain c r where c: "?body = c # r" "c \<noteq> CHR '']''"
      using readsD(1, 3) [OF t(2)] unfolding x by (cases t) auto
    have "scan_elements m ?body = Some (vs, rest)"
      by (rule scan_elements_join [OF sep newline_ws assms(2) False m(2)])
    with skip c show ?thesis using False by (simp add: wrap_items_def m(1))
  qed
qed (auto simp: wrap_items_def json_ws_def code_def)

definition member_text :: "json_style \<Rightarrow> string \<times> string \<Rightarrow> string" where
  "member_text st m = (case m of (k, t) \<Rightarrow> json_str k @ key_sep st @ t)"

lemma scan_member:
  assumes "style_ok st" and "reads v t" and "length t \<le> m" and "stops r"
  obtains c r1 r2 where "member_text st (k, t) @ r = quote_char # c" "scan_string c = Some (k, r1)"
    "skip_ws r1 = CHR '':'' # r2" "scan_value m (skip_ws r2) = Some (v, r)"
proof -
  obtain a where a: "key_sep st = CHR '':'' # a" "list_all json_ws a"
    using assms(1) unfolding style_ok_def by (blast elim: sep_okE)
  have "skip_ws (a @ t @ r) = t @ r"
    unfolding skip_ws_append [OF a(2)] by (intro skip_ws_hd readsD(1, 2) [OF assms(2)])
  with readsD(5) [OF assms(2-4)] show thesis
    by (intro that [of "concat (map json_char k) @ quote_char # key_sep st @ t @ r" "key_sep st @ t @ r" "a @ t @ r"])
      (simp_all add: member_text_def json_str_def scan_string_chars a(1) skip_ws_Cons punctuation_not_ws)
qed

lemma scan_members_join:
  assumes "style_ok st" and "sep_ok CHR '','' sep" and "list_all json_ws w"
  shows "list_all2 reads vs ts \<Longrightarrow> length ks = length ts \<Longrightarrow> ts \<noteq> [] \<Longrightarrow>
    distinct (map fst acc @ map PStr ks) \<Longrightarrow>
    length (py_join sep (map (member_text st) (zip ks ts))) < n \<Longrightarrow>
    scan_members n acc (py_join sep (map (member_text st) (zip ks ts)) @ w @ CHR ''}'' # rest) =
      Some (acc @ zip (map PStr ks) vs, rest)"
proof (induction ts arbitrary: vs ks n acc rule: induct_list012)
  case (2 t)
  then obtain v k m where v: "vs = [v]" "reads v t" "ks = [k]" "n = Suc m" "length t \<le> m"
    by (cases n; cases ks) (auto simp: list_all2_Cons2 member_text_def)
  obtain c r1 r2 where c: "member_text st (k, t) @ w @ CHR ''}'' # rest = quote_char # c" "scan_string c = Some (k, r1)"
    "skip_ws r1 = CHR '':'' # r2" "scan_value m (skip_ws r2) = Some (v, w @ CHR ''}'' # rest)"
    using assms(1) v(2, 5) stops_after_ws [OF assms(3) stops_punctuation(2)] by (rule scan_member)
  with "2.prems"(4) show ?case
    by (simp add: v skip_ws_append [OF assms(3)] skip_ws_Cons punctuation_not_ws Let_def update_new)
next
  case (3 t u us)
  then obtain v vs' k k' ks' m where v: "vs = v # vs'" "reads v t" "list_all2 reads vs' (u # us)" "ks = k # k' # ks'" "n = Suc m"
    by (cases n; cases ks; cases "tl ks") (auto simp: list_all2_Cons2)
  obtain a where a: "sep = CHR '','' # a" "list_all json_ws a" using assms(2) by (rule sep_okE)
  let ?join = "py_join sep (map (member_text st) (zip (k' # ks') (u # us)))"
  let ?more = "?join @ w @ CHR ''}'' # rest"
  have body: "py_join sep (map (member_text st) (zip ks (t # u # us))) = member_text st (k, t) @ sep @ ?join" by (simp add: v)
  have "length t \<le> length (member_text st (k, t))" "0 < length sep" by (simp_all add: member_text_def a(1))
  then have len: "length t \<le> m" "length ?join < m"
    using "3.prems"(5) unfolding body length_append v(5) by linarith+
  obtain c r1 r2 where c: "member_text st (k, t) @ sep @ ?more = quote_char # c" "scan_string c = Some (k, r1)"
    "skip_ws r1 = CHR '':'' # r2" "scan_value m (skip_ws r2) = Some (v, sep @ ?more)"
    using assms(1) v(2) len(1) unfolding a(1) append_Cons by (rule scan_member) (rule stops_punctuation)
  have "\<exists>x. ?join = quote_char # x" by (cases us; cases ks') (auto simp: member_text_def json_str_def)
  then have skip: "skip_ws (a @ ?more) = ?more"
    unfolding skip_ws_append [OF a(2)] by (auto simp: skip_ws_Cons punctuation_not_ws)
  have new: "AList.update (PStr k) v acc = acc @ [(PStr k, v)]"
    using "3.prems"(4) by (intro update_new) (auto simp: v)
  have "scan_members m (acc @ [(PStr k, v)]) ?more = Some ((acc @ [(PStr k, v)]) @ zip (map PStr (k' # ks')) vs', rest)"
    using "3.prems"(2, 4) by (intro "3.IH"(2) v(3) len(2)) (simp_all add: v)
  with c skip new show ?case
    unfolding body append_assoc by (simp add: v(1, 4, 5) a(1) skip_ws_Cons punctuation_not_ws Let_def)
qed simp

lemma reads_dict:
  assumes "style_ok st" and "list_all2 reads vs ts" and "length ks = length ts" and "distinct ks"
  shows "reads (PDict (zip (map PStr ks) vs)) (wrap_items st level CHR ''{'' CHR ''}'' (map (member_text st) (zip ks ts)))"
  unfolding reads_def
proof (intro conjI allI impI)
  let ?ms = "map (member_text st) (zip ks ts)"
  fix n rest assume len: "length (wrap_items st level CHR ''{'' CHR ''}'' ?ms) \<le> n"
  show "scan_value n (wrap_items st level CHR ''{'' CHR ''}'' ?ms @ rest) = Some (PDict (zip (map PStr ks) vs), rest)"
  proof (cases "ts = []")
    case True
    with len assms show ?thesis by (cases n) (auto simp: wrap_items_def skip_ws_Cons punctuation_not_ws)
  next
    case False
    let ?sep = "item_sep st @ newline_at st (Suc level)"
    let ?body = "py_join ?sep ?ms @ newline_at st level @ CHR ''}'' # rest"
    have ne: "?ms \<noteq> []" using False assms(3) by auto
    obtain m where m: "n = Suc m" "length (py_join ?sep ?ms) < m"
      using len ne by (cases n) (auto simp: wrap_items_def)
    have sep: "sep_ok CHR '','' ?sep"
      using assms(1) by (auto simp: style_ok_def intro: sep_ok_append newline_ws)
    obtain k ks' t ts' where "ks = k # ks'" "ts = t # ts'" using False assms(3) by (cases ks; cases ts) auto
    then obtain x where x: "py_join ?sep ?ms = quote_char # x"
      by (cases "zip ks' ts'") (auto simp: member_text_def json_str_def)
    have "scan_members m [] ?body = Some ([] @ zip (map PStr ks) vs, rest)"
      using assms(4) False by (intro scan_members_join [OF assms(1) sep newline_ws assms(2, 3)] m(2))
        (simp_all add: distinct_map inj_on_def)
    then show ?thesis using ne x
      by (simp add: wrap_items_def m(1) skip_ws_append [OF newline_ws] skip_ws_Cons punctuation_not_ws)
  qed
qed (auto simp: wrap_items_def json_ws_def code_def)

section \<open>The round trip\<close>

lemma py_is_strD: "py_is_str k \<Longrightarrow> \<exists>s. k = PStr s"
  by (cases k) simp_all

lemma insort_key_map: "insort_key f (g x) (map g xs) = map g (insort_key (\<lambda>y. f (g y)) x xs)"
  by (induction xs) simp_all

lemma sort_key_map: "sort_key f (map g xs) = map g (sort_key (\<lambda>y. f (g y)) xs)"
  by (induction xs) (simp_all add: insort_key_map)

definition arrange_members :: "json_style \<Rightarrow> (pyval, 'v) dict \<Rightarrow> (pyval, 'v) dict" where
  "arrange_members st kvs = (if sort_keys st then sort_key (\<lambda>p. py_str (fst p)) kvs else kvs)"

lemma json_view_PDict:
  "json_view st (PDict kvs) = PDict (map (\<lambda>(k, v). (k, json_view st v)) (arrange_members st kvs))"
  by (simp add: json_view_def arrange_members_def sort_key_map case_prod_beta)

lemma json_view_PList: "json_view st (PList xs) = PList (map (json_view st) xs)"
  by (cases "sort_keys st") (simp_all add: json_view_def map_idI)

lemma json_view_scalar:
  "json_view st PNone = PNone" "json_view st (PBool b) = PBool b" "json_view st (PInt i) = PInt i"
  "json_view st (PFloat r) = PFloat r" "json_view st (PStr s) = PStr s"
  by (simp_all add: json_view_def)

lemma arrange_pairs:
  "arrange st (map (\<lambda>p. (py_str (fst p), f p)) kvs) = map (\<lambda>p. (py_str (fst p), f p)) (arrange_members st kvs)"
  by (simp add: arrange_def arrange_members_def sort_key_map)

lemma arrange_members_set: "set (arrange_members st kvs) = set kvs"
  by (simp add: arrange_members_def)

lemma arrange_members_keys: "dict_ok kvs \<Longrightarrow> dict_ok (arrange_members st kvs)"
  by (simp add: arrange_members_def distinct_map)

lemma dumps_reads:
  assumes "style_ok st"
  shows "json_ok v \<Longrightarrow> \<exists>t. dumps_at st level v = Inr t \<and> reads (json_view st v) t"
proof (induction v arbitrary: level)
  case (PList xs)
  have "\<forall>x \<in> set xs. \<exists>t. dumps_at st (Suc level) x = Inr t \<and> reads (json_view st x) t"
    using PList by (auto simp: list_all_iff)
  then obtain f where f: "\<And>x. x \<in> set xs \<Longrightarrow> dumps_at st (Suc level) x = Inr (f x) \<and> reads (json_view st x) (f x)"
    by metis
  then have "res_mapM (dumps_at st (Suc level)) xs = Inr (map f xs)" by (intro res_mapM_ok) simp
  moreover have "list_all2 reads (map (json_view st) xs) (map f xs)"
    using f by (simp add: list_all2_map1 list_all2_map2 list_all2_same)
  ultimately show ?case using reads_list [OF assms] by (simp add: json_view_PList)
next
  case (PDict kvs)
  have "\<forall>p \<in> set kvs. \<exists>t. dumps_at st (Suc level) (snd p) = Inr t \<and> reads (json_view st (snd p)) t"
    using PDict by (auto simp: list_all_iff snds.simps)
  then obtain f where f: "\<And>p. p \<in> set kvs \<Longrightarrow> dumps_at st (Suc level) (snd p) = Inr (f p) \<and> reads (json_view st (snd p)) (f p)"
    by metis
  let ?arr = "arrange_members st kvs"
  let ?ks = "map (\<lambda>p. py_str (fst p)) ?arr" and ?vs = "map (\<lambda>p. json_view st (snd p)) ?arr" and ?ts = "map f ?arr"
  have keys: "\<And>p. p \<in> set kvs \<Longrightarrow> \<exists>k. fst p = PStr k" and dict: "dict_ok kvs"
    using PDict.prems by (auto simp: list_all_iff dest!: bspec dest: py_is_strD)
  have "res_mapM (\<lambda>(k, v). res_bind (json_key k) (\<lambda>ks. res_bind (dumps_at st (Suc level) v) (\<lambda>vs. Inr (ks, vs)))) kvs
      = Inr (map (\<lambda>p. (py_str (fst p), f p)) kvs)"
    using f keys by (intro res_mapM_ok) (force simp: json_key_def)
  moreover have "list_all (\<lambda>(k, _). py_is_str k) kvs" using PDict.prems by (auto simp: list_all_iff)
  moreover have "map (\<lambda>(k, v). json_str k @ key_sep st @ v) (map (\<lambda>p. (py_str (fst p), f p)) ?arr) = map (member_text st) (zip ?ks ?ts)"
    by (simp add: zip_map_map zip_same_conv_map member_text_def case_prod_beta)
  ultimately have written: "dumps_at st level (PDict kvs) = Inr (wrap_items st level CHR ''{'' CHR ''}'' (map (member_text st) (zip ?ks ?ts)))"
    by (simp add: arrange_pairs)
  have "map PStr ?ks = map fst ?arr" using keys by (force simp: arrange_members_set)
  moreover from this have "distinct ?ks"
    using arrange_members_keys [OF dict, of st] by (metis distinct_map)
  moreover have "list_all2 reads ?vs ?ts"
    using f by (simp add: list_all2_map1 list_all2_map2 list_all2_same arrange_members_set)
  ultimately have "reads (PDict (zip (map fst ?arr) ?vs)) (wrap_items st level CHR ''{'' CHR ''}'' (map (member_text st) (zip ?ks ?ts)))"
    using reads_dict [OF assms, of ?vs ?ts ?ks level] by (simp only: length_map)
  moreover have "zip (map fst ?arr) ?vs = map (\<lambda>(k, v). (k, json_view st v)) ?arr"
    by (simp add: zip_map_map zip_same_conv_map case_prod_beta)
  ultimately show ?case using written by (simp add: json_view_PDict)
qed (use assms in \<open>auto simp: json_view_scalar reads_int reads_float reads_str intro: reads_literal simp: literals_def\<close>)

lemma loads_reads:
  assumes "reads v t"
  shows "json_loads t = Inr v"
proof -
  have "skip_ws t = t" using skip_ws_hd [OF readsD(1, 2) [OF assms], of "[]"] by simp
  moreover have "scan_value (2 * length t + 2) (t @ []) = Some (v, [])"
    by (rule readsD(5) [OF assms]) (simp_all add: stops_def)
  ultimately show ?thesis by (simp add: json_loads_def skip_ws_def del: scan_value.simps)
qed

theorem json_roundtrip:
  assumes "style_ok st" and "json_ok v"
  shows "\<exists>t. json_dumps st v = Inr t \<and> json_loads t = Inr (json_view st v)"
  using dumps_reads [OF assms, of 0] loads_reads unfolding json_dumps_def by blast

lemma style_oks [simp]: "style_ok plain_style" "style_ok sorted_style" "style_ok compact_style" "style_ok pretty_style"
  by code_simp+

lemma style_sorts [simp]: "\<not> sort_keys plain_style" "sort_keys sorted_style" "sort_keys compact_style" "sort_keys pretty_style"
  by (simp_all add: plain_style_def sorted_style_def compact_style_def pretty_style_def)

text \<open>Sorting the keys again changes nothing, so the text of the value read back is the text written.\<close>

lemma dumps_PDict:
  assumes "\<And>p. p \<in> set kvs \<Longrightarrow> py_is_str (fst p) \<and> dumps_at st (Suc level) (snd p) = Inr (f p)"
  shows "dumps_at st level (PDict kvs) = Inr (wrap_items st level CHR ''{'' CHR ''}''
    (map (\<lambda>(k, v). json_str k @ key_sep st @ v) (arrange st (map (\<lambda>p. (py_str (fst p), f p)) kvs))))"
proof -
  have "res_mapM (\<lambda>(k, v). res_bind (json_key k) (\<lambda>ks. res_bind (dumps_at st (Suc level) v) (\<lambda>vs. Inr (ks, vs)))) kvs
      = Inr (map (\<lambda>p. (py_str (fst p), f p)) kvs)"
    using assms by (intro res_mapM_ok) (force simp: json_key_def dest: py_is_strD)
  moreover have "list_all (\<lambda>(k, _). py_is_str k) kvs" using assms by (fastforce simp: list_all_iff)
  ultimately show ?thesis by simp
qed

lemma key_sorted_ok: "json_ok v \<Longrightarrow> json_ok (key_sorted v)"
proof (induction v)
  case (PDict kvs)
  then show ?case by (force simp: list_all_iff distinct_map snds.simps image_iff inj_on_def)
qed (simp_all add: list_all_iff)

lemma dumps_key_sorted:
  assumes "style_ok st" and "sort_keys st"
  shows "json_ok v \<Longrightarrow> dumps_at st level (key_sorted v) = dumps_at st level v"
proof (induction v arbitrary: level)
  case (PList xs)
  then have "res_mapM (dumps_at st (Suc level)) (map key_sorted xs) = res_mapM (dumps_at st (Suc level)) xs"
    by (induction xs) simp_all
  then show ?case by simp
next
  case (PDict kvs)
  have "\<forall>p \<in> set kvs. py_is_str (fst p) \<and> (\<exists>t. dumps_at st (Suc level) (snd p) = Inr t)"
    using PDict.prems dumps_reads [OF assms(1)] by (fastforce simp: list_all_iff)
  then obtain f where f: "\<And>p. p \<in> set kvs \<Longrightarrow> py_is_str (fst p) \<and> dumps_at st (Suc level) (snd p) = Inr (f p)"
    by metis
  have IH: "dumps_at st (Suc level) (key_sorted (snd p)) = Inr (f p)" if "p \<in> set kvs" for p
    using PDict.IH [of p "snd p"] PDict.prems that f [OF that] by (auto simp: list_all_iff snds.simps)
  define f' where "f' p = projr (dumps_at st (Suc level) (snd p))" for p :: "pyval \<times> pyval"
  let ?g = "\<lambda>p. (fst p, key_sorted (snd p))"
  let ?kvs = "sort_key (\<lambda>p. py_str (fst p)) (map ?g kvs)"
  have f': "py_is_str (fst q) \<and> dumps_at st (Suc level) (snd q) = Inr (f' q)" if "q \<in> set ?kvs" for q
    using that IH f by (auto simp: f'_def)
  have "map (\<lambda>p. (py_str (fst p), f' p)) ?kvs = map (\<lambda>p. (py_str (fst p), f p)) (sort_key (\<lambda>p. py_str (fst p)) kvs)"
    using IH by (simp add: sort_key_map f'_def)
  also have "\<dots> = sort_key fst (map (\<lambda>p. (py_str (fst p), f p)) kvs)"
    by (simp add: sort_key_map)
  finally have "arrange st (map (\<lambda>p. (py_str (fst p), f' p)) ?kvs) = arrange st (map (\<lambda>p. (py_str (fst p), f p)) kvs)"
    by (simp add: arrange_def assms(2) sort_key_id_if_sorted)
  moreover have "dumps_at st level (PDict ?kvs) = Inr (wrap_items st level CHR ''{'' CHR ''}''
      (map (\<lambda>(k, v). json_str k @ key_sep st @ v) (arrange st (map (\<lambda>p. (py_str (fst p), f' p)) ?kvs))))"
    by (rule dumps_PDict) (rule f')
  moreover have "dumps_at st level (PDict kvs) = Inr (wrap_items st level CHR ''{'' CHR ''}''
      (map (\<lambda>(k, v). json_str k @ key_sep st @ v) (arrange st (map (\<lambda>p. (py_str (fst p), f p)) kvs))))"
    by (rule dumps_PDict) (rule f)
  moreover have "key_sorted (PDict kvs) = PDict ?kvs" by (simp add: case_prod_unfold)
  ultimately show ?case by (simp only:)
qed simp_all

corollary json_dumps_stable: "json_ok v \<Longrightarrow> json_dumps sorted_style (key_sorted v) = json_dumps sorted_style v"
  unfolding json_dumps_def by (rule dumps_key_sorted) simp_all

section \<open>The fuel is enough\<close>

lemma skip_ws_length: "length (skip_ws s) \<le> length s"
  by (simp add: skip_ws_def length_dropWhile_le)

lemma scan_string_length:
  "scan_string s = Some (t, r) \<Longrightarrow> length r < length s"
  "scan_escape s = Some (t, r) \<Longrightarrow> length r < length s"
  "scan_hex s = Some (t, r) \<Longrightarrow> length r < length s"
  by (induction s and s and s arbitrary: t and t and t rule: scan_string_scan_escape_scan_hex.induct)
    (force split: if_splits option.splits bind_splits)+

lemma scan_frac_length: "scan_frac s = (a, r) \<Longrightarrow> length r \<le> length s"
  using length_dropWhile_le [of is_digit "tl s"] by (auto simp: scan_frac_def split: list.splits if_splits)

lemma scan_exp_length: "scan_exp s = (a, r) \<Longrightarrow> length r \<le> length s"
  by (auto simp: scan_exp_def Let_def split: list.splits if_splits intro: le_trans [OF length_dropWhile_le] le_SucI)

lemma scan_digits_length: "scan_digits s = Some (a, r) \<Longrightarrow> length r < length s"
  by (auto simp: scan_digits_def le_imp_less_Suc length_dropWhile_le split: list.splits if_splits)

lemma scan_number_length:
  assumes "scan_number s = Some (v, r)"
  shows "length r < length s"
proof -
  obtain ds r1 where ds: "scan_digits (if s \<noteq> [] \<and> hd s = CHR ''-'' then tl s else s) = Some (ds, r1)"
    using assms by (auto simp: scan_number_def Let_def split: option.splits)
  obtain fr r2 ex r3 where fr: "scan_frac r1 = (fr, r2)" "scan_exp r2 = (ex, r3)" by fastforce
  from assms ds fr have "r = r3" by (auto simp: scan_number_def Let_def split: if_splits)
  with scan_digits_length [OF ds] scan_frac_length [OF fr(1)] scan_exp_length [OF fr(2)]
  show ?thesis by (auto split: if_splits)
qed

lemma scan_literal_length:
  assumes "scan_literal s = Some (v, r)"
  shows "length r < length s"
proof (cases "filter (\<lambda>(w, _). prefix w s) literals")
  case Nil
  with assms show ?thesis by (simp add: scan_literal_def scan_number_length)
next
  case (Cons p ps)
  obtain w u where p: "p = (w, u)" by (cases p)
  have "p \<in> set (filter (\<lambda>(w, _). prefix w s) literals)" unfolding Cons by simp
  then have "(w, u) \<in> set literals" "prefix w s" by (simp_all add: p)
  with literal_start [of w u] have "w \<noteq> []" "length w \<le> length s" by (auto intro: prefix_length_le)
  moreover from this have "0 < length w" by simp
  moreover have "length r = length s - length w" using assms Cons p by (auto simp: scan_literal_def)
  ultimately show ?thesis by linarith
qed

definition shortens :: "(string \<Rightarrow> ('a \<times> string) option) \<Rightarrow> bool" where
  "shortens f = (\<forall>s x r. f s = Some (x, r) \<longrightarrow> length r < length s)"

lemma shortensD: "shortens f \<Longrightarrow> f s = Some (x, r) \<Longrightarrow> length r < length s"
  unfolding shortens_def by blast

lemma scan_value_shortens:
  assumes "shortens (scan_elements n)" and "shortens (scan_members n [])"
  shows "shortens (scan_value (Suc n))"
  unfolding shortens_def
proof (intro allI impI)
  fix s v r assume ok: "scan_value (Suc n) s = Some (v, r)"
  then obtain c t where s: "s = c # t" by (cases s) auto
  have le: "length (skip_ws t) < length s" using skip_ws_length [of t] s by simp
  consider "c = quote_char" | "c = CHR ''{''" | "c = CHR ''[''" | "c \<notin> {quote_char, CHR ''{'', CHR ''[''}" by blast
  then show "length r < length s"
  proof cases
    case 1
    then show ?thesis using ok s by (auto dest: scan_string_length(1))
  next
    case 2
    with ok s le show ?thesis
      by (auto split: list.splits if_splits dest!: shortensD [OF assms(2)])
  next
    case 3
    with ok s le show ?thesis
      by (auto split: list.splits if_splits dest!: shortensD [OF assms(1)])
  next
    case 4
    then show ?thesis using ok s scan_literal_length [of s v r] by simp
  qed
qed

lemma scan_elements_shortens:
  assumes "shortens (scan_value n)" and "shortens (scan_elements n)"
  shows "shortens (scan_elements (Suc n))"
  unfolding shortens_def
proof (intro allI impI)
  fix s vs r assume ok: "scan_elements (Suc n) s = Some (vs, r)"
  then obtain v r1 where v1: "scan_value n s = Some (v, r1)" by (cases "scan_value n s") auto
  with ok obtain d r2 where v: "scan_value n s = Some (v, r1)" "skip_ws r1 = d # r2"
    by (cases "skip_ws r1") auto
  with ok have rest: "r = r2 \<or> (\<exists>xs. scan_elements n (skip_ws r2) = Some (xs, r))"
    by (auto split: if_splits)
  from rest have "length r \<le> length r2"
    using skip_ws_length [of r2] by (auto dest!: shortensD [OF assms(2)])
  moreover have "length r2 < length r1" using skip_ws_length [of r1] v(2) by simp
  ultimately show "length r < length s" using shortensD [OF assms(1) v(1)] by linarith
qed

lemma scan_members_shortens:
  assumes "shortens (scan_value n)" and "\<And>acc. shortens (scan_members n acc)"
  shows "shortens (scan_members (Suc n) acc)"
  unfolding shortens_def
proof (intro allI impI)
  fix s kvs r assume ok: "scan_members (Suc n) acc s = Some (kvs, r)"
  then obtain c where s1: "s = quote_char # c" by (cases s) (auto split: if_splits)
  with ok obtain k r1 where s2: "scan_string c = Some (k, r1)" by (cases "scan_string c") auto
  with ok s1 obtain r2 where s3: "skip_ws r1 = CHR '':'' # r2" by (cases "skip_ws r1") (auto split: if_splits)
  with ok s1 s2 obtain v r3 where s4: "scan_value n (skip_ws r2) = Some (v, r3)" by (cases "scan_value n (skip_ws r2)") auto
  with ok s1 s2 s3 obtain e r4 where s5: "skip_ws r3 = e # r4" by (cases "skip_ws r3") auto
  note s = s1 s2 s3 s4 s5
  from ok s have rest: "r = r4 \<or> scan_members n (AList.update (PStr k) v acc) (skip_ws r4) = Some (kvs, r)"
    by (auto simp: Let_def split: if_splits)
  from rest have "length r \<le> length r4"
    using skip_ws_length [of r4] by (auto dest!: shortensD [OF assms(2)])
  moreover have "length r4 < length r3" using skip_ws_length [of r3] s(5) by simp
  moreover have "length r3 < length r2" using skip_ws_length [of r2] shortensD [OF assms(1) s(4)] by linarith
  moreover have "length r2 < length r1" using skip_ws_length [of r1] s(3) by simp
  moreover have "length r1 < length s" using scan_string_length(1) [OF s(2)] s(1) by simp
  ultimately show "length r < length s" by linarith
qed

lemma scan_shortens:
  "shortens (scan_value n) \<and> shortens (scan_elements n) \<and> (\<forall>acc. shortens (scan_members n acc))"
proof (induction n)
  case 0
  show ?case by (simp add: shortens_def)
next
  case (Suc n)
  then show ?case using scan_value_shortens scan_elements_shortens scan_members_shortens by blast
qed

lemma scan_value_stable:
  assumes "\<And>s. 2 * length s + 1 < n \<Longrightarrow> scan_elements (Suc n) s = scan_elements n s"
    and "\<And>s. 2 * length s + 1 < n \<Longrightarrow> scan_members (Suc n) [] s = scan_members n [] s"
    and "2 * length s < Suc n"
  shows "scan_value (Suc (Suc n)) s = scan_value (Suc n) s"
proof (cases s)
  case (Cons c t)
  then have len: "2 * length (skip_ws t) + 1 < n \<or> n = 0" using assms(3) skip_ws_length [of t] by simp
  show ?thesis
  proof (cases "skip_ws t")
    case Nil
    with Cons show ?thesis by (simp only: scan_value.simps list.case)
  next
    case (Cons d r)
    with len assms(3) \<open>s = c # t\<close> have "2 * length (d # r) + 1 < n" using skip_ws_length [of t] by simp
    from assms(1, 2) [OF this] show ?thesis
      unfolding \<open>s = c # t\<close> by (simp only: scan_value.simps list.case Cons)
  qed
qed simp

lemma scan_elements_stable:
  assumes "\<And>s. 2 * length s < n \<Longrightarrow> scan_value (Suc n) s = scan_value n s"
    and "\<And>s. 2 * length s + 1 < n \<Longrightarrow> scan_elements (Suc n) s = scan_elements n s"
    and "2 * length s + 1 < Suc n"
  shows "scan_elements (Suc (Suc n)) s = scan_elements (Suc n) s"
proof -
  have v: "scan_value (Suc n) s = scan_value n s" using assms(3) by (intro assms(1)) simp
  have "scan_elements (Suc n) (skip_ws r2) = scan_elements n (skip_ws r2)"
    if "scan_value n s = Some (x, r1)" "skip_ws r1 = d # r2" for x r1 d r2
  proof (rule assms(2))
    have "length r1 < length s" using that(1) scan_shortens [of n] by (blast dest: shortensD)
    moreover have "length r2 < length r1" using that(2) skip_ws_length [of r1] by simp
    ultimately show "2 * length (skip_ws r2) + 1 < n" using skip_ws_length [of r2] assms(3) by linarith
  qed
  then show ?thesis unfolding scan_elements.simps v
    by (intro Option.bind_cong refl) (auto split: list.splits prod.splits simp del: scan_elements.simps)
qed

lemma scan_members_stable:
  assumes "\<And>s. 2 * length s < n \<Longrightarrow> scan_value (Suc n) s = scan_value n s"
    and "\<And>acc s. 2 * length s + 1 < n \<Longrightarrow> scan_members (Suc n) acc s = scan_members n acc s"
    and "2 * length s + 1 < Suc n"
  shows "scan_members (Suc (Suc n)) acc s = scan_members (Suc n) acc s"
proof (cases "\<exists>c k r1 d r2. s = quote_char # c \<and> scan_string c = Some (k, r1) \<and> skip_ws r1 = d # r2")
  case False
  then show ?thesis
    by (cases s) (auto simp del: scan_members.simps(1) split: list.splits intro!: Option.bind_cong)
next
  case True
  then obtain c k r1 d r2 where s: "s = quote_char # c" "scan_string c = Some (k, r1)" "skip_ws r1 = d # r2" by blast
  have r2: "length r2 < length s" using scan_string_length(1) [OF s(2)] skip_ws_length [of r1] s(1, 3) by simp
  then have v: "scan_value (Suc n) (skip_ws r2) = scan_value n (skip_ws r2)"
    using skip_ws_length [of r2] assms(3) by (intro assms(1)) linarith
  have "scan_members (Suc n) acc' (skip_ws r4) = scan_members n acc' (skip_ws r4)"
    if "scan_value n (skip_ws r2) = Some (x, r3)" "skip_ws r3 = e # r4" for x r3 e r4 acc'
  proof (rule assms(2))
    have "length r3 < length (skip_ws r2)" using that(1) scan_shortens [of n] by (blast dest: shortensD)
    moreover have "length r4 < length r3" using that(2) skip_ws_length [of r3] by simp
    ultimately show "2 * length (skip_ws r4) + 1 < n"
      using skip_ws_length [of r2] skip_ws_length [of r4] r2 assms(3) by linarith
  qed
  then show ?thesis
    by (simp only: scan_members.simps(2) s list.case Option.bind_lunit prod.case v)
      (auto intro!: Option.bind_cong split: list.splits prod.splits simp: Let_def simp del: scan_members.simps)
qed

lemma scan_fuel:
  "(\<forall>s. 2 * length s < n \<longrightarrow> scan_value (Suc n) s = scan_value n s)
   \<and> (\<forall>s. 2 * length s + 1 < n \<longrightarrow> scan_elements (Suc n) s = scan_elements n s)
   \<and> (\<forall>acc s. 2 * length s + 1 < n \<longrightarrow> scan_members (Suc n) acc s = scan_members n acc s)"
proof (induction n)
  case (Suc n)
  then show ?case
    by (intro conjI allI impI scan_value_stable scan_elements_stable scan_members_stable) blast+
qed simp

text \<open>More fuel than the parser is given never changes what it returns.\<close>

theorem json_fuel_enough: "2 * length s < n \<Longrightarrow> scan_value (n + k) s = scan_value n s"
  by (induction k) (use scan_fuel in auto)

end
