(* ===== verification/AtomicIo.thy ===== *)
theory AtomicIo
  imports FileSys JsonCodec
begin

text \<open>
  Atomic replacement of files (\<open>engine/_atomic_io.py\<close>) and the root commit manifest
  (\<open>engine/_commit_manifest.py\<close>).  A file is published by writing a sibling \<open>.tmp\<close> and replacing
  the target; the swap of the commit manifest is the only step that commits a generation.  The
  manifest wraps its body with the digest of the body's sorted JSON text, and reading checks it.
\<close>

section \<open>Definitions\<close>

subsection \<open>Durability\<close>

definition normalize_durability :: "string option \<Rightarrow> bool res" where
  "normalize_durability value = (case value of
       None \<Rightarrow> Inr False
     | Some v \<Rightarrow>
         (let mode = py_lower (py_strip v) in
          if mode = [] \<or> mode = ''fast'' then Inr False
          else if mode = ''fsync'' then Inr True
          else Inl (ValueError ''durability must be one of'')))"

definition durability_from_env :: "(string, string) dict \<Rightarrow> bool res" where
  "durability_from_env env = normalize_durability (map_of env ''LODEDB_DURABILITY'')"

definition fsync_path :: "path \<Rightarrow> unit io" where
  "fsync_path p s = (if file_at s p = None then (Inl (FileNotFoundError (path_name p)), []) else (Inr (), [FsyncFile p]))"

definition fsync_dir :: "path \<Rightarrow> unit io" where
  "fsync_dir p s = (Inr (), if is_dir_at s p then [FsyncDir p] else [])"

definition durable_replace :: "path \<Rightarrow> path \<Rightarrow> bool \<Rightarrow> unit io" where
  "durable_replace tmp dst fsync =
     io_bind (io_when fsync (fsync_path tmp)) (\<lambda>_.
     io_bind (os_replace tmp dst) (\<lambda>_.
       io_when fsync (fsync_dir (butlast dst))))"

subsection \<open>The commit manifest\<close>

definition COMMIT_MANIFEST_SUFFIX :: string where "COMMIT_MANIFEST_SUFFIX = ''.commit.json''"
definition GEN_DIR_SUFFIX :: string where "GEN_DIR_SUFFIX = ''.gen''"
definition COMMIT_MANIFEST_SCHEMA_VERSION :: int where "COMMIT_MANIFEST_SCHEMA_VERSION = 1"
definition DEFAULT_EPOCHS_RETAINED :: int where "DEFAULT_EPOCHS_RETAINED = 3"

definition commit_manifest_path :: "path \<Rightarrow> string \<Rightarrow> path" where
  "commit_manifest_path d index_key = path_join d (index_key @ COMMIT_MANIFEST_SUFFIX)"

definition generation_dir :: "path \<Rightarrow> string \<Rightarrow> path" where
  "generation_dir d index_key = path_join d (index_key @ GEN_DIR_SUFFIX)"

definition base_json_path :: "path \<Rightarrow> string \<Rightarrow> int \<Rightarrow> path" where
  "base_json_path d index_key epoch = path_join (generation_dir d index_key) (''g'' @ int_dec epoch @ ''.json'')"

definition base_tvim_path :: "path \<Rightarrow> string \<Rightarrow> int \<Rightarrow> path" where
  "base_tvim_path d index_key epoch = path_join (generation_dir d index_key) (''g'' @ int_dec epoch @ ''.tvim'')"

definition base_tvtext_path :: "path \<Rightarrow> string \<Rightarrow> int \<Rightarrow> path" where
  "base_tvtext_path d index_key epoch = path_join (generation_dir d index_key) (''g'' @ int_dec epoch @ ''.tvtext'')"

definition base_tvlex_path :: "path \<Rightarrow> string \<Rightarrow> int \<Rightarrow> path" where
  "base_tvlex_path d index_key epoch = path_join (generation_dir d index_key) (''g'' @ int_dec epoch @ ''.tvlex'')"

definition is_commit_manifest_name :: "string \<Rightarrow> bool" where
  "is_commit_manifest_name name = py_endswith name COMMIT_MANIFEST_SUFFIX"

text \<open>
  \<open>str.isdigit\<close> holds of the superscripts two, three and one too, which \<open>int\<close> then refuses.
\<close>

definition py_isdigit :: "string \<Rightarrow> bool" where
  "py_isdigit s = (s \<noteq> [] \<and> list_all (\<lambda>c. is_digit c \<or> code c \<in> {178, 179, 185}) s)"

definition epoch_of_name :: "string \<Rightarrow> int option res" where
  "epoch_of_name name =
     (let stem = take (length name - 5) name in
      if py_startswith stem ''g'' \<and> py_isdigit (drop 1 stem)
      then res_bind (int_of_text (drop 1 stem)) (\<lambda>e. Inr (Some e)) else Inr None)"

definition list_base_epochs :: "path \<Rightarrow> string \<Rightarrow> int set io" where
  "list_base_epochs d index_key =
     (let directory = generation_dir d index_key in
      io_bind (is_dir directory) (\<lambda>b.
        if \<not> b then io_return {}
        else io_bind (glob_suffix directory ''.json'') (\<lambda>paths.
          io_bind (io_lift (res_mapM epoch_of_name
              (filter (\<lambda>n. py_startswith n ''g'') (map path_name paths)))) (\<lambda>es.
            io_return (set (List.map_filter (\<lambda>e. e) es))))))"

definition body_sha256 :: "pyval \<Rightarrow> string res" where
  "body_sha256 body = res_bind (json_dumps sorted_style body) (\<lambda>t. Inr (sha256_hex (utf8_encode t)))"

text \<open>Attribute access on a value that is not a dict raises.\<close>

definition as_dict :: "pyval \<Rightarrow> (pyval, pyval) dict res" where
  "as_dict v = (case v of PDict d \<Rightarrow> Inr d | _ \<Rightarrow> Inl (AttributeError ''get''))"

definition check_commit_document :: "pyval \<Rightarrow> pyval res" where
  "check_commit_document document =
     res_bind (as_dict document) (\<lambda>d.
     res_bind (py_int (pget d ''schema_version'' (PInt (- 1)))) (\<lambda>version.
     if version \<noteq> COMMIT_MANIFEST_SCHEMA_VERSION
     then Inl (RuntimeError ''unsupported commit manifest schema version'')
     else
       let body = pget d ''body'' PNone; recorded = py_str (pget d ''body_sha256'' (PStr []))
       in case body of
            PDict _ \<Rightarrow>
              (if recorded = [] then Inl (RuntimeError ''commit manifest is missing its body or checksum'')
               else res_bind (body_sha256 body) (\<lambda>digest.
                      if digest \<noteq> recorded then Inl (RuntimeError ''commit manifest failed body checksum'')
                      else Inr body))
          | _ \<Rightarrow> Inl (RuntimeError ''commit manifest is missing its body or checksum'')))"

definition read_commit_manifest :: "path \<Rightarrow> pyval option io" where
  "read_commit_manifest p =
     io_bind (is_file p) (\<lambda>b.
       if \<not> b then io_return None
       else io_bind (read_text p) (\<lambda>t.
            io_bind (io_lift (json_loads t)) (\<lambda>document.
            io_bind (io_lift (check_commit_document document)) (\<lambda>body. io_return (Some body)))))"

definition commit_document :: "string \<Rightarrow> string" where
  "commit_document body_json =
     ''{'' @ json_str ''body'' @ '':'' @ body_json
     @ '','' @ json_str ''body_sha256'' @ '':'' @ json_str (sha256_hex (utf8_encode body_json))
     @ '','' @ json_str ''schema_version'' @ '':'' @ int_dec COMMIT_MANIFEST_SCHEMA_VERSION @ ''}''"

definition write_commit_manifest :: "path \<Rightarrow> pyval \<Rightarrow> bool \<Rightarrow> unit io" where
  "write_commit_manifest p body fsync =
     io_bind (io_lift (json_dumps sorted_style body)) (\<lambda>body_json.
     let temporary = with_name p (path_name p @ ''.tmp'') in
     io_bind (write_text temporary (commit_document body_json)) (\<lambda>_.
       durable_replace temporary p fsync))"

definition build_commit_body ::
    "string \<Rightarrow> int \<Rightarrow> int \<Rightarrow> int \<Rightarrow> int \<Rightarrow> pyval \<Rightarrow> pyval \<Rightarrow> pyval \<Rightarrow> pyval \<Rightarrow> pyval" where
  "build_commit_body index_key generation base_epoch document_count chunk_count json_manifest tvim_manifest
       tvtext_manifest tvlex_manifest =
     PDict [(PStr ''index_key'', PStr index_key), (PStr ''generation'', PInt generation),
       (PStr ''base_epoch'', PInt base_epoch), (PStr ''document_count'', PInt document_count),
       (PStr ''chunk_count'', PInt chunk_count), (PStr ''json'', json_manifest), (PStr ''tvim'', tvim_manifest),
       (PStr ''tvtext'', tvtext_manifest), (PStr ''tvlex'', tvlex_manifest)]"

section \<open>Publishing a file\<close>

definition publish_trace :: "path \<Rightarrow> path \<Rightarrow> bytes \<Rightarrow> bool \<Rightarrow> fs_op list" where
  "publish_trace tmp p b fsync =
     Write tmp b # (if fsync then [FsyncFile tmp] else []) @ Replace tmp p # (if fsync then [FsyncDir (butlast p)] else [])"

definition can_write :: "fs \<Rightarrow> path \<Rightarrow> bool" where
  "can_write s p = (p \<noteq> [] \<and> \<not> is_dir_at s p \<and> is_dir_at s (butlast p))"

lemma io_write_bytes [simp, io_simps]:
  "can_write s p \<Longrightarrow> io_result (write_bytes p b) s = Inr ()"
  "can_write s p \<Longrightarrow> io_ops (write_bytes p b) s = [Write p b]"
  "can_write s p \<Longrightarrow> io_state (write_bytes p b) s = run_op (Write p b) s"
  by (simp_all add: can_write_def write_bytes_def io_result_def io_ops_def io_state_def)

lemma durable_replace_ok:
  assumes "file_at s tmp \<noteq> None" and "can_write s p"
  shows "io_result (durable_replace tmp p fsync) s = Inr ()"
    and "io_ops (durable_replace tmp p fsync) s =
      (if fsync then [FsyncFile tmp] else []) @ Replace tmp p # (if fsync then [FsyncDir (butlast p)] else [])"
  using assms
  by (auto simp: durable_replace_def io_when_def fsync_path_def fsync_dir_def os_replace_def can_write_def
      io_bind_def io_return_def io_result_def io_ops_def)

lemma publish_ok:
  assumes "can_write s tmp" and "can_write s p"
  shows "io_result (io_bind (write_bytes tmp b) (\<lambda>_. durable_replace tmp p fsync)) s = Inr ()"
    and "io_ops (io_bind (write_bytes tmp b) (\<lambda>_. durable_replace tmp p fsync)) s = publish_trace tmp p b fsync"
proof -
  have s: "file_at (run_op (Write tmp b) s) tmp \<noteq> None" "can_write (run_op (Write tmp b) s) p"
    using assms(2) by (simp_all add: can_write_def)
  show "io_result (io_bind (write_bytes tmp b) (\<lambda>_. durable_replace tmp p fsync)) s = Inr ()"
    by (simp add: assms(1) durable_replace_ok(1) [OF s])
  show "io_ops (io_bind (write_bytes tmp b) (\<lambda>_. durable_replace tmp p fsync)) s = publish_trace tmp p b fsync"
    by (simp add: assms(1) durable_replace_ok(2) [OF s] publish_trace_def)
qed

lemma publish_state:
  assumes "tmp \<noteq> p"
  shows "file_at (run_ops (publish_trace tmp p b fsync) s) q = (if q = p then Some b else if q = tmp then None else file_at s q)"
  using assms by (simp add: publish_trace_def)

lemma publish_dirs: "is_dir_at (run_ops (publish_trace tmp p b fsync) s) d = is_dir_at s d"
  by (simp add: publish_trace_def)

text \<open>A crash while a file is published leaves its old or its new content, and nothing else changed.\<close>

lemma crash_publish:
  assumes "crash s (publish_trace tmp p b fsync) s'" and "tmp \<noteq> p"
  shows "file_at s' p = file_at s p \<or> file_at s' p = Some b"
    and "q \<noteq> p \<Longrightarrow> q \<noteq> tmp \<Longrightarrow> file_at s' q = file_at s q"
    and "is_dir_at s' d = is_dir_at s d"
  using assms by (auto simp: publish_trace_def crash_Cons split: if_splits)

section \<open>The commit manifest\<close>

definition tmp_of :: "path \<Rightarrow> path" where
  "tmp_of p = with_name p (path_name p @ ''.tmp'')"

definition publishable :: "fs \<Rightarrow> path \<Rightarrow> bool" where
  "publishable s p = (can_write s p \<and> can_write s (tmp_of p))"

lemma tmp_of_ne: "p \<noteq> [] \<Longrightarrow> tmp_of p \<noteq> p"
proof
  assume "p \<noteq> []" "tmp_of p = p"
  then have "last (tmp_of p) = last p" by simp
  then have "path_name p @ ''.tmp'' = last p" by (simp add: tmp_of_def with_name_def)
  with \<open>p \<noteq> []\<close> show False by (simp add: path_name_def)
qed

lemma publishable_ne: "publishable s p \<Longrightarrow> tmp_of p \<noteq> p"
  by (rule tmp_of_ne) (auto simp: publishable_def can_write_def)

lemma read_commit_manifest_result:
  "io_result (read_commit_manifest p) s = (case file_at s p of
      None \<Rightarrow> Inr None
    | Some b \<Rightarrow> res_bind (res_bind (utf8_decode b) (\<lambda>t. res_bind (json_loads t) check_commit_document)) (\<lambda>body. Inr (Some body)))"
  by (simp add: read_commit_manifest_def res_bind_assoc split: option.split)

lemma commit_document_loads:
  assumes "json_ok body" and "json_dumps sorted_style body = Inr t"
  shows "json_loads (commit_document t) = Inr (PDict [(PStr ''body'', key_sorted body),
    (PStr ''body_sha256'', PStr (sha256_hex (utf8_encode t))), (PStr ''schema_version'', PInt 1)])"
proof -
  let ?ks = "[''body'', ''body_sha256'', ''schema_version'']"
  let ?ts = "[t, json_str (sha256_hex (utf8_encode t)), int_dec 1]"
  let ?vs = "[key_sorted body, PStr (sha256_hex (utf8_encode t)), PInt 1]"
  have "reads (key_sorted body) t"
    using dumps_reads [of sorted_style body 0] assms by (simp add: json_dumps_def json_view_def)
  then have "list_all2 reads ?vs ?ts" by (simp add: reads_str reads_int)
  then have "reads (PDict (zip (map PStr ?ks) ?vs))
      (wrap_items compact_style 0 CHR ''{'' CHR ''}'' (map (member_text compact_style) (zip ?ks ?ts)))"
    by (intro reads_dict) simp_all
  moreover have "wrap_items compact_style 0 CHR ''{'' CHR ''}'' (map (member_text compact_style) (zip ?ks ?ts)) = commit_document t"
    by (simp add: wrap_items_def member_text_def compact_style_def newline_at_def commit_document_def
        COMMIT_MANIFEST_SCHEMA_VERSION_def)
  ultimately show ?thesis using loads_reads by simp
qed

lemma check_commit_document_written:
  assumes "json_ok (PDict kvs)" and "json_dumps sorted_style (PDict kvs) = Inr t"
  shows "check_commit_document (PDict [(PStr ''body'', key_sorted (PDict kvs)),
    (PStr ''body_sha256'', PStr (sha256_hex (utf8_encode t))), (PStr ''schema_version'', PInt 1)]) = Inr (key_sorted (PDict kvs))"
proof -
  have "body_sha256 (key_sorted (PDict kvs)) = Inr (sha256_hex (utf8_encode t))"
    unfolding body_sha256_def json_dumps_stable [OF assms(1)] assms(2) by simp
  moreover have "sha256_hex m \<noteq> []" for m using sha256_hex_digest [of m] by auto
  ultimately show ?thesis
    by (simp add: check_commit_document_def as_dict_def pget_def COMMIT_MANIFEST_SCHEMA_VERSION_def Let_def)
qed

lemma commit_file_reads:
  assumes "json_ok (PDict kvs)" and "json_dumps sorted_style (PDict kvs) = Inr t"
    and "file_at s p = Some (utf8_encode (commit_document t))"
  shows "io_result (read_commit_manifest p) s = Inr (Some (key_sorted (PDict kvs)))"
  unfolding read_commit_manifest_result assms(3)
  by (simp add: commit_document_loads [OF assms(1, 2)] check_commit_document_written [OF assms(1, 2)] del: key_sorted.simps)

lemma write_commit_manifest_trace:
  assumes "publishable s p" and "json_dumps sorted_style body = Inr t"
  shows "io_result (write_commit_manifest p body fsync) s = Inr ()"
    and "io_ops (write_commit_manifest p body fsync) s = publish_trace (tmp_of p) p (utf8_encode (commit_document t)) fsync"
  using publish_ok [of s "tmp_of p" p "utf8_encode (commit_document t)" fsync] assms
  by (simp_all add: write_commit_manifest_def write_text_def publishable_def tmp_of_def [symmetric] Let_def)

lemma json_dumps_ok: "style_ok st \<Longrightarrow> json_ok v \<Longrightarrow> \<exists>t. json_dumps st v = Inr t"
  using json_roundtrip by blast

definition sample_fs :: fs where
  "sample_fs = \<lparr> fs_files = [([''db'', ''other.json''], ''x'')], fs_dirs = [[''db'']] \<rparr>"

definition sample_manifest_path :: path where "sample_manifest_path = [''db'', ''k.commit.json'']"

lemma sample_publishable: "publishable sample_fs sample_manifest_path"
  by code_simp

section \<open>Names of the artifacts\<close>

lemma split_slash_plain: "CHR ''/'' \<notin> set s \<Longrightarrow> split_slash cur s = [rev cur @ s]"
  by (induction s arbitrary: cur) auto

lemma path_join_plain:
  assumes "CHR ''/'' \<notin> set name" and "name \<noteq> []" and "name \<noteq> ''.''"
  shows "path_join p name = p @ [name]"
  using assms by (cases name) (auto simp: path_join_def path_parts_def split_slash_plain py_startswith_def)

lemma int_dec_plain: "CHR ''/'' \<notin> set (int_dec i)"
  using nat_dec_digits [of "nat i"] nat_dec_digits [of "nat (- i)"]
  by (auto simp: int_dec_def is_digit_def code_def)

lemma int_dec_inject: "int_dec i = int_dec j \<longleftrightarrow> i = j"
proof
  assume "int_dec i = int_dec j"
  moreover have "reads (PInt i) (int_dec i)" "reads (PInt j) (int_dec j)" by (rule reads_int)+
  ultimately show "i = j" using loads_reads by (metis pyval.inject(2) sum.inject(2))
qed simp

lemma epoch_path: "path_join d (''g'' @ int_dec e @ ''.'' @ ext) = d @ [''g'' @ int_dec e @ ''.'' @ ext]"
  if "CHR ''/'' \<notin> set ext"
  using that int_dec_plain [of e] by (intro path_join_plain) auto

text \<open>The base files of one epoch.\<close>

definition base_paths :: "path \<Rightarrow> string \<Rightarrow> int \<Rightarrow> path list" where
  "base_paths d k e = [base_json_path d k e, base_tvim_path d k e, base_tvtext_path d k e, base_tvlex_path d k e]"

lemma body_sha256_nonempty: "body_sha256 body \<noteq> Inr []"
proof -
  have "sha256_hex m \<noteq> []" for m using sha256_hex_digest [of m] by auto
  then show ?thesis by (simp add: body_sha256_def res_bind_Inr_iff)
qed

section \<open>Properties\<close>

text \<open>
  C23. Writing the commit manifest and reading it back returns the body, with its keys sorted; the
  temporary file is gone and no other file is touched.
\<close>

theorem commit_manifest_roundtrip:
  assumes "publishable s p" and "json_ok (PDict kvs)"
  shows "io_result (write_commit_manifest p (PDict kvs) fsync) s = Inr ()
    \<and> io_result (read_commit_manifest p) (io_state (write_commit_manifest p (PDict kvs) fsync) s) = Inr (Some (key_sorted (PDict kvs)))
    \<and> (\<forall>q. q \<noteq> p \<longrightarrow> file_at (io_state (write_commit_manifest p (PDict kvs) fsync) s) q = (if q = tmp_of p then None else file_at s q))"
proof -
  obtain t where t: "json_dumps sorted_style (PDict kvs) = Inr t" using json_dumps_ok assms(2) by fastforce
  note trace = write_commit_manifest_trace [OF assms(1) t, of fsync]
  have "file_at (io_state (write_commit_manifest p (PDict kvs) fsync) s) q =
      (if q = p then Some (utf8_encode (commit_document t)) else if q = tmp_of p then None else file_at s q)" for q
    unfolding io_state_def trace(2) using publishable_ne [OF assms(1)] by (rule publish_state)
  with trace(1) commit_file_reads [OF assms(2) t] show ?thesis by simp
qed

text \<open>
  C11. The swap of the commit manifest is atomic: a crash at any point of the write, torn writes
  included, leaves a manifest that reads as before the write or as the new body.
\<close>

theorem commit_swap_atomic:
  assumes "publishable s p" and "json_ok (PDict kvs)"
    and "crash s (io_ops (write_commit_manifest p (PDict kvs) fsync) s) s'"
  shows "io_result (read_commit_manifest p) s' = io_result (read_commit_manifest p) s
    \<or> io_result (read_commit_manifest p) s' = Inr (Some (key_sorted (PDict kvs)))"
proof -
  obtain t where t: "json_dumps sorted_style (PDict kvs) = Inr t" using json_dumps_ok assms(2) by fastforce
  from assms(3) have "crash s (publish_trace (tmp_of p) p (utf8_encode (commit_document t)) fsync) s'"
    by (simp only: write_commit_manifest_trace [OF assms(1) t])
  from crash_publish(1) [OF this publishable_ne [OF assms(1)]]
  consider "file_at s' p = file_at s p" | "file_at s' p = Some (utf8_encode (commit_document t))" by blast
  then show ?thesis
  proof cases
    case 1
    then show ?thesis by (simp add: read_commit_manifest_result)
  next
    case 2
    then show ?thesis using commit_file_reads [OF assms(2) t] by blast
  qed
qed

theorem commit_manifest_roundtrip_witness:
  "io_result (read_commit_manifest sample_manifest_path)
      (io_state (write_commit_manifest sample_manifest_path (PDict [(PStr ''generation'', PInt 7), (PStr ''base_epoch'', PInt 3)]) True) sample_fs)
    = Inr (Some (PDict [(PStr ''base_epoch'', PInt 3), (PStr ''generation'', PInt 7)]))"
proof -
  have "json_ok (PDict [(PStr ''generation'', PInt 7), (PStr ''base_epoch'', PInt 3)])" by code_simp
  note commit_manifest_roundtrip [OF sample_publishable this, of True]
  moreover have "key_sorted (PDict [(PStr ''generation'', PInt 7), (PStr ''base_epoch'', PInt 3)])
      = PDict [(PStr ''base_epoch'', PInt 3), (PStr ''generation'', PInt 7)]" by code_simp
  ultimately show ?thesis by (simp only:)
qed

theorem commit_swap_atomic_witness:
  "\<exists>s'. crash sample_fs (io_ops (write_commit_manifest sample_manifest_path (PDict [(PStr ''generation'', PInt 7)]) True) sample_fs) s'
    \<and> (io_result (read_commit_manifest sample_manifest_path) s' = io_result (read_commit_manifest sample_manifest_path) sample_fs
       \<or> io_result (read_commit_manifest sample_manifest_path) s' = Inr (Some (key_sorted (PDict [(PStr ''generation'', PInt 7)]))))"
proof -
  let ?ops = "io_ops (write_commit_manifest sample_manifest_path (PDict [(PStr ''generation'', PInt 7)]) True) sample_fs"
  have ok: "json_ok (PDict [(PStr ''generation'', PInt 7)])" by code_simp
  have "crash sample_fs ?ops (run_ops ?ops sample_fs)" by (rule crash_done)
  with commit_swap_atomic [OF sample_publishable ok this] show ?thesis by blast
qed

text \<open>
  C22. Reading fails closed: a body is returned exactly when the file holds a JSON object of the
  supported schema version whose body is an object and which records the digest of that very body.
\<close>

theorem commit_manifest_fails_closed:
  "io_result (read_commit_manifest p) s = Inr (Some body) \<longleftrightarrow>
    (\<exists>b t d e. file_at s p = Some b \<and> utf8_decode b = Inr t \<and> json_loads t = Inr (PDict d)
      \<and> py_int (pget d ''schema_version'' (PInt (- 1))) = Inr COMMIT_MANIFEST_SCHEMA_VERSION
      \<and> pget d ''body'' PNone = body \<and> body = PDict e
      \<and> body_sha256 body = Inr (py_str (pget d ''body_sha256'' (PStr []))))"
proof -
  have "check_commit_document doc = Inr body \<longleftrightarrow> (\<exists>d e. doc = PDict d
      \<and> py_int (pget d ''schema_version'' (PInt (- 1))) = Inr COMMIT_MANIFEST_SCHEMA_VERSION
      \<and> pget d ''body'' PNone = body \<and> body = PDict e
      \<and> body_sha256 body = Inr (py_str (pget d ''body_sha256'' (PStr []))))" for doc
  proof (cases doc)
    case (PDict d)
    show ?thesis
    proof (cases "pget d ''body'' PNone")
      case (PDict e)
      then show ?thesis using body_sha256_nonempty [of "PDict e"]
        by (auto simp: \<open>doc = PDict d\<close> check_commit_document_def as_dict_def Let_def res_bind_Inr_iff)
    qed (auto simp: PDict check_commit_document_def as_dict_def Let_def res_bind_Inr_iff)
  qed (auto simp: check_commit_document_def as_dict_def)
  then show ?thesis unfolding read_commit_manifest_result by (auto split: option.splits simp: res_bind_Inr_iff)
qed

text \<open>
  C36. Epoch-addressed artifacts never share a path: the four base files of an epoch are different
  files, and they are all different from the four base files of any other epoch, so a new base never
  overwrites one that a committed manifest names.
\<close>

theorem epoch_artifacts_disjoint:
  "distinct (base_paths d k e) \<and> (set (base_paths d k e) \<inter> set (base_paths d k e') = {} \<longleftrightarrow> e \<noteq> e')"
proof -
  have dot: "CHR ''.'' \<notin> set (int_dec n)" for n
    using nat_dec_digits [of "nat n"] nat_dec_digits [of "nat (- n)"] by (auto simp: int_dec_def is_digit_def code_def)
  have "int_dec e @ CHR ''.'' # x = int_dec e' @ CHR ''.'' # y \<longleftrightarrow> e = e' \<and> x = y" for x y
  proof
    assume eq: "int_dec e @ CHR ''.'' # x = int_dec e' @ CHR ''.'' # y"
    have "takeWhile (\<lambda>c. c \<noteq> CHR ''.'') (int_dec n @ CHR ''.'' # z) = int_dec n" for n z
      using dot [of n] by (subst takeWhile_append2) auto
    from this [of e x] this [of e' y] have "int_dec e = int_dec e'" by (simp only: eq)
    with eq show "e = e' \<and> x = y" by (simp add: int_dec_inject)
  qed simp
  then show ?thesis
    using epoch_path [of "''json''"] epoch_path [of "''tvim''"] epoch_path [of "''tvtext''"] epoch_path [of "''tvlex''"]
    by (auto simp: base_paths_def base_json_path_def base_tvim_path_def base_tvtext_path_def base_tvlex_path_def int_dec_inject)
qed

end
