(* ===== verification/Routes.thy ===== *)
theory Routes
  imports PyNumber
begin

text \<open>
  Route registry, route profiles and runtime policies: \<open>engine/route_registry.py\<close>,
  \<open>engine/route_profiles.py\<close>, \<open>engine/runtime_policy.py\<close> and the class
  \<open>EngineRoutePolicy\<close> of \<open>engine/core.py\<close>. A loaded YAML mapping is a dict of objects; each
  dataclass is a record. The lemmas show where a decision can come from.
\<close>

section \<open>Definitions\<close>

definition COMPRESSED_INT8_SUPPORTED :: string where
  "COMPRESSED_INT8_SUPPORTED = ''compressed_int8_supported''"
definition FIXED_FULL_SUPPORTED_INT8_FAILED :: string where
  "FIXED_FULL_SUPPORTED_INT8_FAILED = ''fixed_full_supported_int8_failed''"
definition REQUIRES_HIGHER_K_DIAGNOSTIC :: string where
  "REQUIRES_HIGHER_K_DIAGNOSTIC = ''requires_higher_k_diagnostic''"
definition FULL_DENSE_OR_FULL_VECTOR_FALLBACK :: string where
  "FULL_DENSE_OR_FULL_VECTOR_FALLBACK = ''full_dense_or_full_vector_fallback''"
definition EXCLUDED_CANDIDATE_RECALL_BOTTLENECK :: string where
  "EXCLUDED_CANDIDATE_RECALL_BOTTLENECK = ''excluded_candidate_recall_bottleneck''"
definition SKIPPED_LOADER :: string where "SKIPPED_LOADER = ''skipped_loader''"
definition SKIPPED_BUDGET :: string where "SKIPPED_BUDGET = ''skipped_budget''"

definition SUPPORTED_ROUTE_CLASSES :: "string list" where
  "SUPPORTED_ROUTE_CLASSES = [COMPRESSED_INT8_SUPPORTED, FIXED_FULL_SUPPORTED_INT8_FAILED]"

definition FALLBACK_ROUTE_CLASSES :: "string list" where
  "FALLBACK_ROUTE_CLASSES = [FULL_DENSE_OR_FULL_VECTOR_FALLBACK, EXCLUDED_CANDIDATE_RECALL_BOTTLENECK,
     REQUIRES_HIGHER_K_DIAGNOSTIC, SKIPPED_LOADER, SKIPPED_BUDGET]"

definition KNOWN_ROUTE_CLASSES :: "string list" where
  "KNOWN_ROUTE_CLASSES = SUPPORTED_ROUTE_CLASSES @ FALLBACK_ROUTE_CLASSES"

lemmas route_consts = COMPRESSED_INT8_SUPPORTED_def FIXED_FULL_SUPPORTED_INT8_FAILED_def
  REQUIRES_HIGHER_K_DIAGNOSTIC_def FULL_DENSE_OR_FULL_VECTOR_FALLBACK_def
  EXCLUDED_CANDIDATE_RECALL_BOTTLENECK_def SKIPPED_LOADER_def SKIPPED_BUDGET_def

lemmas route_classes = SUPPORTED_ROUTE_CLASSES_def FALLBACK_ROUTE_CLASSES_def KNOWN_ROUTE_CLASSES_def

record route_entry =
  e_model :: string
  e_task :: string
  e_route_classification :: string
  e_provider :: string
  e_route_decision :: string
  e_method_template :: string
  e_fallback :: string
  e_reason :: string
  e_evidence :: "(pyval, pyval) dict"

record dataset_route_status =
  s_task :: string
  s_status :: string
  s_reason :: string
  s_segment :: string
  s_loader_supported :: bool

record route_decision =
  d_model :: string
  d_task :: string
  d_provider :: "string option"
  d_route_classification :: string
  d_route_decision :: string
  d_method_template :: string
  d_fallback :: string
  d_reason :: string
  d_registry_hit :: bool
  d_evidence :: "(pyval, pyval) dict"

record route_registry =
  r_name :: string
  r_default_route_classification :: string
  r_default_route_decision :: string
  r_default_fallback :: string
  r_entries :: "route_entry list"
  r_dataset_statuses :: "dataset_route_status list"

definition entry_from_mapping :: "(pyval, pyval) dict \<Rightarrow> route_entry res" where
  "entry_from_mapping payload =
     res_bind (pitem payload ''route_classification'') (\<lambda>rc.
     (let route_classification = py_str rc in
      if route_classification \<notin> set KNOWN_ROUTE_CLASSES then Inl (ValueError ''Unknown route classification'')
      else
        res_bind (pitem payload ''model'') (\<lambda>model.
        res_bind (pitem payload ''task'') (\<lambda>task.
        res_bind (py_dict (py_or (pget payload ''evidence'' (PDict [])) (PDict []))) (\<lambda>evidence.
          Inr \<lparr> e_model = py_str model, e_task = py_str task, e_route_classification = route_classification,
            e_provider = py_str (pget payload ''provider'' (PStr ''any'')),
            e_route_decision = py_str (pget payload ''route_decision'' (PStr [])),
            e_method_template = py_str (pget payload ''method_template'' (PStr [])),
            e_fallback = py_str (pget payload ''fallback'' (PStr ''full_dense_or_full_vector'')),
            e_reason = py_str (pget payload ''reason'' (PStr [])),
            e_evidence = evidence \<rparr>)))))"

definition entry_to_dict :: "route_entry \<Rightarrow> (pyval, pyval) dict" where
  "entry_to_dict e = [(PStr ''model'', PStr (e_model e)), (PStr ''provider'', PStr (e_provider e)),
     (PStr ''task'', PStr (e_task e)), (PStr ''route_classification'', PStr (e_route_classification e)),
     (PStr ''route_decision'', PStr (e_route_decision e)), (PStr ''method_template'', PStr (e_method_template e)),
     (PStr ''fallback'', PStr (e_fallback e)), (PStr ''reason'', PStr (e_reason e)),
     (PStr ''evidence'', PDict (e_evidence e))]"

definition status_from_mapping :: "(pyval, pyval) dict \<Rightarrow> dataset_route_status res" where
  "status_from_mapping payload =
     res_bind (pitem payload ''status'') (\<lambda>st.
     (let status = py_str st in
      if status \<notin> set KNOWN_ROUTE_CLASSES then Inl (ValueError ''Unknown dataset route status'')
      else
        res_bind (pitem payload ''task'') (\<lambda>task.
          Inr \<lparr> s_task = py_str task, s_status = status, s_reason = py_str (pget payload ''reason'' (PStr [])),
            s_segment = py_str (pget payload ''segment'' (PStr ''unsupported'')),
            s_loader_supported = py_truthy (pget payload ''loader_supported'' (PBool False)) \<rparr>)))"

definition status_to_dict :: "dataset_route_status \<Rightarrow> (pyval, pyval) dict" where
  "status_to_dict s = [(PStr ''task'', PStr (s_task s)), (PStr ''segment'', PStr (s_segment s)),
     (PStr ''status'', PStr (s_status s)), (PStr ''loader_supported'', PBool (s_loader_supported s)),
     (PStr ''reason'', PStr (s_reason s))]"

definition decision_to_dict :: "route_decision \<Rightarrow> (pyval, pyval) dict" where
  "decision_to_dict d = [(PStr ''model'', PStr (d_model d)),
     (PStr ''provider'', case d_provider d of None \<Rightarrow> PNone | Some p \<Rightarrow> PStr p),
     (PStr ''task'', PStr (d_task d)), (PStr ''route_classification'', PStr (d_route_classification d)),
     (PStr ''route_decision'', PStr (d_route_decision d)), (PStr ''method_template'', PStr (d_method_template d)),
     (PStr ''fallback'', PStr (d_fallback d)), (PStr ''reason'', PStr (d_reason d)),
     (PStr ''registry_hit'', PBool (d_registry_hit d)), (PStr ''evidence'', PDict (d_evidence d))]"

definition dict_items_of :: "pyval list \<Rightarrow> (pyval, pyval) dict list" where
  "dict_items_of items = List.map_filter (\<lambda>v. case v of PDict d \<Rightarrow> Some d | _ \<Rightarrow> None) items"

definition registry_from_mapping :: "(pyval, pyval) dict \<Rightarrow> route_registry res" where
  "registry_from_mapping payload =
     (case pget payload ''route_registry'' PNone of
        PDict registry \<Rightarrow>
          res_bind (py_dict (py_or (pget registry ''defaults'' (PDict [])) (PDict []))) (\<lambda>defaults.
          res_bind (py_iter (pget registry ''entries'' (PTuple []))) (\<lambda>entry_items.
          res_bind (res_mapM entry_from_mapping (dict_items_of entry_items)) (\<lambda>entries.
          res_bind (py_iter (pget registry ''dataset_statuses'' (PTuple []))) (\<lambda>status_items.
          res_bind (res_mapM status_from_mapping (dict_items_of status_items)) (\<lambda>statuses.
            Inr \<lparr> r_name = py_str (pget registry ''name'' (PStr ''unnamed_route_registry'')),
              r_default_route_classification =
                py_str (pget defaults ''route_classification'' (PStr FULL_DENSE_OR_FULL_VECTOR_FALLBACK)),
              r_default_route_decision =
                py_str (pget defaults ''route_decision'' (PStr ''use_full_dense_or_full_vector_fallback'')),
              r_default_fallback = py_str (pget defaults ''fallback'' (PStr ''full_dense_or_full_vector'')),
              r_entries = entries, r_dataset_statuses = statuses \<rparr>)))))
      | _ \<Rightarrow> Inl (ValueError ''route registry config must contain a route_registry mapping''))"

definition registry_to_dict :: "route_registry \<Rightarrow> (pyval, pyval) dict" where
  "registry_to_dict r = [(PStr ''name'', PStr (r_name r)),
     (PStr ''defaults'', PDict [(PStr ''route_classification'', PStr (r_default_route_classification r)),
        (PStr ''route_decision'', PStr (r_default_route_decision r)), (PStr ''fallback'', PStr (r_default_fallback r))]),
     (PStr ''entries'', PList (map (PDict \<circ> entry_to_dict) (r_entries r))),
     (PStr ''dataset_statuses'', PList (map (PDict \<circ> status_to_dict) (r_dataset_statuses r)))]"

text \<open>\<open>provider or x\<close>: an absent or empty provider.\<close>

definition provider_or :: "string option \<Rightarrow> string \<Rightarrow> string" where
  "provider_or provider d = (case provider of None \<Rightarrow> d | Some p \<Rightarrow> if p = [] then d else p)"

definition find_entry :: "route_registry \<Rightarrow> string \<Rightarrow> string \<Rightarrow> string option \<Rightarrow> route_entry option" where
  "find_entry r model task provider =
     (let pair = (\<lambda>e. e_model e = model \<and> e_task e = task) in
      case find (\<lambda>e. pair e \<and> e_provider e = provider_or provider ''any'') (r_entries r) of
        Some e \<Rightarrow> Some e
      | None \<Rightarrow>
          (case (if provider = None then find pair (r_entries r) else None) of
             Some e \<Rightarrow> Some e
           | None \<Rightarrow> find (\<lambda>e. pair e \<and> e_provider e = ''any'') (r_entries r)))"

definition dataset_status_for :: "route_registry \<Rightarrow> string \<Rightarrow> dataset_route_status option" where
  "dataset_status_for r task = find (\<lambda>s. s_task s = task) (r_dataset_statuses r)"

definition fallback_decision ::
    "route_registry \<Rightarrow> string \<Rightarrow> string \<Rightarrow> string option \<Rightarrow> string \<Rightarrow> string \<Rightarrow> string \<Rightarrow> bool
      \<Rightarrow> (pyval, pyval) dict \<Rightarrow> route_decision" where
  "fallback_decision r model task provider rc rd reason hit evidence =
     \<lparr> d_model = model, d_task = task, d_provider = provider, d_route_classification = rc,
       d_route_decision = rd, d_method_template = [], d_fallback = r_default_fallback r,
       d_reason = reason, d_registry_hit = hit, d_evidence = evidence \<rparr>"

definition runtime_fallback ::
    "route_registry \<Rightarrow> string \<Rightarrow> string \<Rightarrow> string option \<Rightarrow> string \<Rightarrow> route_decision" where
  "runtime_fallback r model task provider reason =
     fallback_decision r model task provider FULL_DENSE_OR_FULL_VECTOR_FALLBACK
       ''use_full_dense_or_full_vector_fallback'' reason (find_entry r model task provider \<noteq> None) []"

definition route_decision_for_status :: "string \<Rightarrow> string" where
  "route_decision_for_status status =
     (if status = SKIPPED_LOADER then ''skip_until_loader_validated''
      else if status = SKIPPED_BUDGET then ''skip_until_budget_authorizes_validation''
      else if status = EXCLUDED_CANDIDATE_RECALL_BOTTLENECK then ''exclude_pair_and_use_full_dense_or_fallback''
      else ''use_full_dense_or_full_vector_fallback'')"

record route_request =
  q_model :: string
  q_task :: string
  q_provider :: "string option"
  q_fixed_full_passed :: "bool option"
  q_compressed_int8_passed :: "bool option"
  q_requires_higher_k :: bool
  q_failure_mode :: "string option"
  q_drifted :: bool
  q_failed :: bool
  q_high_risk :: bool

definition select_route :: "route_registry \<Rightarrow> route_request \<Rightarrow> route_decision" where
  "select_route r q =
     (let model = q_model q; task = q_task q; provider = q_provider q in
      if q_drifted q then runtime_fallback r model task provider ''drift_gate_requires_fallback''
      else if q_failed q then runtime_fallback r model task provider ''runtime_failure_requires_fallback''
      else if q_high_risk q then runtime_fallback r model task provider ''high_risk_pair_requires_fallback''
      else if q_requires_higher_k q
      then fallback_decision r model task provider REQUIRES_HIGHER_K_DIAGNOSTIC
             ''diagnostic_higher_k_only_keep_default_unsupported''
             ''higher K is diagnostic only and is not a default product route'' True []
      else
        case find_entry r model task provider of
          None \<Rightarrow>
            (case dataset_status_for r task of
               Some st \<Rightarrow> fallback_decision r model task provider (s_status st)
                 (route_decision_for_status (s_status st)) (s_reason st) True []
             | None \<Rightarrow> fallback_decision r model task provider (r_default_route_classification r)
                 (r_default_route_decision r) ''unknown_model_task_pair'' False [])
        | Some entry \<Rightarrow>
            (if q_fixed_full_passed q = Some False
             then (if q_failure_mode q = Some ''candidate_recall''
                   then fallback_decision r model task provider EXCLUDED_CANDIDATE_RECALL_BOTTLENECK
                          ''exclude_pair_and_use_full_dense_or_fallback'' ''candidate_recall_bottleneck'' True
                          (e_evidence entry)
                   else runtime_fallback r model task provider ''fixed_full_rerank_failed'')
             else if q_fixed_full_passed q = Some True \<and> q_compressed_int8_passed q = Some False
             then fallback_decision r model task provider FIXED_FULL_SUPPORTED_INT8_FAILED
                    ''use_fixed_full_rerank_with_full_vector_fallback'' ''compressed_int8_failed_or_missing'' True
                    (e_evidence entry)
             else \<lparr> d_model = model, d_task = task, d_provider = Some (provider_or provider (e_provider entry)),
                    d_route_classification = e_route_classification entry,
                    d_route_decision = e_route_decision entry, d_method_template = e_method_template entry,
                    d_fallback = e_fallback entry, d_reason = e_reason entry, d_registry_hit = True,
                    d_evidence = e_evidence entry \<rparr>))"

definition default_route_registry :: route_registry where
  "default_route_registry = \<lparr> r_name = ''lodedb_local_route_registry'',
     r_default_route_classification = FULL_DENSE_OR_FULL_VECTOR_FALLBACK,
     r_default_route_decision = ''use_full_dense_or_full_vector_fallback'',
     r_default_fallback = ''full_dense_or_full_vector'', r_entries = [], r_dataset_statuses = [] \<rparr>"

text \<open>
  \<open>load_yaml_file\<close> of \<open>config.py\<close>: whether PyYAML is installed and what \<open>safe_load\<close> returns for a
  path are parameters.
\<close>

definition load_yaml_file :: "bool \<Rightarrow> (string \<Rightarrow> pyval res) \<Rightarrow> string \<Rightarrow> (pyval, pyval) dict res" where
  "load_yaml_file installed safe_load path =
     (if \<not> installed then Inl (RuntimeError ''Install PyYAML to load YAML configs.'')
      else res_bind (safe_load path) (\<lambda>v.
        (case py_or v (PDict []) of
           PDict d \<Rightarrow> Inr d
         | _ \<Rightarrow> Inl (ValueError ''Expected a mapping at top level''))))"

definition load_route_registry :: "bool \<Rightarrow> (string \<Rightarrow> pyval res) \<Rightarrow> string \<Rightarrow> route_registry res" where
  "load_route_registry installed safe_load path =
     res_bind (load_yaml_file installed safe_load path) registry_from_mapping"

definition route_decisions_to_dicts :: "route_decision list \<Rightarrow> (pyval, pyval) dict list" where
  "route_decisions_to_dicts decisions = map decision_to_dict decisions"

text \<open>Route policies.\<close>

definition DIRECT_TURBOVEC_STORAGE_PROFILE :: string where
  "DIRECT_TURBOVEC_STORAGE_PROFILE = ''turbovec_direct''"

record route_policy =
  p_profile :: string
  p_label :: string
  p_client_note :: string
  p_model :: string
  p_provider :: string
  p_task :: string
  p_native_dim :: int
  p_method_template :: string
  p_experimental :: bool
  p_index_backend :: string
  p_turbovec_bit_width :: "int option"

definition validate_index_request ::
    "route_policy \<Rightarrow> string \<Rightarrow> string \<Rightarrow> string \<Rightarrow> int \<Rightarrow> route_decision \<Rightarrow> string option" where
  "validate_index_request p model provider task native_dim route =
     (if model \<noteq> p_model p then Some (''model must match route profile '' @ p_profile p)
      else if provider \<noteq> p_provider p then Some (''provider must match route profile '' @ p_profile p)
      else if task \<noteq> p_task p then Some (''task must match route profile '' @ p_profile p)
      else if native_dim \<noteq> p_native_dim p then Some (''native_dim must match route profile '' @ p_profile p)
      else if p_index_backend p \<noteq> DIRECT_TURBOVEC_STORAGE_PROFILE
      then (if d_route_classification route \<notin> set SUPPORTED_ROUTE_CLASSES
            then Some (''route profile '' @ p_profile p @ '' is not supported by the route registry'')
            else if d_method_template route \<noteq> p_method_template p
            then Some (''route registry selection must match route profile '' @ p_profile p)
            else None)
      else None)"

definition policy_to_dict :: "route_policy \<Rightarrow> (pyval, pyval) dict" where
  "policy_to_dict p = [(PStr ''profile'', PStr (p_profile p)), (PStr ''label'', PStr (p_label p)),
     (PStr ''client_note'', PStr (p_client_note p)), (PStr ''index_backend'', PStr (p_index_backend p)),
     (PStr ''turbovec_bit_width'', case p_turbovec_bit_width p of None \<Rightarrow> PNone | Some w \<Rightarrow> PInt w),
     (PStr ''experimental'', PBool (p_experimental p))]"

definition storage_profile_for_route_policy :: "route_policy option \<Rightarrow> string res" where
  "storage_profile_for_route_policy policy =
     (case policy of
        Some p \<Rightarrow> (if p_index_backend p \<noteq> DIRECT_TURBOVEC_STORAGE_PROFILE
                   then Inl (ValueError ''unsupported index backend'') else Inr DIRECT_TURBOVEC_STORAGE_PROFILE)
      | None \<Rightarrow> Inr DIRECT_TURBOVEC_STORAGE_PROFILE)"

definition BGE_BASE_QUERY_PREFIX :: string where
  "BGE_BASE_QUERY_PREFIX = ''Represent this sentence for searching relevant passages: ''"
definition E5_QUERY_PREFIX :: string where "E5_QUERY_PREFIX = ''query: ''"
definition E5_DOCUMENT_PREFIX :: string where "E5_DOCUMENT_PREFIX = ''passage: ''"
definition BGE_TURBOVEC_ROUTE_PROFILE :: string where "BGE_TURBOVEC_ROUTE_PROFILE = ''bge-turbovec''"
definition E5_SMALL_TURBOVEC_ROUTE_PROFILE :: string where "E5_SMALL_TURBOVEC_ROUTE_PROFILE = ''e5-small-turbovec''"
definition MINILM_TURBOVEC_ROUTE_PROFILE :: string where "MINILM_TURBOVEC_ROUTE_PROFILE = ''minilm-turbovec''"
definition CLIP_TURBOVEC_ROUTE_PROFILE :: string where "CLIP_TURBOVEC_ROUTE_PROFILE = ''clip-turbovec''"
definition BGE_TURBOVEC_2BIT_ROUTE_PROFILE :: string where "BGE_TURBOVEC_2BIT_ROUTE_PROFILE = ''bge-turbovec-2bit''"
definition MINILM_TURBOVEC_2BIT_ROUTE_PROFILE :: string where "MINILM_TURBOVEC_2BIT_ROUTE_PROFILE = ''minilm-turbovec-2bit''"
definition DEFAULT_ROUTE_PROFILE :: string where "DEFAULT_ROUTE_PROFILE = MINILM_TURBOVEC_ROUTE_PROFILE"

lemmas profile_names = BGE_TURBOVEC_ROUTE_PROFILE_def E5_SMALL_TURBOVEC_ROUTE_PROFILE_def
  MINILM_TURBOVEC_ROUTE_PROFILE_def CLIP_TURBOVEC_ROUTE_PROFILE_def BGE_TURBOVEC_2BIT_ROUTE_PROFILE_def
  MINILM_TURBOVEC_2BIT_ROUTE_PROFILE_def

definition CLIENT_ROUTE_POLICIES :: "(string, route_policy) dict" where
  "CLIENT_ROUTE_POLICIES =
   [(BGE_TURBOVEC_ROUTE_PROFILE,
     \<lparr> p_profile = BGE_TURBOVEC_ROUTE_PROFILE, p_label = ''BGE direct TurboVec 4-bit'',
       p_client_note = ''storage-first direct full-dimensional TurboVec route without PCA or rerank'',
       p_model = ''BAAI/bge-base-en-v1.5'', p_provider = ''local_open'', p_task = ''direct-turbovec'',
       p_native_dim = 768, p_method_template = ''direct_turbovec_full768_bw4'', p_experimental = False,
       p_index_backend = ''turbovec_direct'', p_turbovec_bit_width = Some 4 \<rparr>),
    (MINILM_TURBOVEC_ROUTE_PROFILE,
     \<lparr> p_profile = MINILM_TURBOVEC_ROUTE_PROFILE, p_label = ''MiniLM direct TurboVec 4-bit'',
       p_client_note = ''storage-first direct full-dimensional TurboVec route without PCA or rerank'',
       p_model = ''sentence-transformers/all-MiniLM-L6-v2'', p_provider = ''local_open'', p_task = ''direct-turbovec'',
       p_native_dim = 384, p_method_template = ''direct_turbovec_full384_bw4'', p_experimental = False,
       p_index_backend = ''turbovec_direct'', p_turbovec_bit_width = Some 4 \<rparr>),
    (E5_SMALL_TURBOVEC_ROUTE_PROFILE,
     \<lparr> p_profile = E5_SMALL_TURBOVEC_ROUTE_PROFILE, p_label = ''Multilingual E5-small direct TurboVec 4-bit'',
       p_client_note = ''storage-first direct full-dimensional TurboVec route without PCA or rerank'',
       p_model = ''intfloat/multilingual-e5-small'', p_provider = ''local_open'', p_task = ''direct-turbovec'',
       p_native_dim = 384, p_method_template = ''direct_turbovec_full384_bw4'', p_experimental = False,
       p_index_backend = ''turbovec_direct'', p_turbovec_bit_width = Some 4 \<rparr>),
    (CLIP_TURBOVEC_ROUTE_PROFILE,
     \<lparr> p_profile = CLIP_TURBOVEC_ROUTE_PROFILE, p_label = ''CLIP direct TurboVec 4-bit (image + text)'',
       p_client_note = ''shared image/text CLIP space; cross-modal cosine over the direct '' @
         ''full-dimensional TurboVec route without PCA or rerank'',
       p_model = ''sentence-transformers/clip-ViT-B-32'', p_provider = ''local_open'', p_task = ''direct-turbovec'',
       p_native_dim = 512, p_method_template = ''direct_turbovec_full512_bw4'', p_experimental = False,
       p_index_backend = ''turbovec_direct'', p_turbovec_bit_width = Some 4 \<rparr>),
    (BGE_TURBOVEC_2BIT_ROUTE_PROFILE,
     \<lparr> p_profile = BGE_TURBOVEC_2BIT_ROUTE_PROFILE, p_label = ''BGE direct TurboVec 2-bit (storage-constrained opt-in)'',
       p_client_note = ''half the code bytes of bge-turbovec (192 vs 384 B/embed) with a '' @
         ''dense-reference recall discount (GovReport5K 0.8688 vs 0.9631 at '' @
         ''top-100) but GovReport end-task qrel recall indistinguishable '' @
         ''from 4-bit; opt-in tier for storage-constrained deployments'',
       p_model = ''BAAI/bge-base-en-v1.5'', p_provider = ''local_open'', p_task = ''direct-turbovec'',
       p_native_dim = 768, p_method_template = ''direct_turbovec_full768_bw2'', p_experimental = False,
       p_index_backend = ''turbovec_direct'', p_turbovec_bit_width = Some 2 \<rparr>),
    (MINILM_TURBOVEC_2BIT_ROUTE_PROFILE,
     \<lparr> p_profile = MINILM_TURBOVEC_2BIT_ROUTE_PROFILE, p_label = ''MiniLM direct TurboVec 2-bit (storage-constrained opt-in)'',
       p_client_note = ''half the code bytes of minilm-turbovec (96 vs 192 B/embed) with a '' @
         ''dense-reference recall discount (GovReport5K 0.8662 vs 0.9612 at '' @
         ''top-100) but GovReport end-task qrel recall indistinguishable '' @
         ''from 4-bit; opt-in tier for storage-constrained deployments'',
       p_model = ''sentence-transformers/all-MiniLM-L6-v2'', p_provider = ''local_open'', p_task = ''direct-turbovec'',
       p_native_dim = 384, p_method_template = ''direct_turbovec_full384_bw2'', p_experimental = True,
       p_index_backend = ''turbovec_direct'', p_turbovec_bit_width = Some 2 \<rparr>)]"

definition CLIENT_ROUTE_PROFILE_ORDER :: "string list" where
  "CLIENT_ROUTE_PROFILE_ORDER = [MINILM_TURBOVEC_ROUTE_PROFILE, BGE_TURBOVEC_ROUTE_PROFILE,
     E5_SMALL_TURBOVEC_ROUTE_PROFILE, CLIP_TURBOVEC_ROUTE_PROFILE, MINILM_TURBOVEC_2BIT_ROUTE_PROFILE,
     BGE_TURBOVEC_2BIT_ROUTE_PROFILE]"

definition route_policy_for_profile :: "string \<Rightarrow> route_policy res" where
  "route_policy_for_profile profile = (case map_of CLIENT_ROUTE_POLICIES profile of
       Some p \<Rightarrow> Inr p
     | None \<Rightarrow> Inl (ValueError (''route profile must be one of: '' @ py_join '', '' CLIENT_ROUTE_PROFILE_ORDER)))"

definition client_route_policy_manifest :: "(pyval, pyval) dict list res" where
  "client_route_policy_manifest =
     res_mapM (\<lambda>name. res_bind (dlookup CLIENT_ROUTE_POLICIES name) (\<lambda>p. Inr (policy_to_dict p)))
       CLIENT_ROUTE_PROFILE_ORDER"

text \<open>Runtime policies.\<close>

datatype tvim_delta_persistence_policy = TvimOff | TvimAuto

datatype commit_mode = CommitGeneration | CommitWal

definition str_or :: "string option \<Rightarrow> string \<Rightarrow> string" where
  "str_or value d = (case value of None \<Rightarrow> d | Some v \<Rightarrow> if v = [] then d else v)"

definition parse_tvim_delta_persistence_policy :: "string option \<Rightarrow> tvim_delta_persistence_policy res" where
  "parse_tvim_delta_persistence_policy value =
     (let v = str_or value ''auto'' in
      if v = ''off'' then Inr TvimOff else if v = ''auto'' then Inr TvimAuto
      else Inl (ValueError ''LODEDB_TVIM_DELTA_PERSISTENCE must be one of: off, auto''))"

definition parse_commit_mode :: "string option \<Rightarrow> commit_mode res" where
  "parse_commit_mode value =
     (let v = py_lower (py_strip (str_or value ''wal'')) in
      if v = ''generation'' then Inr CommitGeneration else if v = ''wal'' then Inr CommitWal
      else Inl (ValueError ''commit_mode must be one of: generation, wal''))"

definition tvim_delta_persistence_policy_from_env :: "(string, string) dict \<Rightarrow> tvim_delta_persistence_policy res" where
  "tvim_delta_persistence_policy_from_env env =
     parse_tvim_delta_persistence_policy (Some (dget env ''LODEDB_TVIM_DELTA_PERSISTENCE'' ''auto''))"

definition commit_mode_from_env :: "(string, string) dict \<Rightarrow> commit_mode res" where
  "commit_mode_from_env env = parse_commit_mode (Some (dget env ''LODEDB_COMMIT_MODE'' ''wal''))"

section \<open>Lemmas\<close>

lemma find_Some_mem: "find P xs = Some x \<Longrightarrow> x \<in> set xs \<and> P x"
  by (induction xs) (auto split: if_splits)

lemma find_entry_mem:
  assumes "find_entry r model task provider = Some e"
  shows "e \<in> set (r_entries r) \<and> e_model e = model \<and> e_task e = task
    \<and> (provider = None \<or> e_provider e = ''any'' \<or> Some (e_provider e) = provider)"
  using assms
  by (auto simp: find_entry_def Let_def provider_or_def split: option.splits if_splits dest!: find_Some_mem)

lemma fallback_decision_simps [simp]:
  "d_method_template (fallback_decision r m t p rc rd reason hit ev) = []"
  "d_route_classification (fallback_decision r m t p rc rd reason hit ev) = rc"
  "d_registry_hit (fallback_decision r m t p rc rd reason hit ev) = hit"
  by (simp_all add: fallback_decision_def)

lemma runtime_fallback_simps [simp]:
  "d_method_template (runtime_fallback r m t p reason) = []"
  "d_route_classification (runtime_fallback r m t p reason) = FULL_DENSE_OR_FULL_VECTOR_FALLBACK"
  by (simp_all add: runtime_fallback_def)

definition entry_ok :: "route_entry \<Rightarrow> bool" where
  "entry_ok e \<longleftrightarrow> e_route_classification e \<in> set KNOWN_ROUTE_CLASSES"

lemma py_dict_of_dict: "py_dict (py_or (PDict d) (PDict [])) = Inr d"
  by (simp add: py_or_def)

lemma entry_roundtrip: "entry_ok e \<Longrightarrow> entry_from_mapping (entry_to_dict e) = Inr e"
  by (cases e) (simp add: entry_from_mapping_def entry_to_dict_def pitem_def pget_def py_dict_of_dict entry_ok_def)

lemma status_roundtrip: "s_status s \<in> set KNOWN_ROUTE_CLASSES \<Longrightarrow> status_from_mapping (status_to_dict s) = Inr s"
  by (cases s) (simp add: status_from_mapping_def status_to_dict_def pitem_def pget_def)

lemma dict_items_of_dicts: "dict_items_of (map (PDict \<circ> f) xs) = map f xs"
  by (induction xs) (simp_all add: dict_items_of_def)

lemma res_mapM_map: "(\<And>x. x \<in> set xs \<Longrightarrow> f (g x) = Inr x) \<Longrightarrow> res_mapM f (map g xs) = Inr xs"
  by (induction xs) auto

section \<open>Properties\<close>

text \<open>
  C32. Only a registered pair gets a compressed route: when the selected decision names a method
  template, no runtime override applies, and the decision is the one recorded in the entry the
  registry finds for that very model and task, under the same provider, under \<open>any\<close>, or with no
  provider asked for.
\<close>

theorem served_route_is_registered:
  assumes "d_method_template (select_route r q) \<noteq> []"
  shows "\<not> q_drifted q \<and> \<not> q_failed q \<and> \<not> q_high_risk q \<and> \<not> q_requires_higher_k q \<and> q_fixed_full_passed q \<noteq> Some False
    \<and> \<not> (q_fixed_full_passed q = Some True \<and> q_compressed_int8_passed q = Some False)
    \<and> (\<exists>e \<in> set (r_entries r). find_entry r (q_model q) (q_task q) (q_provider q) = Some e
        \<and> e_model e = q_model q \<and> e_task e = q_task q
        \<and> (q_provider q = None \<or> e_provider e = ''any'' \<or> Some (e_provider e) = q_provider q)
        \<and> d_method_template (select_route r q) = e_method_template e
        \<and> d_route_classification (select_route r q) = e_route_classification e
        \<and> d_route_decision (select_route r q) = e_route_decision e \<and> d_fallback (select_route r q) = e_fallback e)"
proof (cases "find_entry r (q_model q) (q_task q) (q_provider q)")
  case None
  with assms show ?thesis by (auto simp: select_route_def Let_def split: if_splits option.splits)
next
  case (Some e)
  from assms Some have run: "\<not> q_drifted q" "\<not> q_failed q" "\<not> q_high_risk q" "\<not> q_requires_higher_k q"
    "q_fixed_full_passed q \<noteq> Some False" "\<not> (q_fixed_full_passed q = Some True \<and> q_compressed_int8_passed q = Some False)"
    by (auto simp: select_route_def Let_def split: if_splits)
  then have "d_method_template (select_route r q) = e_method_template e"
    "d_route_classification (select_route r q) = e_route_classification e"
    "d_route_decision (select_route r q) = e_route_decision e" "d_fallback (select_route r q) = e_fallback e"
    using Some by (auto simp: select_route_def Let_def)
  with run Some find_entry_mem [OF Some] show ?thesis by blast
qed

definition sample_entry :: route_entry where
  "sample_entry = \<lparr> e_model = ''m'', e_task = ''t'', e_route_classification = COMPRESSED_INT8_SUPPORTED,
     e_provider = ''any'', e_route_decision = ''use'', e_method_template = ''tpl'', e_fallback = ''f'',
     e_reason = [], e_evidence = [(PStr ''k'', PInt 1)] \<rparr>"

definition sample_registry :: route_registry where
  "sample_registry = default_route_registry \<lparr> r_entries := [sample_entry],
     r_dataset_statuses := [\<lparr> s_task = ''u'', s_status = SKIPPED_LOADER, s_reason = ''why'', s_segment = ''seg'', s_loader_supported = True \<rparr>] \<rparr>"

definition sample_request :: route_request where
  "sample_request = \<lparr> q_model = ''m'', q_task = ''t'', q_provider = Some ''p'', q_fixed_full_passed = None,
     q_compressed_int8_passed = None, q_requires_higher_k = False, q_failure_mode = None, q_drifted = False,
     q_failed = False, q_high_risk = False \<rparr>"

theorem served_route_is_registered_witness:
  "d_method_template (select_route sample_registry sample_request) = ''tpl'' \<and>
   (\<exists>e \<in> set (r_entries sample_registry). e_model e = ''m'' \<and> e_task e = ''t'' \<and> e_method_template e = ''tpl'')"
proof -
  have t: "d_method_template (select_route sample_registry sample_request) = ''tpl''" by code_simp
  then have "d_method_template (select_route sample_registry sample_request) \<noteq> []" by simp
  from served_route_is_registered [OF this] obtain e where "e \<in> set (r_entries sample_registry)"
    "e_model e = q_model sample_request" "e_task e = q_task sample_request"
    "d_method_template (select_route sample_registry sample_request) = e_method_template e" by blast
  moreover have "q_model sample_request = ''m''" "q_task sample_request = ''t''" by (simp_all add: sample_request_def)
  ultimately show ?thesis using t by auto
qed

text \<open>
  C33. What \<open>to_dict\<close> writes, placed under the key \<open>route_registry\<close> of a configuration, is read back by
  \<open>from_mapping\<close> as the same registry, entries, statuses, defaults and evidence included, if the
  classifications of its entries and statuses are known ones.  Without that key it is refused.
\<close>

theorem registry_roundtrip:
  assumes "list_all entry_ok (r_entries r)" and "list_all (\<lambda>s. s_status s \<in> set KNOWN_ROUTE_CLASSES) (r_dataset_statuses r)"
  shows "registry_from_mapping [(PStr ''route_registry'', PDict (registry_to_dict r))] = Inr r
    \<and> registry_from_mapping (registry_to_dict r) = Inl (ValueError ''route registry config must contain a route_registry mapping'')"
proof -
  have "res_mapM entry_from_mapping (map entry_to_dict (r_entries r)) = Inr (r_entries r)"
    using assms(1) by (intro res_mapM_map) (simp add: list_all_iff entry_roundtrip)
  moreover have "res_mapM status_from_mapping (map status_to_dict (r_dataset_statuses r)) = Inr (r_dataset_statuses r)"
    using assms(2) by (intro res_mapM_map) (simp add: list_all_iff status_roundtrip)
  ultimately show ?thesis
    by (simp add: registry_from_mapping_def registry_to_dict_def pget_def py_or_def dict_items_of_dicts)
qed

theorem registry_roundtrip_witness:
  "registry_from_mapping [(PStr ''route_registry'', PDict (registry_to_dict sample_registry))] = Inr sample_registry"
  by (rule registry_roundtrip [THEN conjunct1]) code_simp+

text \<open>
  Every published route profile is served by the direct backend: it is found under its own
  name, its own index parameters pass its validation whatever the registry decides, its storage
  profile is the direct one, and its method template names its dimension and bit width.
\<close>

theorem profiles_are_direct:
  "set CLIENT_ROUTE_PROFILE_ORDER = set (dkeys CLIENT_ROUTE_POLICIES)
   \<and> list_all (\<lambda>name. \<exists>p w. route_policy_for_profile name = Inr p \<and> p_profile p = name
        \<and> (\<forall>route. validate_index_request p (p_model p) (p_provider p) (p_task p) (p_native_dim p) route = None)
        \<and> storage_profile_for_route_policy (Some p) = Inr DIRECT_TURBOVEC_STORAGE_PROFILE
        \<and> p_turbovec_bit_width p = Some w
        \<and> p_method_template p = ''direct_turbovec_full'' @ int_dec (p_native_dim p) @ ''_bw'' @ int_dec w)
      CLIENT_ROUTE_PROFILE_ORDER"
proof -
  have dec: "int_dec 768 = ''768''" "int_dec 384 = ''384''" "int_dec 512 = ''512''" "int_dec 4 = ''4''" "int_dec 2 = ''2''"
    by code_simp+
  show ?thesis
    by (simp add: CLIENT_ROUTE_PROFILE_ORDER_def CLIENT_ROUTE_POLICIES_def profile_names route_policy_for_profile_def
        validate_index_request_def storage_profile_for_route_policy_def DIRECT_TURBOVEC_STORAGE_PROFILE_def dec insert_commute)
qed

end
