(* ===== verification/EngineCore.thy ===== *)
theory EngineCore
  imports Routes JsonCodec Hashing
begin

text \<open>
  Data contracts and redaction helpers of \<open>engine/core.py\<close>: chunking of text, metadata validation,
  the scan for raw-payload field names, index ids and keys, restoring an index state from a JSON
  payload, and the telemetry filter.
\<close>

section \<open>Definitions\<close>

definition NON_INDEX_JSON_FILES :: "string list" where
  "NON_INDEX_JSON_FILES = [''collection.json'', ''migration.json'']"
definition QUERY_LATENCY_SAMPLE_CAP :: nat where "QUERY_LATENCY_SAMPLE_CAP = 1024"
definition DEFAULT_INDEX_ID :: string where "DEFAULT_INDEX_ID = ''default''"
definition DEFAULT_INDEX_NAME :: string where "DEFAULT_INDEX_NAME = ''Default index''"
definition ACTIVE_INDEX_STATUS :: string where "ACTIVE_INDEX_STATUS = ''ready''"
definition LEGACY_INDEX_TIMESTAMP :: string where "LEGACY_INDEX_TIMESTAMP = ''1970-01-01T00:00:00+00:00''"

record indexed_chunk =
  c_chunk_id :: string
  c_document_id :: string
  c_content_hash :: string
  c_embedding :: "rat list"

record client_index_state =
  st_client_id :: string
  st_client_id_hash :: string
  st_index_id :: string
  st_index_key :: string
  st_model :: string
  st_provider :: string
  st_task :: string
  st_native_dim :: int
  st_name :: string
  st_metadata :: "(string, string) dict"
  st_status :: string
  st_created_at :: string
  st_updated_at :: string
  st_chunks :: "(string, indexed_chunk) dict"
  st_document_hashes :: "(string, string) dict"
  st_document_chunk_ids :: "(string, string list) dict"
  st_document_metadata :: "(string, (string, string) dict) dict"
  st_document_text :: "(string, string) dict"
  st_document_tokens :: "(string, string list list) dict"
  st_embedded_chunk_count :: int
  st_cache_reuse_count :: int
  st_delete_count :: int
  st_deleted_chunk_count :: int
  st_query_count :: int
  st_fallback_count :: int
  st_fallback_reasons :: "(string, int) dict"
  st_query_latency_ms :: "pyfloat list"
  st_storage_profile :: string
  st_turbovec_bit_width :: int

definition is_hex_char :: "char \<Rightarrow> bool" where
  "is_hex_char c = (is_digit c \<or> 97 \<le> code c \<and> code c \<le> 102)"

definition is_sha256_hex :: "string \<Rightarrow> bool" where
  "is_sha256_hex value = (length value = 64 \<and> list_all is_hex_char value)"

definition forbidden_names :: "string list" where
  "forbidden_names = [''client_id'', ''document_text'', ''query_text'', ''chunk_text'', ''raw_document'',
     ''raw_query'', ''raw_chunk'', ''raw_payload'', ''text'']"

fun snapshot_forbidden_keys :: "pyval \<Rightarrow> string set" where
  "snapshot_forbidden_keys (PDict kvs) =
     \<Union> (set (map (\<lambda>(key, value).
       (if py_str key \<in> set forbidden_names then {py_str key} else {}) \<union> snapshot_forbidden_keys value) kvs))"
| "snapshot_forbidden_keys (PList xs) = \<Union> (set (map snapshot_forbidden_keys xs))"
| "snapshot_forbidden_keys _ = {}"

definition client_index_key :: "string \<Rightarrow> string" where
  "client_index_key client_id = sha256_text client_id"

definition is_index_token :: "string \<Rightarrow> bool" where
  "is_index_token value = (length value = 28 \<and> take 4 value = ''idx_'' \<and> list_all is_hex_char (drop 4 value))"

definition normalize_index_id :: "pyval \<Rightarrow> string res" where
  "normalize_index_id index_id =
     (case index_id of
        PNone \<Rightarrow> Inr DEFAULT_INDEX_ID
      | PStr s \<Rightarrow>
          (let value = py_strip s in
           if value = [] then Inl (ValueError ''index_id is required'')
           else if value = DEFAULT_INDEX_ID then Inr value
           else if is_index_token value then Inr value
           else Inl (ValueError ''index_id is invalid''))
      | _ \<Rightarrow> Inl (ValueError ''index_id must be a string''))"

definition index_state_key_for_client_hash :: "string \<Rightarrow> string \<Rightarrow> string" where
  "index_state_key_for_client_hash client_id_hash index_id =
     (if index_id = DEFAULT_INDEX_ID then client_id_hash else sha256_text (client_id_hash @ '':'' @ index_id))"

text \<open>One metadata value: a scalar as text, null as the empty text.\<close>

definition metadata_value :: "pyval \<Rightarrow> string res" where
  "metadata_value value = (case value of
       PBool _ \<Rightarrow> Inr (py_str value)
     | PInt _ \<Rightarrow> Inr (py_str value)
     | PFloat _ \<Rightarrow> Inr (py_str value)
     | PStr _ \<Rightarrow> Inr (py_str value)
     | PNone \<Rightarrow> Inr []
     | _ \<Rightarrow> Inl (ValueError ''metadata values must be scalar strings, numbers, booleans, or null''))"

definition add_metadata :: "pyval \<times> pyval \<Rightarrow> (string, string) dict \<Rightarrow> (string, string) dict res" where
  "add_metadata kv safe = (case kv of (key, value) \<Rightarrow>
     (let key_text = py_strip (py_str key) in
      if key_text = [] then Inl (ValueError ''metadata keys must be nonblank'')
      else res_bind (metadata_value value) (\<lambda>v. Inr (AList.update key_text v safe))))"

definition validate_metadata :: "pyval \<Rightarrow> (string, string) dict res" where
  "validate_metadata metadata = (case metadata of
       PDict kvs \<Rightarrow>
         (if snapshot_forbidden_keys (PDict kvs) \<noteq> {}
          then Inl (ValueError ''metadata contains reserved raw-payload keys'')
          else res_fold add_metadata kvs [])
     | _ \<Rightarrow> Inl (ValueError ''metadata must be an object''))"

definition normalized_chunk_hash :: "string \<Rightarrow> string" where
  "normalized_chunk_hash text = sha256_text (py_join '' '' (py_split text))"

definition zero_pad :: "nat \<Rightarrow> int \<Rightarrow> string" where
  "zero_pad w i = (let s = nat_dec (nat \<bar>i\<bar>); w' = (if i < 0 then w - 1 else w)
                   in (if i < 0 then ''-'' else []) @ replicate (w' - length s) CHR ''0'' @ s)"

definition chunk_id_for_hash :: "string \<Rightarrow> string \<Rightarrow> int \<Rightarrow> string" where
  "chunk_id_for_hash document_id chunk_hash occurrence =
     document_id @ '':'' @ take 12 chunk_hash @ '':'' @ zero_pad 4 occurrence"

definition snapshot_contains_full_float_embeddings :: "pyval \<Rightarrow> bool res" where
  "snapshot_contains_full_float_embeddings payload = (case payload of
       PDict d \<Rightarrow>
         res_bind (py_iter (pget d ''chunks'' (PTuple []))) (\<lambda>chunks.
           Inr (list_ex (\<lambda>c. case c of PDict cd \<Rightarrow> map_of cd (PStr ''embedding'') \<noteq> None | _ \<Rightarrow> False) chunks))
     | _ \<Rightarrow> Inr False)"

definition vector_keys :: "string list" where
  "vector_keys = [''stage_one_embedding'', ''refit_embedding'', ''compact_embedding'', ''turbovec_codes'', ''rerank_vector'']"

definition is_list :: "pyval \<Rightarrow> bool" where
  "is_list v = (case v of PList _ \<Rightarrow> True | _ \<Rightarrow> False)"

definition snapshot_contains_per_vector_json_arrays :: "pyval \<Rightarrow> bool res" where
  "snapshot_contains_per_vector_json_arrays payload = (case payload of
       PDict d \<Rightarrow>
         res_bind (py_iter (pget d ''chunks'' (PTuple []))) (\<lambda>chunks.
           Inr (list_ex (\<lambda>c. case c of
              PDict cd \<Rightarrow> list_ex (\<lambda>key. let value = pget cd key PNone in
                 is_list value \<or> (case value of PDict vd \<Rightarrow> list_ex is_list (map snd vd) | _ \<Rightarrow> False)) vector_keys
            | _ \<Rightarrow> False) chunks))
     | _ \<Rightarrow> Inr False)"

definition storage_profile_from_payload :: "pyval \<Rightarrow> string res" where
  "storage_profile_from_payload value =
     (if py_str value = DIRECT_TURBOVEC_STORAGE_PROFILE then Inr (py_str value)
      else Inl (ValueError ''storage_profile must be turbovec_direct''))"

definition chunk_from_payload :: "pyval \<Rightarrow> int \<Rightarrow> indexed_chunk res" where
  "chunk_from_payload payload native_dim = (case payload of
       PDict d \<Rightarrow>
         res_bind (pitem d ''chunk_id'') (\<lambda>ci.
         res_bind (pitem d ''document_id'') (\<lambda>di.
         res_bind (pitem d ''content_hash'') (\<lambda>ch.
           Inr \<lparr> c_chunk_id = py_str ci, c_document_id = py_str di, c_content_hash = py_str ch,
                 c_embedding = replicate (nat native_dim) 0 \<rparr>)))
     | _ \<Rightarrow> Inl (ValueError ''persisted chunk must be a JSON object''))"

definition eq_one :: "pyval \<Rightarrow> bool" where
  "eq_one v = (case v of PInt i \<Rightarrow> i = 1 | PBool b \<Rightarrow> b | PFloat r \<Rightarrow> py_float r = Some (Finite 1) | _ \<Rightarrow> False)"

definition to_float :: "pyval \<Rightarrow> pyfloat res" where
  "to_float v = (case v of
       PStr s \<Rightarrow> (case py_float s of None \<Rightarrow> Inl (ValueError ''could not convert string to float'') | Some x \<Rightarrow> Inr x)
     | PFloat r \<Rightarrow> (case py_float r of None \<Rightarrow> Inl (ValueError ''could not convert string to float'') | Some x \<Rightarrow> Inr x)
     | PBool b \<Rightarrow> Inr (Finite (if b then 1 else 0))
     | PInt i \<Rightarrow> (case round64 (of_int i) of Finite q \<Rightarrow> Inr (Finite q)
                  | _ \<Rightarrow> Inl (OverflowError ''int too large to convert to float''))
     | _ \<Rightarrow> Inl (TypeError ''float() argument must be a string or a number''))"

text \<open>A dict comprehension \<open>{str(k): f(v) for k, v in dict(value or {}).items()}\<close>.\<close>

definition str_keyed :: "(pyval \<Rightarrow> 'a res) \<Rightarrow> pyval \<Rightarrow> (string, 'a) dict res" where
  "str_keyed f value =
     res_bind (py_dict (py_or value (PDict []))) (\<lambda>d.
       res_fold (\<lambda>(k, v) acc. res_bind (f v) (\<lambda>w. Inr (AList.update (py_str k) w acc))) d [])"

definition restore_metadata :: "pyval \<Rightarrow> (string, string) dict res" where
  "restore_metadata value = res_bind (py_dict (py_or value (PDict []))) (\<lambda>d. validate_metadata (PDict d))"

definition add_chunk :: "int \<Rightarrow> pyval \<Rightarrow> (string, indexed_chunk) dict \<Rightarrow> (string, indexed_chunk) dict res" where
  "add_chunk native_dim payload chunks =
     res_bind (chunk_from_payload payload native_dim) (\<lambda>c. Inr (AList.update (c_chunk_id c) c chunks))"

definition state_from_payload :: "pyval \<Rightarrow> client_index_state res" where
  "state_from_payload payload = (case payload of
       PDict d \<Rightarrow>
         (if \<not> eq_one (pget d ''schema_version'' PNone) then Inl (ValueError ''unsupported engine state schema version'')
          else
            let legacy_client_id = py_str (pget d ''client_id'' (PStr []));
                client_id_hash = py_str (py_or (pget d ''client_id_hash'' PNone) (PStr (sha256_text legacy_client_id)))
            in
            res_bind (normalize_index_id (PStr (py_str (pget d ''index_id'' (PStr DEFAULT_INDEX_ID))))) (\<lambda>index_id.
            let index_key = py_str (py_or (pget d ''index_key'' PNone)
                  (PStr (index_state_key_for_client_hash client_id_hash index_id)))
            in
            res_bind (pitem d ''model'') (\<lambda>model.
            res_bind (pitem d ''provider'') (\<lambda>provider.
            res_bind (pitem d ''task'') (\<lambda>task.
            res_bind (pitem d ''native_dim'') (\<lambda>nd.
            res_bind (py_int nd) (\<lambda>native_dim.
            res_bind (restore_metadata (pget d ''metadata'' (PDict []))) (\<lambda>metadata.
            res_bind (storage_profile_from_payload (pget d ''storage_profile'' (PStr ''standard''))) (\<lambda>storage_profile.
            res_bind (py_int (pget d ''turbovec_bit_width'' (PInt 4))) (\<lambda>bit_width.
            res_bind (py_int (pget d ''embedded_chunk_count'' (PInt 0))) (\<lambda>embedded.
            res_bind (py_int (pget d ''cache_reuse_count'' (PInt 0))) (\<lambda>reuse.
            res_bind (py_int (pget d ''delete_count'' (PInt 0))) (\<lambda>deletes.
            res_bind (py_int (pget d ''deleted_chunk_count'' (PInt 0))) (\<lambda>deleted.
            res_bind (py_int (pget d ''query_count'' (PInt 0))) (\<lambda>queries.
            res_bind (py_int (pget d ''fallback_count'' (PInt 0))) (\<lambda>fallbacks.
            res_bind (str_keyed py_int (pget d ''fallback_reasons'' (PDict []))) (\<lambda>reasons.
            res_bind (py_iter (pget d ''query_latency_ms'' (PTuple []))) (\<lambda>latency_items.
            res_bind (res_mapM to_float latency_items) (\<lambda>latencies.
            res_bind (py_iter (pget d ''chunks'' (PTuple []))) (\<lambda>chunk_items.
            res_bind (res_fold (add_chunk native_dim) chunk_items []) (\<lambda>chunks.
            res_bind (str_keyed (\<lambda>v. Inr (py_str v)) (pget d ''document_hashes'' (PDict []))) (\<lambda>hashes.
            res_bind (str_keyed (\<lambda>v. res_bind (py_iter v) (\<lambda>xs. Inr (map py_str xs)))
                (pget d ''document_chunk_ids'' (PDict []))) (\<lambda>chunk_ids.
            res_bind (str_keyed restore_metadata (pget d ''document_metadata'' (PDict []))) (\<lambda>doc_metadata.
              Inr \<lparr> st_client_id = [], st_client_id_hash = client_id_hash, st_index_id = index_id,
                st_index_key = index_key, st_model = py_str model, st_provider = py_str provider,
                st_task = py_str task, st_native_dim = native_dim,
                st_name = py_str (pget d ''name'' (PStr DEFAULT_INDEX_NAME)), st_metadata = metadata,
                st_status = py_str (pget d ''status'' (PStr ACTIVE_INDEX_STATUS)),
                st_created_at = py_str (pget d ''created_at'' (PStr LEGACY_INDEX_TIMESTAMP)),
                st_updated_at = py_str (pget d ''updated_at'' (PStr LEGACY_INDEX_TIMESTAMP)),
                st_chunks = chunks, st_document_hashes = hashes, st_document_chunk_ids = chunk_ids,
                st_document_metadata = doc_metadata, st_document_text = [], st_document_tokens = [],
                st_embedded_chunk_count = embedded, st_cache_reuse_count = reuse, st_delete_count = deletes,
                st_deleted_chunk_count = deleted, st_query_count = queries, st_fallback_count = fallbacks,
                st_fallback_reasons = reasons,
                st_query_latency_ms = drop (length latencies - QUERY_LATENCY_SAMPLE_CAP) latencies,
                st_storage_profile = storage_profile, st_turbovec_bit_width = bit_width \<rparr>))))))))))))))))))))))))
     | _ \<Rightarrow> Inl (ValueError ''persisted engine state must be a JSON object''))"

definition observable_names :: "string list" where
  "observable_names = [''status'', ''route_classification'', ''storage_profile'', ''compact_backend'',
     ''native_backend'', ''retrieval_mode'', ''stage_one_backend'', ''gpu_stage_one_status'', ''gpu_fallback_reason'']"

definition observable :: "string \<times> pyval \<Rightarrow> bool" where
  "observable kv = (case kv of (key, value) \<Rightarrow> (case value of
       PBool _ \<Rightarrow> True | PInt _ \<Rightarrow> True | PFloat _ \<Rightarrow> True
     | PStr _ \<Rightarrow> key \<in> set observable_names
     | _ \<Rightarrow> False))"

definition sanitize_observability_fields :: "(string, pyval) dict \<Rightarrow> (string, pyval) dict" where
  "sanitize_observability_fields entries =
     fold (\<lambda>(key, value) safe. if observable (key, value) then AList.update key value safe else safe) entries []"

definition py_range_starts :: "nat \<Rightarrow> nat \<Rightarrow> nat list" where
  "py_range_starts len step = map (\<lambda>i. i * step) [0 ..< (len + step - 1) div step]"

definition chunk_text :: "string \<Rightarrow> int \<Rightarrow> string list res" where
  "chunk_text text character_limit =
     (if character_limit \<le> 0 then Inl (ValueError ''character_limit must be positive'')
      else let stripped = py_strip text; n = nat character_limit
           in if stripped = [] then Inr []
              else Inr (map (\<lambda>start. take n (drop start stripped)) (py_range_starts (length stripped) n)))"

section \<open>Chunking\<close>

lemma chunk_count_step:
  assumes "0 < n" and "0 < (len :: nat)"
  shows "(len + n - 1) div n = Suc ((len - n + n - 1) div n)"
proof -
  have eq: "len + n - 1 = (len - 1) + n" using assms by linarith
  have "(len - n + n - 1) div n = (len - 1) div n"
  proof (cases "len \<le> n")
    case True
    then have a: "len - n + n - 1 = n - 1" "len - 1 < n" "n - 1 < n" using assms by linarith+
    show ?thesis unfolding a(1) div_less [OF a(2)] div_less [OF a(3)] ..
  next
    case False
    then have a: "len - n + n - 1 = len - 1" by linarith
    show ?thesis unfolding a ..
  qed
  then show ?thesis unfolding eq div_add_self2 [OF assms(1) [THEN less_imp_neq, symmetric]] by (simp only: Suc_eq_plus1)
qed

lemma range_starts_step:
  assumes "0 < n" and "0 < len"
  shows "py_range_starts len n = 0 # map ((+) n) (py_range_starts (len - n) n)"
  unfolding py_range_starts_def chunk_count_step [OF assms] map_upt_Suc by simp

lemma chunks_step:
  assumes "0 < n" and "s \<noteq> []"
  shows "map (\<lambda>i. take n (drop i s)) (py_range_starts (length s) n) =
    take n s # map (\<lambda>i. take n (drop i (drop n s))) (py_range_starts (length (drop n s)) n)"
proof -
  have "0 < length s" using assms(2) by simp
  from range_starts_step [OF assms(1) this] show ?thesis by (simp add: add.commute)
qed

definition slices :: "nat \<Rightarrow> string \<Rightarrow> string list" where
  "slices n s = map (\<lambda>i. take n (drop i s)) (py_range_starts (length s) n)"

lemma slices_Nil: "0 < n \<Longrightarrow> slices n [] = []"
  by (simp add: slices_def py_range_starts_def)

lemma slices_step: "0 < n \<Longrightarrow> s \<noteq> [] \<Longrightarrow> slices n s = take n s # slices n (drop n s)"
  unfolding slices_def by (rule chunks_step)

lemma slices_partition:
  assumes "0 < n"
  shows "concat (slices n s) = s \<and> (\<forall>c \<in> set (slices n s). c \<noteq> [] \<and> length c \<le> n)
    \<and> (\<forall>c \<in> set (butlast (slices n s)). length c = n)"
proof (induction s rule: length_induct)
  case (1 s)
  show ?case
  proof (cases "s = []")
    case True
    with assms show ?thesis by (simp add: slices_Nil)
  next
    case False
    with assms have "length (drop n s) < length s" by simp
    note all = 1 [THEN spec, THEN mp, OF this]
    have IH: "concat (slices n (drop n s)) = drop n s"
      "\<forall>c \<in> set (slices n (drop n s)). c \<noteq> [] \<and> length c \<le> n"
      "\<forall>c \<in> set (butlast (slices n (drop n s))). length c = n"
      using all by (rule conjunct1, rule conjunct1 [OF conjunct2], rule conjunct2 [OF conjunct2])
    have full: "length (take n s) = n" if "slices n (drop n s) \<noteq> []"
    proof -
      from that have "drop n s \<noteq> []" by (rule contrapos_nn) (simp only: slices_Nil [OF assms])
      then show ?thesis by simp
    qed
    have hd: "take n s \<noteq> [] \<and> length (take n s) \<le> n" using False assms by simp
    have "concat (take n s # slices n (drop n s)) = s"
      by (simp only: concat.simps IH(1) append_take_drop_id)
    moreover have "\<forall>c \<in> set (take n s # slices n (drop n s)). c \<noteq> [] \<and> length c \<le> n"
      unfolding list.set ball_simps using hd IH(2) by (rule conjI)
    moreover have "\<forall>c \<in> set (butlast (take n s # slices n (drop n s))). length c = n"
    proof (cases "slices n (drop n s) = []")
      case True
      then show ?thesis by simp
    next
      case False
      then have "butlast (take n s # slices n (drop n s)) = take n s # butlast (slices n (drop n s))"
        by (simp only: butlast.simps if_False)
      then show ?thesis using full [OF False] IH(3) by (simp only: list.set ball_simps)
    qed
    ultimately show ?thesis unfolding slices_step [OF assms False] by (intro conjI)
  qed
qed

section \<open>Metadata\<close>

lemma add_metadata_keys:
  assumes "add_metadata kv safe = Inr r"
  shows "set (dkeys r) = insert (py_strip (py_str (fst kv))) (set (dkeys safe))" and "py_strip (py_str (fst kv)) \<noteq> []"
    and "dict_ok safe \<Longrightarrow> dict_ok r"
proof -
  obtain k v where kv: "kv = (k, v)" by (cases kv)
  with assms obtain w where ne: "py_strip (py_str k) \<noteq> []" and r: "r = AList.update (py_strip (py_str k)) w safe"
    by (auto simp: add_metadata_def Let_def split: if_splits)
  show "set (dkeys r) = insert (py_strip (py_str (fst kv))) (set (dkeys safe))"
    unfolding r kv fst_conv by (rule dkeys_update)
  show "py_strip (py_str (fst kv)) \<noteq> []" using ne kv by simp
  show "dict_ok safe \<Longrightarrow> dict_ok r" unfolding r by (rule dict_ok_update)
qed

lemma add_metadata_fold:
  assumes "res_fold add_metadata kvs safe = Inr r" and "dict_ok safe"
  shows "dict_ok r \<and> set (dkeys r) = set (dkeys safe) \<union> (\<lambda>kv. py_strip (py_str (fst kv))) ` set kvs
    \<and> (\<forall>kv \<in> set kvs. py_strip (py_str (fst kv)) \<noteq> [])"
  using assms
proof (induction kvs arbitrary: safe)
  case (Cons kv kvs)
  then obtain s1 where s1: "add_metadata kv safe = Inr s1" "res_fold add_metadata kvs s1 = Inr r" by auto
  from Cons.IH [OF s1(2) add_metadata_keys(3) [OF s1(1) Cons.prems(2)]] add_metadata_keys(1, 2) [OF s1(1)]
  show ?case by auto
qed simp

lemma validate_metadata_shape:
  assumes "validate_metadata m = Inr safe"
  obtains kvs where "m = PDict kvs" "snapshot_forbidden_keys m = {}" "dict_ok safe"
    "set (dkeys safe) = (\<lambda>kv. py_strip (py_str (fst kv))) ` set kvs" "\<forall>kv \<in> set kvs. py_strip (py_str (fst kv)) \<noteq> []"
proof -
  from assms obtain kvs where m: "m = PDict kvs" "snapshot_forbidden_keys (PDict kvs) = {}" "res_fold add_metadata kvs [] = Inr safe"
    by (auto simp: validate_metadata_def split: pyval.splits if_splits)
  from add_metadata_fold [OF m(3)] m that show ?thesis by auto
qed

lemma no_forbidden_key:
  assumes "snapshot_forbidden_keys (PDict kvs) = {}" and "kv \<in> set kvs"
  shows "py_str (fst kv) \<notin> set forbidden_names"
proof
  assume "py_str (fst kv) \<in> set forbidden_names"
  with assms(2) have "py_str (fst kv) \<in> snapshot_forbidden_keys (PDict kvs)"
    unfolding snapshot_forbidden_keys.simps set_map by (intro UN_I [of kv]) (auto split: prod.split)
  with assms(1) show False by simp
qed

section \<open>Telemetry\<close>

lemma sanitize_fold:
  "dict_ok safe \<Longrightarrow> dict_ok entries \<Longrightarrow> set (dkeys safe) \<inter> set (dkeys entries) = {} \<Longrightarrow>
   fold (\<lambda>(key, value) safe. if observable (key, value) then AList.update key value safe else safe) entries safe
     = safe @ filter observable entries"
proof (induction entries arbitrary: safe)
  case (Cons e es)
  obtain k v where e: "e = (k, v)" by (cases e)
  have new: "AList.update k v safe = safe @ [(k, v)]" using Cons.prems(3) e by (intro update_new) auto
  from Cons.prems show ?case
    using Cons.IH [of safe] Cons.IH [of "safe @ [(k, v)]"] by (auto simp: e new)
qed simp

lemma sanitize_filter:
  assumes "dict_ok entries"
  shows "sanitize_observability_fields entries = filter observable entries"
  using sanitize_fold [of "[]" entries] assms by (simp add: sanitize_observability_fields_def)

section \<open>Properties\<close>

text \<open>
  C34. Chunking loses nothing: for a positive limit the chunks are non-empty, at most the limit
  long, all but the last exactly the limit, and joined they are the stripped text; a limit that is
  not positive is refused.
\<close>

theorem chunk_text_partitions:
  "(limit \<le> 0 \<and> chunk_text t limit = Inl (ValueError ''character_limit must be positive''))
   \<or> (\<exists>cs. limit > 0 \<and> chunk_text t limit = Inr cs \<and> concat cs = py_strip t
        \<and> list_all (\<lambda>c. c \<noteq> [] \<and> int (length c) \<le> limit) cs
        \<and> list_all (\<lambda>c. int (length c) = limit) (butlast cs))"
proof (cases "limit \<le> 0")
  case True
  then show ?thesis by (simp add: chunk_text_def)
next
  case False
  have "chunk_text t limit = Inr (slices (nat limit) (py_strip t))"
    using False by (cases "py_strip t = []") (simp_all add: chunk_text_def Let_def slices_Nil flip: slices_def)
  with slices_partition [of "nat limit" "py_strip t"] False show ?thesis
    by (auto simp: list_all_iff nat_le_iff)
qed

text \<open>
  C35. Accepted metadata is a flat text mapping with distinct, stripped, non-blank keys, and a
  reserved raw-payload name can be among them only when stripping produced it.
\<close>

theorem validated_metadata_keys:
  assumes "validate_metadata m = Inr safe"
  shows "dict_ok safe \<and> (\<forall>k \<in> set (dkeys safe). k \<noteq> [] \<and> py_strip k = k
    \<and> (k \<in> set forbidden_names \<longrightarrow> (\<exists>kvs. m = PDict kvs \<and> (\<exists>kv \<in> set kvs. py_str (fst kv) \<noteq> k \<and> py_strip (py_str (fst kv)) = k))))"
proof -
  from assms obtain kvs where m: "m = PDict kvs" "snapshot_forbidden_keys m = {}" "dict_ok safe"
    "set (dkeys safe) = (\<lambda>kv. py_strip (py_str (fst kv))) ` set kvs" "\<forall>kv \<in> set kvs. py_strip (py_str (fst kv)) \<noteq> []"
    by (rule validate_metadata_shape)
  show ?thesis
  proof (intro conjI ballI impI)
    fix k assume "k \<in> set (dkeys safe)"
    then obtain kv where kv: "kv \<in> set kvs" "k = py_strip (py_str (fst kv))" using m(4) by auto
    show "k \<noteq> []" unfolding kv(2) using m(5) kv(1) by blast
    show "py_strip k = k" unfolding kv(2) by (rule py_strip_idem)
    assume "k \<in> set forbidden_names"
    with no_forbidden_key [OF m(2) [unfolded m(1)] kv(1)] have "py_str (fst kv) \<noteq> k" by auto
    with m(1) kv(1) kv(2) [symmetric] show "\<exists>kvs. m = PDict kvs \<and> (\<exists>kv \<in> set kvs. py_str (fst kv) \<noteq> k \<and> py_strip (py_str (fst kv)) = k)"
      by blast
  qed (rule m(3))
qed

theorem validated_metadata_keys_witness:
  "validate_metadata (PDict [(PStr '' lang'', PStr ''en''), (PStr '' text'', PInt 3)]) = Inr [(''lang'', ''en''), (''text'', ''3'')]
    \<and> py_strip ''lang'' = ''lang''
    \<and> (\<exists>kv \<in> set [(PStr '' lang'', PStr ''en''), (PStr '' text'', PInt 3)]. py_str (fst kv) \<noteq> ''text'' \<and> py_strip (py_str (fst kv)) = ''text'')"
proof -
  let ?m = "[(PStr '' lang'', PStr ''en''), (PStr '' text'', PInt 3)]"
  have ok: "validate_metadata (PDict ?m) = Inr [(''lang'', ''en''), (''text'', ''3'')]" by code_simp
  have mem: "''lang'' \<in> set (dkeys [(''lang'', ''en''), (''text'', ''3'')])"
    "''text'' \<in> set (dkeys [(''lang'', ''en''), (''text'', ''3'')])" "''text'' \<in> set forbidden_names" by code_simp+
  note keys = validated_metadata_keys [OF ok, THEN conjunct2]
  from keys mem(1) have "py_strip ''lang'' = ''lang''" by blast
  moreover from keys mem(2, 3) have "\<exists>kvs. PDict ?m = PDict kvs \<and> (\<exists>kv \<in> set kvs. py_str (fst kv) \<noteq> ''text'' \<and> py_strip (py_str (fst kv)) = ''text'')"
    by blast
  then have "\<exists>kv \<in> set ?m. py_str (fst kv) \<noteq> ''text'' \<and> py_strip (py_str (fst kv)) = ''text''"
    unfolding pyval.inject by blast
  ultimately show ?thesis using ok by blast
qed

text \<open>A reserved name written with a blank passes validation and is stored under the reserved name.\<close>

lemma reserved_key_passes_with_blank:
  "validate_metadata (PDict [(PStr '' text '', PStr ''raw'')]) = Inr [(''text'', ''raw'')]
   \<and> snapshot_forbidden_keys (PDict [(PStr ''text'', PStr ''raw'')]) = {''text''}"
  by code_simp

text \<open>
  The telemetry filter lets through only numbers, booleans and the listed status texts, keeps
  each field it lets through as it is and in place, and changes nothing when applied again.
\<close>

theorem telemetry_is_sanitized:
  assumes "dict_ok entries"
  shows "sanitize_observability_fields entries = filter observable entries
    \<and> sanitize_observability_fields (sanitize_observability_fields entries) = sanitize_observability_fields entries"
proof -
  have "dict_ok (filter observable entries)" using assms by (simp add: distinct_map_filter)
  with assms show ?thesis by (simp add: sanitize_filter)
qed

theorem telemetry_is_sanitized_witness:
  "sanitize_observability_fields [(''query'', PStr ''secret''), (''status'', PStr ''ok''), (''ms'', PFloat ''1.5'')]
     = filter observable [(''query'', PStr ''secret''), (''status'', PStr ''ok''), (''ms'', PFloat ''1.5'')]
   \<and> sanitize_observability_fields (sanitize_observability_fields [(''query'', PStr ''secret''), (''status'', PStr ''ok''), (''ms'', PFloat ''1.5'')])
     = sanitize_observability_fields [(''query'', PStr ''secret''), (''status'', PStr ''ok''), (''ms'', PFloat ''1.5'')]"
  by (rule telemetry_is_sanitized) simp

text \<open>A payload without a storage profile is refused: the assumed legacy value is not accepted.\<close>

lemma legacy_payload_refused:
  assumes "map_of d (PStr ''storage_profile'') = None"
  shows "\<not> is_ok (state_from_payload (PDict d))"
proof -
  have "storage_profile_from_payload (pget d ''storage_profile'' (PStr ''standard'')) = Inl (ValueError ''storage_profile must be turbovec_direct'')"
    using assms by (simp add: storage_profile_from_payload_def pget_def DIRECT_TURBOVEC_STORAGE_PROFILE_def)
  then show ?thesis by (simp add: state_from_payload_def is_ok_bind Let_def)
qed

end
