(* ===== verification/SegmentStore.thy ===== *)
theory SegmentStore
  imports AtomicIo EngineCore
begin

text \<open>
  The parts that the state journal (\<open>engine/state_journal_store.py\<close>) and the vector delta store
  (\<open>engine/turbovec_delta_store.py\<close>) share: a directory beside the base file with numbered segment
  files and a manifest that lists them with their digests.  The two modules spell these methods out
  twice with different names in the messages; here they are one definition over a kind, and each
  store's theory instantiates it.
\<close>

section \<open>Definitions\<close>

record store_kind =
  kind_label :: string
  kind_base_label :: string
  kind_dir_suffix :: string
  kind_segment_suffix :: string
  kind_magic :: bytes

record segment_store =
  ss_base :: path
  ss_fsync :: bool

type_synonym obj = "(pyval, pyval) dict"

definition SCHEMA_VERSION :: int where "SCHEMA_VERSION = 1"

definition ss_dir :: "store_kind \<Rightarrow> segment_store \<Rightarrow> path" where
  "ss_dir k st = with_name (ss_base st) (path_name (ss_base st) @ kind_dir_suffix k)"

definition ss_manifest_path :: "store_kind \<Rightarrow> segment_store \<Rightarrow> path" where
  "ss_manifest_path k st = ss_dir k st @ [''manifest.json'']"

definition ss_has_manifest :: "store_kind \<Rightarrow> segment_store \<Rightarrow> bool io" where
  "ss_has_manifest k st = is_file (ss_manifest_path k st)"

definition check_manifest :: "store_kind \<Rightarrow> pyval \<Rightarrow> obj res" where
  "check_manifest k v =
     res_bind (as_dict v) (\<lambda>m.
     res_bind (py_int (pget m ''schema_version'' (PInt (- 1)))) (\<lambda>version.
       if version \<noteq> SCHEMA_VERSION
       then Inl (RuntimeError (''unsupported '' @ kind_label k @ '' manifest schema version'')) else Inr m))"

definition ss_read_manifest_optional :: "store_kind \<Rightarrow> segment_store \<Rightarrow> obj option io" where
  "ss_read_manifest_optional k st =
     io_bind (is_file (ss_manifest_path k st)) (\<lambda>b.
       if \<not> b then io_return None
       else io_bind (read_text (ss_manifest_path k st)) (\<lambda>t.
            io_bind (io_lift (json_loads t)) (\<lambda>v.
            io_bind (io_lift (check_manifest k v)) (\<lambda>m. io_return (Some m)))))"

definition ss_read_manifest :: "store_kind \<Rightarrow> segment_store \<Rightarrow> obj io" where
  "ss_read_manifest k st =
     io_bind (ss_read_manifest_optional k st) (\<lambda>m. case m of
        None \<Rightarrow> io_lift (Inl (RuntimeError (kind_label k @ '' manifest is missing'')))
      | Some m \<Rightarrow> io_return m)"

definition ss_write_manifest :: "store_kind \<Rightarrow> segment_store \<Rightarrow> obj \<Rightarrow> unit io" where
  "ss_write_manifest k st m =
     (let p = ss_manifest_path k st; temporary = with_name p (path_name p @ ''.tmp'') in
      io_bind (io_lift (json_dumps pretty_style (PDict m))) (\<lambda>t.
      io_bind (write_text temporary t) (\<lambda>_.
        durable_replace temporary p (ss_fsync st))))"

definition sha256_file :: "path \<Rightarrow> string io" where
  "sha256_file p = io_bind (read_bytes p) (\<lambda>b. io_return (sha256_hex b))"

definition manifest_deltas :: "obj \<Rightarrow> obj list res" where
  "manifest_deltas m = res_bind (py_iter (pget m ''deltas'' (PList []))) (res_mapM as_dict)"

text \<open>Only the entries with a file name count; a missing manifest names no segment.\<close>

definition manifest_segment_names :: "obj option \<Rightarrow> string list res" where
  "manifest_segment_names manifest = (case manifest of
       None \<Rightarrow> Inr []
     | Some m \<Rightarrow> (if m = [] then Inr [] else
         res_bind (manifest_deltas m) (\<lambda>ds.
           Inr (map (\<lambda>d. py_str (pget d ''file_name'' PNone))
                  (filter (\<lambda>d. py_truthy (pget d ''file_name'' PNone)) ds)))))"

definition segment_path :: "store_kind \<Rightarrow> segment_store \<Rightarrow> obj \<Rightarrow> path" where
  "segment_path k st entry = path_join (ss_dir k st) (py_str (pget entry ''file_name'' (PStr [])))"

definition ss_validated_segment_path :: "store_kind \<Rightarrow> segment_store \<Rightarrow> obj \<Rightarrow> path io" where
  "ss_validated_segment_path k st entry =
     (let file_name = py_str (pget entry ''file_name'' (PStr [])); p = segment_path k st entry in
      io_bind (is_file p) (\<lambda>b.
        if file_name = [] \<or> \<not> b then io_lift (Inl (RuntimeError (kind_label k @ '' segment is missing'')))
        else io_bind (sha256_file p) (\<lambda>digest.
          if digest \<noteq> py_str (pget entry ''sha256'' (PStr []))
          then io_lift (Inl (RuntimeError (kind_label k @ '' segment failed checksum'')))
          else io_return p)))"

definition or_read :: "store_kind \<Rightarrow> segment_store \<Rightarrow> obj option \<Rightarrow> obj io" where
  "or_read k st manifest = (case manifest of None \<Rightarrow> ss_read_manifest k st | Some m \<Rightarrow> io_return m)"

definition ss_validate_base_checksum :: "store_kind \<Rightarrow> segment_store \<Rightarrow> obj option \<Rightarrow> unit io" where
  "ss_validate_base_checksum k st manifest =
     io_bind (or_read k st manifest) (\<lambda>m.
     io_bind (io_lift (as_dict (pget m ''base'' (PDict [])))) (\<lambda>base_entry.
     let recorded = py_str (pget base_entry ''sha256'' (PStr [])) in
     if recorded = [] then io_return ()
     else io_bind (sha256_file (ss_base st)) (\<lambda>digest.
       if digest \<noteq> recorded then io_lift (Inl (RuntimeError (kind_base_label k @ '' failed manifest checksum'')))
       else io_return ())))"

text \<open>Byte accounting: base, deltas, number of deltas, manifest.\<close>

definition ss_storage_file_bytes :: "store_kind \<Rightarrow> segment_store \<Rightarrow> obj option \<Rightarrow> (pyfloat \<times> int \<times> int \<times> int) io" where
  "ss_storage_file_bytes k st manifest =
     io_bind (case manifest of None \<Rightarrow> ss_read_manifest_optional k st | Some m \<Rightarrow> io_return (Some m)) (\<lambda>om.
     let m = (case om of None \<Rightarrow> [] | Some m \<Rightarrow> m) in
     io_bind (io_lift (as_dict (pget m ''base'' (PDict [])))) (\<lambda>base.
     io_bind (io_lift (to_float (pget base ''file_bytes'' (PInt 0)))) (\<lambda>base_bytes.
     io_bind (io_lift (manifest_deltas m)) (\<lambda>ds.
     io_bind (io_lift (res_mapM (\<lambda>d. py_int (pget d ''file_bytes'' (PInt 0))) ds)) (\<lambda>sizes.
     io_bind (is_file (ss_manifest_path k st)) (\<lambda>b.
     io_bind (if b then stat_size (ss_manifest_path k st) else io_return 0) (\<lambda>mb.
       io_return (base_bytes, sum_list sizes, int (length ds), mb))))))))"

fun unlink_all :: "path list \<Rightarrow> unit io" where
  "unlink_all [] = io_return ()"
| "unlink_all (p # ps) = io_bind (unlink_missing_ok p) (\<lambda>_. unlink_all ps)"

definition ss_remove_all :: "store_kind \<Rightarrow> segment_store \<Rightarrow> unit io" where
  "ss_remove_all k st =
     io_bind (is_dir (ss_dir k st)) (\<lambda>b.
       if \<not> b then io_return ()
       else io_bind (glob_suffix (ss_dir k st) (kind_segment_suffix k)) (\<lambda>ps.
            io_bind (unlink_all ps) (\<lambda>_. unlink_missing_ok (ss_manifest_path k st))))"

definition ss_restore_manifest :: "store_kind \<Rightarrow> segment_store \<Rightarrow> obj \<Rightarrow> unit io" where
  "ss_restore_manifest k st manifest =
     io_bind (mkdir_parents (ss_dir k st)) (\<lambda>_.
     io_bind (io_lift (manifest_segment_names (Some manifest))) (\<lambda>referenced.
     io_bind (ss_write_manifest k st manifest) (\<lambda>_.
     io_bind (glob_suffix (ss_dir k st) (kind_segment_suffix k)) (\<lambda>ps.
       unlink_all (filter (\<lambda>p. path_name p \<notin> set referenced) ps)))))"

text \<open>A fresh base clears the backlog: the manifest is replaced first, then the old segments go.\<close>

definition ss_anchor_base :: "store_kind \<Rightarrow> segment_store \<Rightarrow> int \<Rightarrow> obj \<Rightarrow> unit io" where
  "ss_anchor_base k st file_bytes extra =
     io_bind (ss_read_manifest_optional k st) (\<lambda>previous.
     io_bind (case previous of
                None \<Rightarrow> io_return 0
              | Some m \<Rightarrow> if m = [] then io_return 0 else io_lift (py_int (pget m ''next_seq'' (PInt 0)))) (\<lambda>next_seq.
     io_bind (mkdir_parents (ss_dir k st)) (\<lambda>_.
     io_bind (io_lift (manifest_segment_names previous)) (\<lambda>stale_segments.
     io_bind (sha256_file (ss_base st)) (\<lambda>digest.
     io_bind (ss_write_manifest k st
       [(PStr ''schema_version'', PInt SCHEMA_VERSION),
        (PStr ''base'', PDict ([(PStr ''file_name'', PStr (path_name (ss_base st))), (PStr ''sha256'', PStr digest),
           (PStr ''file_bytes'', PInt file_bytes)] @ extra)),
        (PStr ''deltas'', PList []), (PStr ''next_seq'', PInt (next_seq + 1))]) (\<lambda>_.
       unlink_all (map (path_join (ss_dir k st)) stale_segments)))))))"

text \<open>\<open>delta_rows >= base_rows * fraction\<close>, the product in floating point.\<close>

definition reaches_fraction :: "int \<Rightarrow> int \<Rightarrow> rat \<Rightarrow> bool res" where
  "reaches_fraction n base fraction = (case round64 (of_int base) of
       Finite b \<Rightarrow> Inr (case round64 (b * fraction) of Finite q \<Rightarrow> q \<le> of_int n | PosInf \<Rightarrow> False | _ \<Rightarrow> True)
     | _ \<Rightarrow> Inl (OverflowError ''int too large to convert to float''))"

subsection \<open>Segment files\<close>

definition le64 :: "int \<Rightarrow> bytes" where
  "le64 n = map (\<lambda>i. char_of (take_bit 8 (drop_bit (8 * i) n))) [0 ..< 8]"

definition un_le64 :: "bytes \<Rightarrow> int" where
  "un_le64 bs = foldr (\<lambda>c n. int (code c) + 256 * n) bs 0"

definition pack_u64 :: "int \<Rightarrow> bytes res" where
  "pack_u64 n = (if 0 \<le> n \<and> n < 2 ^ 64 then Inr (le64 n) else Inl (ValueError ''argument out of range''))"

definition segment_name :: "store_kind \<Rightarrow> int \<Rightarrow> string" where
  "segment_name k sequence = ''delta-'' @ zero_pad 8 sequence @ kind_segment_suffix k"

text \<open>Magic, header length, header; the payload follows.\<close>

definition read_segment_header :: "store_kind \<Rightarrow> bytes \<Rightarrow> (obj \<times> bytes) res" where
  "read_segment_header k data =
     (let m = length (kind_magic k); prefix = m + 8 in
      if length data < prefix \<or> take m data \<noteq> kind_magic k
      then Inl (RuntimeError (''not a '' @ kind_label k @ '' segment''))
      else
        let header_length = un_le64 (take 8 (drop m data)) in
        if int (length data) < int prefix + header_length
        then Inl (RuntimeError (kind_label k @ '' segment header is truncated''))
        else
          res_bind (utf8_decode (take (nat header_length) (drop prefix data))) (\<lambda>t.
          res_bind (json_loads t) (\<lambda>h.
          res_bind (as_dict h) (\<lambda>header.
          res_bind (py_int (pget header ''schema_version'' (PInt (- 1)))) (\<lambda>version.
            if version \<noteq> SCHEMA_VERSION
            then Inl (RuntimeError (''unsupported '' @ kind_label k @ '' segment schema version''))
            else Inr (header, drop (prefix + nat header_length) data))))))"

text \<open>
  Publishing one segment: the file is written and replaced, then the manifest gets its entry and
  the next sequence number.
\<close>

definition ss_append :: "store_kind \<Rightarrow> segment_store \<Rightarrow> obj \<Rightarrow> int \<Rightarrow> pyval \<Rightarrow> bytes \<Rightarrow> obj \<Rightarrow> (string \<times> int) io" where
  "ss_append k st manifest sequence header payload extra =
     io_bind (io_lift (json_dumps sorted_style header)) (\<lambda>hj.
     let header_blob = utf8_encode hj; name = segment_name k sequence;
         path = path_join (ss_dir k st) name; temporary = with_name path (path_name path @ ''.tmp'') in
     io_bind (mkdir_parents (ss_dir k st)) (\<lambda>_.
     io_bind (io_lift (pack_u64 (int (length header_blob)))) (\<lambda>len_blob.
     io_bind (write_bytes temporary (kind_magic k @ len_blob @ header_blob @ payload)) (\<lambda>_.
     io_bind (durable_replace temporary path (ss_fsync st)) (\<lambda>_.
     io_bind (stat_size path) (\<lambda>file_bytes.
     io_bind (io_lift (py_iter (pget manifest ''deltas'' (PList [])))) (\<lambda>old.
     io_bind (sha256_file path) (\<lambda>digest.
     io_bind (ss_write_manifest k st
        (AList.update (PStr ''next_seq'') (PInt (sequence + 1))
          (AList.update (PStr ''deltas'') (PList (old @ [PDict
             ([(PStr ''file_name'', PStr name), (PStr ''sha256'', PStr digest),
               (PStr ''file_bytes'', PInt file_bytes), (PStr ''seq'', PInt sequence)] @ extra)]))
            manifest))) (\<lambda>_.
       io_return (name, file_bytes))))))))))"

section \<open>The length prefix\<close>

lemma code_char_of_int: "0 \<le> n \<Longrightarrow> n < 256 \<Longrightarrow> int (code (char_of n)) = n" for n :: int
proof -
  assume "0 \<le> n" "n < 256"
  then have "of_char (char_of n :: char) = n" by simp
  moreover have "int (code (char_of n)) = of_char (char_of n :: char)" unfolding code_def by (metis of_char_def of_nat_of_char)
  ultimately show ?thesis by simp
qed

lemma un_le64_prefix:
  "un_le64 (map (\<lambda>i. char_of (take_bit 8 (drop_bit (8 * i) n))) [0 ..< k]) = n mod 2 ^ (8 * k)" for n :: int
proof (induction k arbitrary: n)
  case 0
  show ?case by (simp add: un_le64_def)
next
  case (Suc k)
  let ?f = "\<lambda>(n :: int) i. char_of (take_bit 8 (drop_bit (8 * i) n)) :: char"
  have "map (?f n) [0 ..< Suc k] = ?f n 0 # map (?f (drop_bit 8 n)) [0 ..< k]"
    by (simp add: map_upt_Suc drop_bit_drop_bit add.commute del: upt_Suc)
  then have "un_le64 (map (?f n) [0 ..< Suc k]) = n mod 256 + 256 * (drop_bit 8 n mod 2 ^ (8 * k))"
    using Suc.IH [of "drop_bit 8 n"] code_char_of_int [of "take_bit 8 n"]
    by (simp add: un_le64_def take_bit_eq_mod del: upt_Suc)
  also have "\<dots> = n mod (256 * 2 ^ (8 * k))"
    using zmod_zmult2_eq [of "2 ^ (8 * k)" n 256] by (simp add: drop_bit_eq_div)
  also have "256 * 2 ^ (8 * k) = (2 :: int) ^ (8 * Suc k)" by (simp add: power_add)
  finally show ?case .
qed

lemma le64_roundtrip: "0 \<le> n \<Longrightarrow> n < 2 ^ 64 \<Longrightarrow> un_le64 (le64 n) = n"
  unfolding le64_def un_le64_prefix [of n 8] by simp

lemma le64_length [simp]: "length (le64 n) = 8"
  by (simp add: le64_def)

section \<open>Objects after a round trip\<close>

definition sorted_obj :: "obj \<Rightarrow> obj" where
  "sorted_obj d = sort_key (\<lambda>p. py_str (fst p)) (map (\<lambda>(k, v). (k, key_sorted v)) d)"

lemma key_sorted_PDict: "key_sorted (PDict d) = PDict (sorted_obj d)"
  by (simp add: sorted_obj_def)

lemma dict_ok_sort: "dict_ok (sort_key g xs) = dict_ok xs"
  by (simp add: distinct_map)

lemma dict_ok_map_values: "dict_ok (map (\<lambda>(k, v). (k, f v)) d) = dict_ok d"
  by (simp add: case_prod_unfold comp_def)

lemma sorted_obj_keys: "dict_ok d \<Longrightarrow> dict_ok (sorted_obj d)"
  unfolding sorted_obj_def dict_ok_sort dict_ok_map_values .

lemma map_of_sorted_obj:
  assumes "dict_ok d"
  shows "map_of (sorted_obj d) k = map_option key_sorted (map_of d k)"
proof -
  let ?m = "map (\<lambda>(k, v). (k, key_sorted v)) d"
  have "dict_ok ?m" using assms unfolding dict_ok_map_values .
  moreover have "set (sorted_obj d) = set ?m" "dict_ok (sorted_obj d)"
    using sorted_obj_keys [OF assms] by (simp_all add: sorted_obj_def)
  ultimately have "map_of (sorted_obj d) k = map_of ?m k" by (metis map_of_eqI map_of_eq_Some_iff option.exhaust)
  then show ?thesis by (simp add: map_of_map)
qed

lemma pget_sorted_obj: "dict_ok d \<Longrightarrow> pget (sorted_obj d) k (key_sorted v) = key_sorted (pget d k v)"
  by (simp add: pget_def map_of_sorted_obj split: option.split)

lemma pget_sorted_scalar:
  "dict_ok d \<Longrightarrow> key_sorted v = v \<Longrightarrow> key_sorted (pget d k v) = pget d k v \<Longrightarrow> pget (sorted_obj d) k v = pget d k v"
  using pget_sorted_obj [of d k v] by simp

section \<open>The length of a dump\<close>

fun json_weight :: "pyval \<Rightarrow> nat" where
  "json_weight (PInt i) = nat \<bar>i\<bar> + 2"
| "json_weight (PStr s) = 6 * length s + 2"
| "json_weight (PFloat r) = length r + 9"
| "json_weight (PList xs) = 2 + sum_list (map (\<lambda>x. json_weight x + 2) xs)"
| "json_weight (PDict kvs) = 2 + sum_list (map (\<lambda>(k, v). json_weight k + json_weight v + 4) kvs)"
| "json_weight _ = 5"

lemma json_str_length: "length (json_str s) \<le> 6 * length s + 2"
proof -
  have "length (json_char c) \<le> 6" for c by (simp add: json_char_def hex2_def)
  then have "length (concat (map json_char s)) \<le> 6 * length s" by (induction s) (simp_all add: add_mono)
  then show ?thesis by (simp add: json_str_def)
qed

lemma nat_dec_length: "length (nat_dec n) \<le> Suc n"
proof (induction n rule: nat_dec.induct)
  case (1 n)
  then show ?case by (subst nat_dec.simps) (cases "n < 10"; fastforce)
qed

lemma int_dec_length: "length (int_dec i) \<le> nat \<bar>i\<bar> + 2"
  using nat_dec_length [of "nat i"] nat_dec_length [of "nat (- i)"] by (simp add: int_dec_def)

lemma py_join_length: "length (py_join sep xs) \<le> sum_list (map (\<lambda>x. length x + length sep) xs)"
  by (induction sep xs rule: py_join.induct) simp_all

lemma sum_list_sort_key: "sum_list (map f (sort_key g xs)) = sum_list (map f xs)" for f :: "'a \<Rightarrow> nat"
proof -
  have "sum_list (map f (insort_key g x ys)) = f x + sum_list (map f ys)" for x ys by (induction ys) simp_all
  then show ?thesis by (induction xs) simp_all
qed

lemma sorted_style_fields: "item_sep sorted_style = '', ''" "key_sep sorted_style = '': ''" "sort_keys sorted_style" "newline_at sorted_style l = []"
  by (simp_all add: sorted_style_def plain_style_def newline_at_def)

lemma wrap_items_length: "length (wrap_items sorted_style level l r items) \<le> 2 + sum_list (map (\<lambda>x. length x + 2) items)"
  using py_join_length [of "'', ''" items] by (simp add: wrap_items_def sorted_style_fields)

lemma dumps_items_length:
  "res_mapM f xs = Inr ys \<Longrightarrow> (\<And>x y. x \<in> set xs \<Longrightarrow> f x = Inr y \<Longrightarrow> g y \<le> h x) \<Longrightarrow> sum_list (map g ys) \<le> sum_list (map h xs)" for h :: "'a \<Rightarrow> nat"
proof (induction xs arbitrary: ys)
  case (Cons x xs)
  then obtain y ys' where "ys = y # ys'" "f x = Inr y" "res_mapM f xs = Inr ys'" by auto
  with Cons show ?case by (auto intro!: add_mono)
qed simp

lemma dumps_length:
  "json_ok v \<Longrightarrow> dumps_at sorted_style level v = Inr t \<Longrightarrow> length t \<le> json_weight v"
proof (induction v arbitrary: level t)
  case (PList xs)
  then obtain items where items: "res_mapM (dumps_at sorted_style (Suc level)) xs = Inr items"
    "t = wrap_items sorted_style level CHR ''['' CHR '']'' items" by auto
  have "sum_list (map (\<lambda>x. length x + 2) items) \<le> sum_list (map (\<lambda>x. json_weight x + 2) xs)"
    using PList by (intro dumps_items_length [OF items(1)]) (auto simp: list_all_iff)
  then show ?case using wrap_items_length [of level "CHR ''[''" "CHR '']''" items] by (simp add: items(2))
next
  case (PDict kvs)
  then obtain items where items: "res_mapM (\<lambda>(k, v). res_bind (json_key k) (\<lambda>ks. res_bind (dumps_at sorted_style (Suc level) v) (\<lambda>vs. Inr (ks, vs)))) kvs = Inr items"
    "t = wrap_items sorted_style level CHR ''{'' CHR ''}'' (map (\<lambda>(k, v). json_str k @ '': '' @ v) (sort_key fst items))"
    by (auto simp: sorted_style_fields arrange_def raise_if_def split: if_splits)
  have "length (json_str (fst y) @ '': '' @ snd y) + 2 \<le> (case x of (k, v) \<Rightarrow> json_weight k + json_weight v + 4)"
    if "x \<in> set kvs" "(case x of (k, v) \<Rightarrow> res_bind (json_key k) (\<lambda>ks. res_bind (dumps_at sorted_style (Suc level) v) (\<lambda>vs. Inr (ks, vs)))) = Inr y" for x y
  proof -
    obtain k v where x: "x = (k, v)" by (cases x)
    with that(1) PDict.prems(1) obtain s where k: "k = PStr s" "json_ok v" by (cases k) (auto simp: list_all_iff)
    from that(2) x k obtain vs where y: "y = (s, vs)" "dumps_at sorted_style (Suc level) v = Inr vs" by (auto simp: json_key_def)
    have "length vs \<le> json_weight v" using PDict.IH [of x v "Suc level" vs] that(1) k(2) y(2) by (simp add: x snds.simps)
    then show ?thesis using json_str_length [of s] by (simp add: x k y)
  qed
  from dumps_items_length [OF items(1) this]
  have "sum_list (map (\<lambda>y. length (json_str (fst y) @ '': '' @ snd y) + 2) items) \<le> sum_list (map (\<lambda>(k, v). json_weight k + json_weight v + 4) kvs)" .
  then show ?case
    using wrap_items_length [of level "CHR ''{''" "CHR ''}''" "map (\<lambda>(k, v). json_str k @ '': '' @ v) (sort_key fst items)"]
    unfolding items(2) map_map comp_def case_prod_unfold sum_list_sort_key json_weight.simps by simp
qed (auto simp: json_float_def intro: order_trans [OF int_dec_length] json_str_length [simplified])

lemma utf8_encode_length: "length (utf8_encode t) \<le> 2 * length t"
proof (induction t)
  case (Cons c t)
  moreover have "length (utf8_char c) \<le> 2" by (simp add: utf8_char_def)
  ultimately show ?case by (simp add: utf8_encode_def)
qed (simp add: utf8_encode_def)

lemma dumps_fits:
  assumes "json_ok v" and "json_weight v \<le> 1000000"
  shows "\<exists>t. json_dumps sorted_style v = Inr t \<and> int (length (utf8_encode t)) < 2 ^ 64"
proof -
  obtain t where t: "json_dumps sorted_style v = Inr t" using json_dumps_ok [OF _ assms(1)] by fastforce
  then have "length t \<le> json_weight v" using dumps_length [OF assms(1)] by (simp add: json_dumps_def)
  with t utf8_encode_length [of t] assms(2) show ?thesis by auto
qed

section \<open>Names\<close>

definition kind_ok :: "store_kind \<Rightarrow> bool" where
  "kind_ok k = (kind_segment_suffix k \<noteq> [] \<and> CHR ''/'' \<notin> set (kind_segment_suffix k) \<and> last (kind_segment_suffix k) \<noteq> CHR ''p''
     \<and> \<not> py_endswith ''manifest.json'' (kind_segment_suffix k))"

lemma dec_nat_zeros: "dec_nat (replicate n CHR ''0'' @ s) = dec_nat s"
proof -
  have "foldl (\<lambda>n c. 10 * n + digit_val c) 0 (replicate n CHR ''0'') = 0"
    by (induction n) (simp_all add: digit_val_def code_def)
  then show ?thesis by (simp add: dec_nat_def)
qed

lemma zero_pad_inject: "0 \<le> i \<Longrightarrow> 0 \<le> j \<Longrightarrow> zero_pad w i = zero_pad w j \<longleftrightarrow> i = j"
proof
  assume ij: "0 \<le> i" "0 \<le> j" and eq: "zero_pad w i = zero_pad w j"
  have "dec_nat (zero_pad w n) = nat n" if "0 \<le> n" for n
    using that by (simp add: zero_pad_def dec_nat_zeros Let_def)
  from this [of i] this [of j] eq ij show "i = j" by simp
qed simp

lemma zero_pad_plain: "0 \<le> i \<Longrightarrow> CHR ''/'' \<notin> set (zero_pad w i)"
  using nat_dec_digits [of "nat \<bar>i\<bar>"] by (auto simp: zero_pad_def is_digit_def code_def Let_def)

lemma segment_name_inject: "0 \<le> i \<Longrightarrow> 0 \<le> j \<Longrightarrow> segment_name k i = segment_name k j \<longleftrightarrow> i = j"
  by (simp add: segment_name_def zero_pad_inject)

lemma segment_name_join: "kind_ok k \<Longrightarrow> 0 \<le> i \<Longrightarrow> path_join p (segment_name k i) = p @ [segment_name k i]"
  using zero_pad_plain [of i 8] by (intro path_join_plain) (auto simp: segment_name_def kind_ok_def)

lemma segment_name_ne:
  assumes "kind_ok k"
  shows "segment_name k i \<noteq> ''manifest.json''" "segment_name k i \<noteq> ''manifest.json.tmp''"
    and "segment_name k i @ ''.tmp'' \<noteq> ''manifest.json''" "segment_name k i @ ''.tmp'' \<noteq> ''manifest.json.tmp''"
    and "segment_name k i @ ''.tmp'' \<noteq> segment_name k j"
proof -
  have "last (segment_name k i @ ''.tmp'') = CHR ''p''" by simp
  moreover have "last (segment_name k j) \<noteq> CHR ''p''" using assms by (simp add: segment_name_def kind_ok_def)
  ultimately show "segment_name k i @ ''.tmp'' \<noteq> segment_name k j" by metis
qed (simp_all add: segment_name_def)

section \<open>Publishing segments and manifests\<close>

definition store_ready :: "store_kind \<Rightarrow> segment_store \<Rightarrow> fs \<Rightarrow> bool" where
  "store_ready k st s \<longleftrightarrow> is_dir_at s (ss_dir k st) \<and> (\<forall>q. prefix q (ss_dir k st) \<longrightarrow> file_at s q = None)
     \<and> (\<forall>name. \<not> is_dir_at s (ss_dir k st @ [name]))"

lemma tmp_of_snoc: "tmp_of (d @ [name]) = d @ [name @ ''.tmp'']"
  by (simp add: tmp_of_def with_name_def path_name_def)

lemma store_ready_publishable: "store_ready k st s \<Longrightarrow> publishable s (ss_dir k st @ [name])"
  by (simp add: store_ready_def publishable_def can_write_def tmp_of_snoc)

lemma store_ready_frame:
  assumes "store_ready k st s" and "\<And>d. is_dir_at s' d = is_dir_at s d"
    and "\<And>q. prefix q (ss_dir k st) \<Longrightarrow> file_at s' q = file_at s q"
  shows "store_ready k st s'"
  using assms by (simp add: store_ready_def)

lemma mkdir_ready:
  assumes "store_ready k st s"
  shows "io_result (mkdir_parents (ss_dir k st)) s = Inr ()" "io_ops (mkdir_parents (ss_dir k st)) s = [Mkdir (ss_dir k st)]"
    and "store_ready k st (run_op (Mkdir (ss_dir k st)) s)"
proof -
  have "\<not> list_ex (\<lambda>q. file_at s q \<noteq> None) (prefixes (ss_dir k st))"
    using assms by (auto simp: store_ready_def list_ex_iff)
  then show "io_result (mkdir_parents (ss_dir k st)) s = Inr ()" "io_ops (mkdir_parents (ss_dir k st)) s = [Mkdir (ss_dir k st)]"
    by (simp_all add: mkdir_parents_def io_result_def io_ops_def)
  show "store_ready k st (run_op (Mkdir (ss_dir k st)) s)"
    using assms by (auto simp: store_ready_def prefix_def)
qed

lemma publish_ready:
  assumes "store_ready k st s"
  shows "store_ready k st (run_ops (publish_trace (tmp_of (ss_dir k st @ [n])) (ss_dir k st @ [n]) b f) s)"
proof (rule store_ready_frame [OF assms publish_dirs])
  fix q assume "prefix q (ss_dir k st)"
  then have "q \<noteq> ss_dir k st @ [n]" "q \<noteq> tmp_of (ss_dir k st @ [n])" by (auto simp: tmp_of_snoc prefix_def)
  with tmp_of_ne [of "ss_dir k st @ [n]"] show "file_at (run_ops (publish_trace (tmp_of (ss_dir k st @ [n])) (ss_dir k st @ [n]) b f) s) q = file_at s q"
    by (simp add: publish_state)
qed

lemma write_manifest_trace:
  assumes "store_ready k st s" and "json_dumps pretty_style (PDict m) = Inr t"
  shows "io_result (ss_write_manifest k st m) s = Inr ()"
    and "io_ops (ss_write_manifest k st m) s =
      publish_trace (tmp_of (ss_manifest_path k st)) (ss_manifest_path k st) (utf8_encode t) (ss_fsync st)"
  using publish_ok [of s "tmp_of (ss_manifest_path k st)" "ss_manifest_path k st" "utf8_encode t" "ss_fsync st"]
    store_ready_publishable [OF assms(1), of "''manifest.json''"] assms(2)
  by (simp_all add: ss_write_manifest_def write_text_def publishable_def tmp_of_def [symmetric] Let_def ss_manifest_path_def)

lemma read_manifest_optional_result:
  "io_result (ss_read_manifest_optional k st) s = (case file_at s (ss_manifest_path k st) of
      None \<Rightarrow> Inr None
    | Some b \<Rightarrow> res_bind (res_bind (utf8_decode b) (\<lambda>t. res_bind (json_loads t) (check_manifest k))) (\<lambda>m. Inr (Some m)))"
  by (simp add: ss_read_manifest_optional_def res_bind_assoc split: option.split)

lemma read_manifest_optional_pure [simp]:
  "io_ops (ss_read_manifest_optional k st) s = []" "io_state (ss_read_manifest_optional k st) s = s"
proof -
  show "io_ops (ss_read_manifest_optional k st) s = []"
    by (simp add: ss_read_manifest_optional_def split: sum.split option.split)
  then show "io_state (ss_read_manifest_optional k st) s = s" by (simp add: io_state_def)
qed

lemma read_manifest_pure [simp]: "io_ops (ss_read_manifest k st) s = []" "io_state (ss_read_manifest k st) s = s"
proof -
  show "io_ops (ss_read_manifest k st) s = []"
    by (simp add: ss_read_manifest_def split: sum.split option.split)
  then show "io_state (ss_read_manifest k st) s = s" by (simp add: io_state_def)
qed

lemma read_manifest_result:
  "io_result (ss_read_manifest k st) s = (case file_at s (ss_manifest_path k st) of
      None \<Rightarrow> Inl (RuntimeError (kind_label k @ '' manifest is missing''))
    | Some b \<Rightarrow> res_bind (utf8_decode b) (\<lambda>t. res_bind (json_loads t) (check_manifest k)))"
proof (cases "file_at s (ss_manifest_path k st)")
  case None
  then show ?thesis by (simp add: ss_read_manifest_def read_manifest_optional_result)
next
  case (Some b)
  then show ?thesis
    by (cases "res_bind (utf8_decode b) (\<lambda>t. res_bind (json_loads t) (check_manifest k))")
      (simp_all add: ss_read_manifest_def read_manifest_optional_result)
qed

lemma read_manifest_cong:
  "file_at s (ss_manifest_path k st) = file_at s' (ss_manifest_path k st) \<Longrightarrow>
     io_result (ss_read_manifest k st) s = io_result (ss_read_manifest k st) s'"
  by (simp add: read_manifest_result)

lemma read_written_manifest:
  assumes "json_ok (PDict m)" and "json_dumps pretty_style (PDict m) = Inr t"
    and "pget m ''schema_version'' (PInt (- 1)) = PInt SCHEMA_VERSION"
    and "file_at s (ss_manifest_path k st) = Some (utf8_encode t)"
  shows "io_result (ss_read_manifest k st) s = Inr (sorted_obj m)"
proof -
  from dumps_reads [of pretty_style "PDict m" 0] assms(1, 2) have "json_loads t = Inr (PDict (sorted_obj m))"
    by (auto simp: json_dumps_def json_view_def key_sorted_PDict simp del: key_sorted.simps(2) intro: loads_reads)
  moreover have "pget (sorted_obj m) ''schema_version'' (PInt (- 1)) = PInt SCHEMA_VERSION"
    using assms(1, 3) pget_sorted_scalar [of m "PInt (- 1)" "''schema_version''"] by simp
  ultimately show ?thesis
    by (simp add: read_manifest_result assms(4) check_manifest_def as_dict_def)
qed

section \<open>Segment headers\<close>

lemma sorted_dumps_loads:
  assumes "json_ok (PDict h)" and "json_dumps sorted_style (PDict h) = Inr hj"
  shows "json_loads hj = Inr (PDict (sorted_obj h))"
  using dumps_reads [of sorted_style "PDict h" 0] assms
  by (auto simp: json_dumps_def json_view_def key_sorted_PDict simp del: key_sorted.simps(2) intro: loads_reads)

section \<open>Appending a segment\<close>

definition segment_data :: "store_kind \<Rightarrow> string \<Rightarrow> bytes \<Rightarrow> bytes" where
  "segment_data k hj payload = kind_magic k @ le64 (int (length (utf8_encode hj))) @ utf8_encode hj @ payload"

definition segment_entry :: "store_kind \<Rightarrow> int \<Rightarrow> bytes \<Rightarrow> obj \<Rightarrow> obj" where
  "segment_entry k sequence data extra =
     [(PStr ''file_name'', PStr (segment_name k sequence)), (PStr ''sha256'', PStr (sha256_hex data)),
      (PStr ''file_bytes'', PInt (int (length data))), (PStr ''seq'', PInt sequence)] @ extra"

definition appended_manifest :: "obj \<Rightarrow> int \<Rightarrow> obj \<Rightarrow> obj" where
  "appended_manifest m sequence entry =
     (case pget m ''deltas'' (PList []) of PList old \<Rightarrow>
        AList.update (PStr ''next_seq'') (PInt (sequence + 1))
          (AList.update (PStr ''deltas'') (PList (old @ [PDict entry])) m)
      | _ \<Rightarrow> m)"

definition append_trace :: "store_kind \<Rightarrow> segment_store \<Rightarrow> int \<Rightarrow> bytes \<Rightarrow> bytes \<Rightarrow> fs_op list" where
  "append_trace k st sequence data manifest =
     Mkdir (ss_dir k st) #
     publish_trace (tmp_of (ss_dir k st @ [segment_name k sequence])) (ss_dir k st @ [segment_name k sequence]) data (ss_fsync st) @
     publish_trace (tmp_of (ss_manifest_path k st)) (ss_manifest_path k st) manifest (ss_fsync st)"

lemma append_runs:
  assumes "kind_ok k" and "store_ready k st s" and "0 \<le> sequence"
    and "json_dumps sorted_style header = Inr hj" and "int (length (utf8_encode hj)) < 2 ^ 64"
    and "pget m ''deltas'' (PList []) = PList old"
    and "json_dumps pretty_style (PDict (appended_manifest m sequence (segment_entry k sequence (segment_data k hj payload) extra))) = Inr mj"
  shows "io_result (ss_append k st m sequence header payload extra) s =
      Inr (segment_name k sequence, int (length (segment_data k hj payload)))"
    and "io_ops (ss_append k st m sequence header payload extra) s =
      append_trace k st sequence (segment_data k hj payload) (utf8_encode mj)"
proof -
  let ?seg = "ss_dir k st @ [segment_name k sequence]" and ?data = "segment_data k hj payload"
  define s1 where "s1 = run_op (Mkdir (ss_dir k st)) s"
  define s2 where "s2 = run_ops (publish_trace (tmp_of ?seg) ?seg ?data (ss_fsync st)) s1"
  note mk = mkdir_ready [OF assms(2)]
  have path: "path_join (ss_dir k st) (segment_name k sequence) = ?seg" by (rule segment_name_join [OF assms(1, 3)])
  have tmp: "with_name ?seg (path_name ?seg @ ''.tmp'') = tmp_of ?seg" by (simp add: tmp_of_def)
  have ready1: "store_ready k st s1" unfolding s1_def by (rule mk(3))
  have st1: "io_state (mkdir_parents (ss_dir k st)) s = s1" by (simp add: io_state_def mk(2) s1_def)
  have pub: "io_result (io_bind (write_bytes (tmp_of ?seg) ?data) (\<lambda>_. durable_replace (tmp_of ?seg) ?seg (ss_fsync st))) s1 = Inr ()"
    "io_ops (io_bind (write_bytes (tmp_of ?seg) ?data) (\<lambda>_. durable_replace (tmp_of ?seg) ?seg (ss_fsync st))) s1 =
      publish_trace (tmp_of ?seg) ?seg ?data (ss_fsync st)"
    using store_ready_publishable [OF ready1, of "segment_name k sequence"]
    by (intro publish_ok; simp add: publishable_def)+
  have ready2: "store_ready k st s2" unfolding s2_def by (rule publish_ready [OF ready1])
  have seg2: "file_at s2 ?seg = Some ?data" unfolding s2_def by (simp add: publish_state tmp_of_ne)
  note wm = write_manifest_trace [OF ready2 assms(7)]
  have pack: "pack_u64 (int (length (utf8_encode hj))) = Inr (le64 (int (length (utf8_encode hj))))"
    using assms(5) by (simp add: pack_u64_def)
  let ?m = "\<lambda>file_bytes digest. AList.update (PStr ''next_seq'') (PInt (sequence + 1))
      (AList.update (PStr ''deltas'') (PList (old @ [PDict
         ([(PStr ''file_name'', PStr (segment_name k sequence)), (PStr ''sha256'', PStr digest),
           (PStr ''file_bytes'', PInt file_bytes), (PStr ''seq'', PInt sequence)] @ extra)])) m)"
  let ?rest = "io_bind (stat_size ?seg) (\<lambda>file_bytes. io_bind (sha256_file ?seg) (\<lambda>digest.
      io_bind (ss_write_manifest k st (?m file_bytes digest)) (\<lambda>_. io_return (segment_name k sequence, file_bytes))))"
  have m: "?m (int (length ?data)) (sha256_hex ?data) = appended_manifest m sequence (segment_entry k sequence ?data extra)"
    by (simp add: appended_manifest_def segment_entry_def assms(6))
  have st: "io_result (stat_size ?seg) s2 = Inr (int (length ?data))" "io_result (sha256_file ?seg) s2 = Inr (sha256_hex ?data)"
    "io_ops (stat_size ?seg) s2 = []" "io_ops (sha256_file ?seg) s2 = []"
    by (simp_all add: seg2 sha256_file_def)
  have rest: "io_result ?rest s2 = Inr (segment_name k sequence, int (length ?data))"
    "io_ops ?rest s2 = publish_trace (tmp_of (ss_manifest_path k st)) (ss_manifest_path k st) (utf8_encode mj) (ss_fsync st)"
    unfolding io_step [OF st(1, 3)] run_ops_simps(1) io_step [OF st(2, 4)] m io_step [OF wm] by simp_all
  have body: "ss_append k st m sequence header payload extra =
      io_bind (mkdir_parents (ss_dir k st)) (\<lambda>_.
      io_bind (io_bind (write_bytes (tmp_of ?seg) ?data) (\<lambda>_. durable_replace (tmp_of ?seg) ?seg (ss_fsync st))) (\<lambda>_. ?rest))"
    unfolding ss_append_def assms(4, 6) Let_def path tmp io_bind_lift pack io_bind_assoc py_iter.simps segment_data_def ..
  show "io_result (ss_append k st m sequence header payload extra) s = Inr (segment_name k sequence, int (length ?data))"
    unfolding body io_step [OF mk(1, 2)] run_ops_simps s1_def [symmetric] io_step [OF pub] s2_def [symmetric] by (rule rest(1))
  show "io_ops (ss_append k st m sequence header payload extra) s = append_trace k st sequence ?data (utf8_encode mj)"
    unfolding body io_step [OF mk(1, 2)] run_ops_simps s1_def [symmetric] io_step [OF pub] s2_def [symmetric] rest(2)
      append_trace_def by simp
qed

lemma read_header_written:
  assumes "json_ok (PDict h)" and "json_dumps sorted_style (PDict h) = Inr hj"
    and "int (length (utf8_encode hj)) < 2 ^ 64" and "pget h ''schema_version'' (PInt (- 1)) = PInt SCHEMA_VERSION"
  shows "read_segment_header k (segment_data k hj payload) = Inr (sorted_obj h, payload)"
proof -
  let ?d = "segment_data k hj payload" and ?n = "length (utf8_encode hj)"
  have parts: "take (length (kind_magic k)) ?d = kind_magic k" "take 8 (drop (length (kind_magic k)) ?d) = le64 (int ?n)"
    "take ?n (drop (length (kind_magic k) + 8) ?d) = utf8_encode hj" "drop (length (kind_magic k) + 8 + ?n) ?d = payload"
    "\<not> length ?d < length (kind_magic k) + 8" "\<not> int (length ?d) < int (length (kind_magic k) + 8) + int ?n"
    by (simp_all add: segment_data_def)
  have len: "un_le64 (le64 (int ?n)) = int ?n" using assms(3) by (intro le64_roundtrip) simp_all
  have "pget (sorted_obj h) ''schema_version'' (PInt (- 1)) = PInt SCHEMA_VERSION"
    using assms(1, 4) by (simp add: pget_sorted_scalar)
  then show ?thesis
    unfolding read_segment_header_def Let_def parts len nat_int
    using parts(5, 6) sorted_dumps_loads [OF assms(1, 2)] by (simp add: as_dict_def)
qed

definition append_paths :: "store_kind \<Rightarrow> segment_store \<Rightarrow> int \<Rightarrow> path set" where
  "append_paths k st sequence = {ss_dir k st @ [segment_name k sequence], tmp_of (ss_dir k st @ [segment_name k sequence]),
     ss_manifest_path k st, tmp_of (ss_manifest_path k st)}"

lemma append_paths_distinct:
  assumes "kind_ok k"
  shows "distinct [ss_dir k st @ [segment_name k i], tmp_of (ss_dir k st @ [segment_name k i]),
    ss_manifest_path k st, tmp_of (ss_manifest_path k st)]"
proof -
  have "segment_name k i @ ''.tmp'' \<noteq> segment_name k i" by simp
  with segment_name_ne [OF assms, of i] show ?thesis
    by (auto simp: ss_manifest_path_def tmp_of_snoc simp del: append_self_conv dest: sym)
qed

lemma append_state:
  assumes "kind_ok k"
  shows "file_at (run_ops (append_trace k st i data mb) s) q =
    (if q = ss_manifest_path k st then Some mb else if q = ss_dir k st @ [segment_name k i] then Some data
     else if q \<in> append_paths k st i then None else file_at s q)"
  using append_paths_distinct [OF assms, of st i]
  by (auto simp: append_trace_def publish_state append_paths_def)

lemma append_ready: "store_ready k st s \<Longrightarrow> store_ready k st (run_ops (append_trace k st i data mb) s)"
  unfolding append_trace_def ss_manifest_path_def by (simp add: publish_ready mkdir_ready(3))

lemma crash_publish_ready:
  assumes "store_ready k st s" and "crash s (publish_trace (tmp_of (ss_dir k st @ [n])) (ss_dir k st @ [n]) b f) s'"
  shows "store_ready k st s'"
proof (rule store_ready_frame [OF assms(1)])
  note c = crash_publish [OF assms(2)]
  have ne: "tmp_of (ss_dir k st @ [n]) \<noteq> ss_dir k st @ [n]" by (simp add: tmp_of_ne)
  show "is_dir_at s' d = is_dir_at s d" for d using c(3) [OF ne] .
  fix q assume "prefix q (ss_dir k st)"
  then have "q \<noteq> ss_dir k st @ [n]" "q \<noteq> tmp_of (ss_dir k st @ [n])" by (auto simp: tmp_of_snoc prefix_def)
  then show "file_at s' q = file_at s q" by (rule c(2) [OF ne])
qed

text \<open>
  A crash during an append leaves the old manifest, or the new one together with the new segment;
  no other file than the four of the append changes.
\<close>

lemma crash_append_trace:
  assumes "kind_ok k" and "store_ready k st s" and "crash s (append_trace k st i data mb) s'"
  shows "store_ready k st s'"
    and "q \<notin> append_paths k st i \<Longrightarrow> file_at s' q = file_at s q"
    and "file_at s' (ss_manifest_path k st) = file_at s (ss_manifest_path k st)
      \<or> file_at s' (ss_manifest_path k st) = Some mb \<and> file_at s' (ss_dir k st @ [segment_name k i]) = Some data"
proof -
  let ?seg = "ss_dir k st @ [segment_name k i]" and ?mp = "ss_manifest_path k st"
  define s1 where "s1 = run_op (Mkdir (ss_dir k st)) s"
  define s2 where "s2 = run_ops (publish_trace (tmp_of ?seg) ?seg data (ss_fsync st)) s1"
  have ready: "store_ready k st s1" "store_ready k st s2"
    unfolding s1_def s2_def using mkdir_ready(3) [OF assms(2)] publish_ready by blast+
  have ne: "tmp_of ?seg \<noteq> ?seg" "tmp_of ?mp \<noteq> ?mp" by (simp_all add: tmp_of_ne ss_manifest_path_def)
  have d: "?mp \<noteq> ?seg" "?mp \<noteq> tmp_of ?seg" "?seg \<noteq> tmp_of ?mp"
    using append_paths_distinct [OF assms(1), of st i] by auto
  from assms(3) consider "s' = s" | "crash s1 (publish_trace (tmp_of ?seg) ?seg data (ss_fsync st)) s'"
    | "crash s2 (publish_trace (tmp_of ?mp) ?mp mb (ss_fsync st)) s'"
    unfolding append_trace_def crash_Cons crash_append s1_def s2_def by auto
  then have "store_ready k st s' \<and> (\<forall>q. q \<notin> append_paths k st i \<longrightarrow> file_at s' q = file_at s q)
    \<and> (file_at s' ?mp = file_at s ?mp \<or> file_at s' ?mp = Some mb \<and> file_at s' ?seg = Some data)"
  proof cases
    case 1
    with assms(2) show ?thesis by simp
  next
    case 2
    have "store_ready k st s'" by (rule crash_publish_ready [OF ready(1) 2])
    moreover have "file_at s' q = file_at s1 q" if "q \<noteq> ?seg" "q \<noteq> tmp_of ?seg" for q
      using crash_publish(2) [OF 2 ne(1) that] .
    ultimately show ?thesis using d by (auto simp: append_paths_def s1_def)
  next
    case 3
    have "store_ready k st s'" using crash_publish_ready [OF ready(2)] 3 unfolding ss_manifest_path_def by blast
    moreover have "file_at s' q = file_at s2 q" if "q \<noteq> ?mp" "q \<noteq> tmp_of ?mp" for q
      using crash_publish(2) [OF 3 ne(2) that] .
    moreover have "file_at s' ?mp = file_at s2 ?mp \<or> file_at s' ?mp = Some mb" by (rule crash_publish(1) [OF 3 ne(2)])
    moreover have "file_at s2 q = (if q = ?seg then Some data else if q = tmp_of ?seg then None else file_at s q)" for q
      unfolding s2_def s1_def by (simp add: publish_state ne(1))
    ultimately show ?thesis using d by (auto simp: append_paths_def)
  qed
  then show "store_ready k st s'" "q \<notin> append_paths k st i \<Longrightarrow> file_at s' q = file_at s q"
    "file_at s' ?mp = file_at s ?mp \<or> file_at s' ?mp = Some mb \<and> file_at s' ?seg = Some data" by blast+
qed

section \<open>The log of segments\<close>

text \<open>
  What the two stores promise: the manifest on disk lists segments in rising sequence, every one
  of them present with its digest and readable.  The contents of those segments, in order, are the
  log.  A store supplies the parser of its segment payloads.
\<close>

definition load_with :: "store_kind \<Rightarrow> (bytes \<Rightarrow> 'seg res) \<Rightarrow> segment_store \<Rightarrow> obj \<Rightarrow> 'seg io" where
  "load_with k parse st entry =
     io_bind (ss_validated_segment_path k st entry) (\<lambda>p. io_bind (read_bytes p) (\<lambda>data. io_lift (parse data)))"

definition entries_numbered :: "store_kind \<Rightarrow> obj list \<Rightarrow> int list \<Rightarrow> bool" where
  "entries_numbered k es qs = list_all2 (\<lambda>e q. dict_ok e \<and> pget e ''seq'' (PInt (- 1)) = PInt q
     \<and> pget e ''file_name'' (PStr []) = PStr (segment_name k q) \<and> (\<exists>h. pget e ''sha256'' (PStr []) = PStr h)) es qs"

definition manifest_lists :: "store_kind \<Rightarrow> obj \<Rightarrow> int \<Rightarrow> obj list \<Rightarrow> bool" where
  "manifest_lists k m n es \<longleftrightarrow> json_ok (PDict m) \<and> pget m ''schema_version'' (PInt (- 1)) = PInt SCHEMA_VERSION
     \<and> pget m ''next_seq'' (PInt 0) = PInt n \<and> 0 \<le> n \<and> pget m ''deltas'' (PList []) = PList (map PDict es)
     \<and> (\<exists>qs. entries_numbered k es qs \<and> sorted_wrt (<) qs \<and> (\<forall>q \<in> set qs. 0 \<le> q \<and> q < n))"

definition log_ok :: "store_kind \<Rightarrow> (bytes \<Rightarrow> 'seg res) \<Rightarrow> segment_store \<Rightarrow> fs \<Rightarrow> obj \<Rightarrow> 'seg list \<Rightarrow> bool" where
  "log_ok k parse st s m sgs \<longleftrightarrow> store_ready k st s \<and> io_result (ss_read_manifest k st) s = Inr m
     \<and> (\<exists>n es. manifest_lists k m n es \<and> list_all2 (\<lambda>e sg. io_result (load_with k parse st e) s = Inr sg) es sgs)"

lemma load_with_result:
  "io_result (load_with k parse st e) s =
    (if py_str (pget e ''file_name'' (PStr [])) = [] then Inl (RuntimeError (kind_label k @ '' segment is missing''))
     else case file_at s (segment_path k st e) of
        None \<Rightarrow> Inl (RuntimeError (kind_label k @ '' segment is missing''))
      | Some b \<Rightarrow> (if sha256_hex b \<noteq> py_str (pget e ''sha256'' (PStr []))
                   then Inl (RuntimeError (kind_label k @ '' segment failed checksum'')) else parse b))"
  by (auto simp: load_with_def ss_validated_segment_path_def Let_def sha256_file_def split: option.split)

lemma load_with_cong:
  assumes "pget e ''file_name'' (PStr []) = pget e' ''file_name'' (PStr [])" and "pget e ''sha256'' (PStr []) = pget e' ''sha256'' (PStr [])"
    and "file_at s (segment_path k st e) = file_at s' (segment_path k st e)"
  shows "io_result (load_with k parse st e) s = io_result (load_with k parse st e') s'"
proof -
  have "segment_path k st e' = segment_path k st e" using assms(1) by (simp add: segment_path_def)
  with assms show ?thesis unfolding load_with_result by (simp only:)
qed

lemma sorted_entry:
  assumes "entries_numbered k es qs" and "e \<in> set es"
  shows "pget (sorted_obj e) ''seq'' (PInt (- 1)) = pget e ''seq'' (PInt (- 1))"
    and "pget (sorted_obj e) ''file_name'' (PStr []) = pget e ''file_name'' (PStr [])"
    and "pget (sorted_obj e) ''sha256'' (PStr []) = pget e ''sha256'' (PStr [])" and "dict_ok (sorted_obj e)"
proof -
  from assms obtain q h where e: "dict_ok e" "pget e ''seq'' (PInt (- 1)) = PInt q"
    "pget e ''file_name'' (PStr []) = PStr (segment_name k q)" "pget e ''sha256'' (PStr []) = PStr h"
    unfolding entries_numbered_def list_all2_conv_all_nth in_set_conv_nth by metis
  then show "pget (sorted_obj e) ''seq'' (PInt (- 1)) = pget e ''seq'' (PInt (- 1))"
    "pget (sorted_obj e) ''file_name'' (PStr []) = pget e ''file_name'' (PStr [])"
    "pget (sorted_obj e) ''sha256'' (PStr []) = pget e ''sha256'' (PStr [])"
    by (simp_all add: pget_sorted_scalar)
  show "dict_ok (sorted_obj e)" by (rule sorted_obj_keys [OF e(1)])
qed

lemma entries_numbered_sorted: "entries_numbered k es qs \<Longrightarrow> entries_numbered k (map sorted_obj es) qs"
  using sorted_entry [of k es qs]
  by (auto simp: entries_numbered_def list_all2_conv_all_nth)

lemma manifest_lists_sorted:
  assumes "manifest_lists k m n es"
  shows "manifest_lists k (sorted_obj m) n (map sorted_obj es)"
proof -
  from assms have ok: "json_ok (PDict m)" "dict_ok m" by (simp_all add: manifest_lists_def)
  have "json_ok (PDict (sorted_obj m))" using key_sorted_ok [OF ok(1)] unfolding key_sorted_PDict .
  moreover have "pget (sorted_obj m) ''deltas'' (PList []) = PList (map PDict (map sorted_obj es))"
    using pget_sorted_obj [OF ok(2), of "''deltas''" "PList []"] assms
    by (simp add: manifest_lists_def key_sorted_PDict del: key_sorted.simps(2))
  ultimately show ?thesis
    using assms entries_numbered_sorted ok(2) unfolding manifest_lists_def
    by (fastforce simp: pget_sorted_scalar)
qed

lemma pget_json_ok: "json_ok (PDict m) \<Longrightarrow> json_ok v \<Longrightarrow> json_ok (pget m k v)"
  by (auto simp: pget_def list_all_iff split: option.split dest!: map_of_SomeD)

lemma appended_lists:
  assumes "manifest_lists k m n es" and "dict_ok extra" and "list_all (\<lambda>(key, v). py_is_str key \<and> json_ok v) extra"
    and "set (dkeys extra) \<inter> {PStr ''file_name'', PStr ''sha256'', PStr ''file_bytes'', PStr ''seq''} = {}"
  shows "manifest_lists k (appended_manifest m n (segment_entry k n data extra)) (n + 1) (es @ [segment_entry k n data extra])"
proof -
  let ?e = "segment_entry k n data extra"
  from assms(1) obtain qs where qs: "entries_numbered k es qs" "sorted_wrt (<) qs" "\<forall>q \<in> set qs. 0 \<le> q \<and> q < n" "0 \<le> n"
    and ok: "json_ok (PDict m)" and old: "pget m ''deltas'' (PList []) = PList (map PDict es)"
    unfolding manifest_lists_def by blast
  have m': "appended_manifest m n ?e = AList.update (PStr ''next_seq'') (PInt (n + 1))
      (AList.update (PStr ''deltas'') (PList (map PDict (es @ [?e]))) m)"
    by (simp add: appended_manifest_def old)
  have e: "dict_ok ?e" "json_ok (PDict ?e)" "pget ?e ''seq'' (PInt (- 1)) = PInt n"
    "pget ?e ''file_name'' (PStr []) = PStr (segment_name k n)" "pget ?e ''sha256'' (PStr []) = PStr (sha256_hex data)"
    using assms(2-4) by (auto simp: segment_entry_def pget_def list_all_iff)
  have es: "list_all json_ok (map PDict es)"
    using pget_json_ok [OF ok, of "PList []" "''deltas''"] unfolding old by simp
  have upd: "list_all (\<lambda>(k, v). py_is_str k \<and> json_ok v) (AList.update (PStr a) v d)"
    if "list_all (\<lambda>(k, v). py_is_str k \<and> json_ok v) d" "json_ok v" for a v d
    using that update_set_sub [of "PStr a" v d] by (fastforce simp: list_all_iff)
  have "json_ok (PList (map PDict (es @ [?e])))" using es e(2) by (simp del: json_ok.simps(3))
  then have "json_ok (PDict (appended_manifest m n ?e))"
    using ok unfolding m' json_ok.simps(3) by (auto intro!: upd dict_ok_update simp del: json_ok.simps(2))
  moreover have "entries_numbered k (es @ [?e]) (qs @ [n])"
    using qs(1) e unfolding entries_numbered_def by (auto intro: list_all2_appendI)
  moreover have "sorted_wrt (<) (qs @ [n])" using qs(2, 3) by (auto simp: sorted_wrt_append)
  moreover have "\<forall>q \<in> set (qs @ [n]). 0 \<le> q \<and> q < n + 1" using qs(3, 4) by fastforce
  moreover have "pget (appended_manifest m n ?e) ''schema_version'' (PInt (- 1)) = PInt SCHEMA_VERSION"
    "pget (appended_manifest m n ?e) ''next_seq'' (PInt 0) = PInt (n + 1)"
    "pget (appended_manifest m n ?e) ''deltas'' (PList []) = PList (map PDict (es @ [?e]))"
    using assms(1) unfolding manifest_lists_def m' by (simp_all add: pget_def)
  ultimately show ?thesis using qs(4) unfolding manifest_lists_def by fastforce
qed

lemma numbered_path:
  assumes "kind_ok k" and "entries_numbered k es qs" and "\<forall>q \<in> set qs. 0 \<le> q \<and> q < n" and "e \<in> set es"
  obtains q where "segment_path k st e = ss_dir k st @ [segment_name k q]" "0 \<le> q" "q < n"
proof -
  from assms(2, 4) obtain q where "q \<in> set qs" "pget e ''file_name'' (PStr []) = PStr (segment_name k q)"
    unfolding entries_numbered_def list_all2_conv_all_nth in_set_conv_nth by metis
  with that [of q] assms(1, 3) segment_name_join [of k q "ss_dir k st"] show thesis by (simp add: segment_path_def)
qed

lemma old_segment_untouched:
  assumes "kind_ok k" and "0 \<le> q" and "q < n"
  shows "ss_dir k st @ [segment_name k q] \<notin> append_paths k st n"
  using assms segment_name_ne(5) [OF assms(1), of n q] segment_name_ne(1, 2) [OF assms(1), of q] segment_name_inject [of q n k]
  by (auto simp: append_paths_def ss_manifest_path_def tmp_of_snoc dest: sym)

lemma unlink_all_ok:
  "io_result (unlink_all ps) s = Inr ()"
  "file_at (io_state (unlink_all ps) s) q = (if q \<in> set ps then None else file_at s q)"
  "is_dir_at (io_state (unlink_all ps) s) d = is_dir_at s d"
proof (induction ps arbitrary: s)
  case (Cons p ps)
  have one: "io_result (unlink_missing_ok p) s = Inr ()"
    "io_ops (unlink_missing_ok p) s = (if file_at s p = None then [] else [Unlink p])" for s
    by (simp_all add: unlink_missing_ok_def io_result_def io_ops_def)
  have st: "io_state (unlink_missing_ok p) s = (if file_at s p = None then s else run_op (Unlink p) s)" for s
    by (simp add: io_state_def one(2))
  {
    case 1
    show ?case unfolding unlink_all.simps io_step(1) [OF one] by (rule Cons.IH(1))
  next
    case 2
    show ?case by (auto simp: one(1) st Cons.IH(2))
  next
    case 3
    show ?case by (simp add: one(1) st Cons.IH(3))
  }
qed simp_all

lemma res_mapM_as_dict: "res_mapM as_dict (map PDict es) = Inr es"
  by (induction es) (simp_all add: as_dict_def)

lemma manifest_deltas_lists: "manifest_lists k m n es \<Longrightarrow> manifest_deltas m = Inr es"
  by (simp add: manifest_lists_def manifest_deltas_def res_mapM_as_dict)

lemma manifest_names_lists:
  assumes "manifest_lists k m n es"
  shows "manifest_segment_names (Some m) = Inr (map (\<lambda>e. py_str (pget e ''file_name'' (PStr []))) es)"
proof -
  from assms obtain qs where qs: "entries_numbered k es qs" unfolding manifest_lists_def by blast
  have e: "pget e ''file_name'' PNone = pget e ''file_name'' (PStr []) \<and> py_truthy (pget e ''file_name'' PNone)" if "e \<in> set es" for e
  proof -
    from qs that obtain q where "pget e ''file_name'' (PStr []) = PStr (segment_name k q)"
      unfolding entries_numbered_def list_all2_conv_all_nth in_set_conv_nth by metis
    then show ?thesis by (auto simp: pget_def segment_name_def split: option.splits)
  qed
  from assms have "m \<noteq> []" by (auto simp: manifest_lists_def pget_def SCHEMA_VERSION_def)
  moreover have "filter (\<lambda>d. py_truthy (pget d ''file_name'' PNone)) es = es" using e by (intro filter_True) blast
  moreover have "map (\<lambda>d. py_str (pget d ''file_name'' PNone)) es = map (\<lambda>e. py_str (pget e ''file_name'' (PStr []))) es"
    using e by (intro map_cong refl) simp
  ultimately show ?thesis by (simp add: manifest_segment_names_def manifest_deltas_lists [OF assms])
qed

locale segment_log =
  fixes k :: store_kind and parse :: "bytes \<Rightarrow> 'seg res"
  assumes kind: "kind_ok k"
begin

lemma log_frame:
  assumes "log_ok k parse st s m sgs" and "manifest_lists k m n es" and "store_ready k st s'"
    and "\<And>q. q \<notin> append_paths k st n \<Longrightarrow> file_at s' q = file_at s q"
    and "file_at s' (ss_manifest_path k st) = file_at s (ss_manifest_path k st)"
  shows "log_ok k parse st s' m sgs"
proof -
  from assms(1) obtain n' es' where l: "manifest_lists k m n' es'"
    "list_all2 (\<lambda>e sg. io_result (load_with k parse st e) s = Inr sg) es' sgs" "io_result (ss_read_manifest k st) s = Inr m"
    unfolding log_ok_def by blast
  have same: "n' = n" using l(1) assms(2) by (auto simp: manifest_lists_def)
  obtain qs where qs: "entries_numbered k es' qs" "\<forall>q \<in> set qs. 0 \<le> q \<and> q < n"
    using l(1) same unfolding manifest_lists_def by blast
  have "io_result (load_with k parse st e) s' = io_result (load_with k parse st e) s" if "e \<in> set es'" for e
    using numbered_path [OF kind qs that] assms(4) old_segment_untouched [OF kind]
    by (intro load_with_cong) (metis, metis, metis)
  with l(2) have "list_all2 (\<lambda>e sg. io_result (load_with k parse st e) s' = Inr sg) es' sgs"
    by (auto simp: list_all2_conv_all_nth)
  moreover have "io_result (ss_read_manifest k st) s' = Inr m"
    using l(3) read_manifest_cong [OF assms(5)] by simp
  ultimately show ?thesis using l(1) assms(3) unfolding log_ok_def by blast
qed

lemma log_extended:
  assumes "log_ok k parse st s m sgs" and "manifest_lists k m n es" and "store_ready k st s'"
    and "\<And>q. q \<notin> append_paths k st n \<Longrightarrow> file_at s' q = file_at s q"
    and "parse data = Inr sg" and "file_at s' (ss_dir k st @ [segment_name k n]) = Some data"
    and extra: "dict_ok extra" "list_all (\<lambda>(key, v). py_is_str key \<and> json_ok v) extra"
      "set (dkeys extra) \<inter> {PStr ''file_name'', PStr ''sha256'', PStr ''file_bytes'', PStr ''seq''} = {}"
    and "json_dumps pretty_style (PDict (appended_manifest m n (segment_entry k n data extra))) = Inr mj"
    and "file_at s' (ss_manifest_path k st) = Some (utf8_encode mj)"
  shows "log_ok k parse st s' (sorted_obj (appended_manifest m n (segment_entry k n data extra))) (sgs @ [sg])"
proof -
  let ?e = "segment_entry k n data extra"
  let ?m = "appended_manifest m n ?e"
  from assms(1) obtain n' es' where l: "manifest_lists k m n' es'"
    "list_all2 (\<lambda>e sg. io_result (load_with k parse st e) s = Inr sg) es' sgs"
    unfolding log_ok_def by blast
  have n: "n' = n" using l(1) assms(2) by (auto simp: manifest_lists_def)
  obtain qs where qs: "entries_numbered k es' qs" "\<forall>q \<in> set qs. 0 \<le> q \<and> q < n" and "0 \<le> n"
    using l(1) n unfolding manifest_lists_def by blast
  have lists: "manifest_lists k ?m (n + 1) (es' @ [?e])" using appended_lists [OF l(1) extra] n by simp
  have old: "io_result (load_with k parse st (sorted_obj e)) s' = io_result (load_with k parse st e) s" if mem: "e \<in> set es'" for e
  proof -
    note sorted = sorted_entry [OF qs(1) mem]
    obtain q where q: "segment_path k st e = ss_dir k st @ [segment_name k q]" "0 \<le> q" "q < n"
      by (rule numbered_path [OF kind qs mem])
    from sorted(2) have "segment_path k st (sorted_obj e) = segment_path k st e" by (simp add: segment_path_def)
    with q assms(4) [OF old_segment_untouched [OF kind q(2, 3)]] show ?thesis
      by (intro load_with_cong sorted(2, 3)) simp
  qed
  obtain qs' where "entries_numbered k (es' @ [?e]) qs'" using lists unfolding manifest_lists_def by blast
  note new = sorted_entry [OF this, of ?e]
  have e: "pget ?e ''file_name'' (PStr []) = PStr (segment_name k n)" "pget ?e ''sha256'' (PStr []) = PStr (sha256_hex data)"
    by (simp_all add: segment_entry_def pget_def)
  then have "segment_path k st (sorted_obj ?e) = ss_dir k st @ [segment_name k n]"
    using new(2) segment_name_join [OF kind \<open>0 \<le> n\<close>] by (simp add: segment_path_def)
  then have "io_result (load_with k parse st (sorted_obj ?e)) s' = Inr sg"
    using new(2, 3) e assms(5, 6) by (simp add: load_with_result segment_name_def)
  with old l(2) have "list_all2 (\<lambda>e sg. io_result (load_with k parse st e) s' = Inr sg) (map sorted_obj (es' @ [?e])) (sgs @ [sg])"
    by (auto simp: list_all2_conv_all_nth nth_append)
  moreover have "io_result (ss_read_manifest k st) s' = Inr (sorted_obj ?m)"
    using lists assms(10, 11) by (intro read_written_manifest) (auto simp: manifest_lists_def)
  ultimately show ?thesis
    using manifest_lists_sorted [OF lists] assms(3) unfolding log_ok_def by blast
qed

lemma append_log:
  assumes "log_ok k parse st s m sgs" and "pget m ''next_seq'' (PInt 0) = PInt n"
    and "json_dumps sorted_style header = Inr hj" and "int (length (utf8_encode hj)) < 2 ^ 64"
    and "parse (segment_data k hj payload) = Inr sg"
    and extra: "dict_ok extra" "list_all (\<lambda>(key, v). py_is_str key \<and> json_ok v) extra"
      "set (dkeys extra) \<inter> {PStr ''file_name'', PStr ''sha256'', PStr ''file_bytes'', PStr ''seq''} = {}"
  defines "m' \<equiv> sorted_obj (appended_manifest m n (segment_entry k n (segment_data k hj payload) extra))"
  shows "io_result (ss_append k st m n header payload extra) s = Inr (segment_name k n, int (length (segment_data k hj payload)))"
    and "log_ok k parse st (io_state (ss_append k st m n header payload extra) s) m' (sgs @ [sg])"
    and "crash s (io_ops (ss_append k st m n header payload extra) s) s' \<Longrightarrow>
      log_ok k parse st s' m sgs \<or> log_ok k parse st s' m' (sgs @ [sg])"
    and "crash s (io_ops (ss_append k st m n header payload extra) s) s' \<Longrightarrow>
      store_ready k st s' \<and> (\<forall>q. q \<notin> append_paths k st n \<longrightarrow> file_at s' q = file_at s q)"
proof -
  let ?data = "segment_data k hj payload"
  let ?e = "segment_entry k n ?data extra"
  from assms(1) have ready: "store_ready k st s" by (simp add: log_ok_def)
  from assms(1, 2) obtain es where lists: "manifest_lists k m n es"
    unfolding log_ok_def manifest_lists_def by auto
  then have n: "0 \<le> n" and deltas: "pget m ''deltas'' (PList []) = PList (map PDict es)" by (simp_all add: manifest_lists_def)
  have "json_ok (PDict (appended_manifest m n ?e))"
    using appended_lists [OF lists extra] unfolding manifest_lists_def by blast
  then obtain mj where mj: "json_dumps pretty_style (PDict (appended_manifest m n ?e)) = Inr mj"
    using json_dumps_ok [of pretty_style] by fastforce
  note run = append_runs [OF kind ready n assms(3, 4) deltas mj]
  show "io_result (ss_append k st m n header payload extra) s = Inr (segment_name k n, int (length ?data))" by (rule run(1))
  note ext = log_extended [OF assms(1) lists _ _ assms(5) _ extra mj, folded m'_def]
  have "log_ok k parse st (run_ops (append_trace k st n ?data (utf8_encode mj)) s) m' (sgs @ [sg])"
    using append_paths_distinct [OF kind, of st n]
    by (intro ext append_ready [OF ready]) (auto simp: append_state [OF kind] append_paths_def)
  then show "log_ok k parse st (io_state (ss_append k st m n header payload extra) s) m' (sgs @ [sg])"
    by (simp add: io_state_def run(2))
  assume "crash s (io_ops (ss_append k st m n header payload extra) s) s'"
  note c = crash_append_trace [OF kind ready this [unfolded run(2)]]
  show "log_ok k parse st s' m sgs \<or> log_ok k parse st s' m' (sgs @ [sg])"
    using c(3) log_frame [OF assms(1) lists c(1, 2)] ext [OF c(1, 2)] by blast
  show "store_ready k st s' \<and> (\<forall>q. q \<notin> append_paths k st n \<longrightarrow> file_at s' q = file_at s q)" using c(1, 2) by blast
qed

text \<open>
  Recovery: rewriting the manifest to a committed copy restores exactly that log and leaves no
  other segment file behind.
\<close>

lemma restore_log:
  assumes "log_ok k parse st s m sgs" and "manifest_lists k m n es" and "store_ready k st s'"
    and "\<And>q. 0 \<le> q \<Longrightarrow> q < n \<Longrightarrow> file_at s' (ss_dir k st @ [segment_name k q]) = file_at s (ss_dir k st @ [segment_name k q])"
  shows "io_result (ss_restore_manifest k st m) s' = Inr ()"
    and "log_ok k parse st (io_state (ss_restore_manifest k st m) s') (sorted_obj m) sgs"
    and "py_endswith name (kind_segment_suffix k) \<Longrightarrow> file_at (io_state (ss_restore_manifest k st m) s') (ss_dir k st @ [name]) \<noteq> None \<Longrightarrow>
      name \<in> set (map (\<lambda>e. py_str (pget e ''file_name'' (PStr []))) es)"
proof -
  let ?names = "map (\<lambda>e. py_str (pget e ''file_name'' (PStr []))) es" and ?mp = "ss_manifest_path k st" and ?d = "ss_dir k st"
  from assms(2) obtain qs where qs: "entries_numbered k es qs" "\<forall>q \<in> set qs. 0 \<le> q \<and> q < n" and ok: "json_ok (PDict m)"
    "pget m ''schema_version'' (PInt (- 1)) = PInt SCHEMA_VERSION" unfolding manifest_lists_def by blast
  obtain mj where mj: "json_dumps pretty_style (PDict m) = Inr mj" using json_dumps_ok [OF _ ok(1)] by fastforce
  define s1 where "s1 = run_op (Mkdir ?d) s'"
  define s2 where "s2 = run_ops (publish_trace (tmp_of ?mp) ?mp (utf8_encode mj) (ss_fsync st)) s1"
  define ps where "ps = filter (\<lambda>p. path_name p \<notin> set ?names)
    (filter (\<lambda>p. p \<noteq> [] \<and> butlast p = ?d \<and> py_endswith (last p) (kind_segment_suffix k)) (dkeys (fs_files s2)))"
  define s3 where "s3 = io_state (unlink_all ps) s2"
  note mk = mkdir_ready [OF assms(3)]
  have ready1: "store_ready k st s1" unfolding s1_def by (rule mk(3))
  note wm = write_manifest_trace [OF ready1 mj]
  have ready2: "store_ready k st s2" unfolding s2_def ss_manifest_path_def by (rule publish_ready [OF ready1])
  have glob: "io_result (glob_suffix ?d (kind_segment_suffix k)) s2 =
      Inr (filter (\<lambda>p. p \<noteq> [] \<and> butlast p = ?d \<and> py_endswith (last p) (kind_segment_suffix k)) (dkeys (fs_files s2)))"
    by (simp add: glob_suffix_def io_result_def)
  have body: "ss_restore_manifest k st m = io_bind (mkdir_parents ?d) (\<lambda>_. io_bind (ss_write_manifest k st m) (\<lambda>_.
      io_bind (glob_suffix ?d (kind_segment_suffix k)) (\<lambda>ps. unlink_all (filter (\<lambda>p. path_name p \<notin> set ?names) ps))))"
    unfolding ss_restore_manifest_def manifest_names_lists [OF assms(2)] io_bind_lift ..
  note steps = io_step [OF mk(1, 2)] run_ops_simps s1_def [symmetric] io_step [OF wm] s2_def [symmetric] io_step [OF glob io_reads(9)] ps_def [symmetric]
  show "io_result (ss_restore_manifest k st m) s' = Inr ()" unfolding body steps by (rule unlink_all_ok(1))
  have final: "io_state (ss_restore_manifest k st m) s' = s3"
    unfolding io_state_def body steps s3_def by (simp add: io_state_def)
  have files: "file_at s3 q = (if q \<in> set ps then None else if q = ?mp then Some (utf8_encode mj) else if q = tmp_of ?mp then None else file_at s' q)" for q
    unfolding s3_def unlink_all_ok(2) by (simp add: s2_def s1_def publish_state tmp_of_ne ss_manifest_path_def)
  have ready3: "store_ready k st s3"
  proof (rule store_ready_frame [OF ready2])
    fix q assume "prefix q ?d"
    then have "length q \<le> length ?d" by (rule prefix_length_le)
    then have "q \<noteq> [] \<longrightarrow> butlast q \<noteq> ?d" by (cases q rule: rev_cases) auto
    then have "q \<notin> set ps" by (auto simp: ps_def)
    then show "file_at s3 q = file_at s2 q" by (simp add: s3_def unlink_all_ok(2))
  qed (simp add: s3_def unlink_all_ok(3))
  have "?mp \<notin> set ps" using kind by (auto simp: ps_def ss_manifest_path_def kind_ok_def)
  then have read: "io_result (ss_read_manifest k st) s3 = Inr (sorted_obj m)"
    by (intro read_written_manifest [OF ok(1) mj ok(2)]) (simp add: files)
  have load: "io_result (load_with k parse st (sorted_obj e)) s3 = io_result (load_with k parse st e) s" if mem: "e \<in> set es" for e
  proof -
    note sorted = sorted_entry [OF qs(1) mem]
    obtain q where q: "segment_path k st e = ?d @ [segment_name k q]" "0 \<le> q" "q < n" by (rule numbered_path [OF kind qs mem])
    have "path_name (segment_path k st e) \<in> set ?names"
    proof -
      from qs(1) mem obtain r where "r \<in> set qs" "pget e ''file_name'' (PStr []) = PStr (segment_name k r)"
        unfolding entries_numbered_def list_all2_conv_all_nth in_set_conv_nth by metis
      moreover from this qs(2) have "segment_path k st e = ?d @ [segment_name k r]" by (simp add: segment_path_def segment_name_join kind)
      ultimately show ?thesis using mem by (force simp: path_name_def)
    qed
    then have "segment_path k st e \<notin> set ps" by (simp add: ps_def)
    moreover have "segment_path k st e \<noteq> ?mp" "segment_path k st e \<noteq> tmp_of ?mp"
      using q segment_name_ne(1, 2) [OF kind, of q] by (simp_all add: ss_manifest_path_def tmp_of_snoc)
    ultimately have "file_at s3 (segment_path k st e) = file_at s (segment_path k st e)"
      using files assms(4) [OF q(2, 3)] q(1) by simp
    moreover from sorted(2) have "segment_path k st (sorted_obj e) = segment_path k st e" by (simp add: segment_path_def)
    ultimately show ?thesis by (intro load_with_cong sorted(2, 3)) simp
  qed
  from assms(1) obtain n' es' where "manifest_lists k m n' es'"
    "list_all2 (\<lambda>e sg. io_result (load_with k parse st e) s = Inr sg) es' sgs" unfolding log_ok_def by blast
  moreover from this(1) have "es' = es" using manifest_deltas_lists [of k m n' es'] manifest_deltas_lists [OF assms(2)] by simp
  ultimately have "list_all2 (\<lambda>e sg. io_result (load_with k parse st e) s = Inr sg) es sgs" by simp
  with load have "list_all2 (\<lambda>e sg. io_result (load_with k parse st e) s3 = Inr sg) (map sorted_obj es) sgs"
    by (auto simp: list_all2_conv_all_nth)
  then show "log_ok k parse st (io_state (ss_restore_manifest k st m) s') (sorted_obj m) sgs"
    unfolding final log_ok_def using ready3 read manifest_lists_sorted [OF assms(2)] by blast
  assume name: "py_endswith name (kind_segment_suffix k)" "file_at (io_state (ss_restore_manifest k st m) s') (?d @ [name]) \<noteq> None"
  then have "?d @ [name] \<notin> set ps" "file_at s2 (?d @ [name]) \<noteq> None"
    unfolding final s3_def unlink_all_ok(2) by (auto split: if_splits)
  moreover from this(2) have "?d @ [name] \<in> set (dkeys (fs_files s2))" by (simp add: file_at_def map_of_None_iff)
  ultimately show "name \<in> set ?names" using name(1) by (auto simp: ps_def path_name_def)
qed

end

section \<open>Anchoring a base\<close>

text \<open>A store whose directory may not exist yet, and the entries of the manifest a new base replaces.\<close>

definition store_open :: "store_kind \<Rightarrow> segment_store \<Rightarrow> fs \<Rightarrow> bool" where
  "store_open k st s \<longleftrightarrow> (\<forall>q. prefix q (ss_dir k st) \<longrightarrow> file_at s q = None) \<and> (\<forall>name. \<not> is_dir_at s (ss_dir k st @ [name]))"

definition previous_lists :: "store_kind \<Rightarrow> obj option \<Rightarrow> int \<Rightarrow> obj list \<Rightarrow> bool" where
  "previous_lists k prev n es = (case prev of None \<Rightarrow> n = 0 \<and> es = [] | Some m \<Rightarrow> manifest_lists k m n es)"

lemma store_ready_open: "store_ready k st s \<Longrightarrow> store_open k st s"
  by (simp add: store_ready_def store_open_def)

lemma mkdir_open:
  assumes "store_open k st s"
  shows "io_result (mkdir_parents (ss_dir k st)) s = Inr ()" "io_ops (mkdir_parents (ss_dir k st)) s = [Mkdir (ss_dir k st)]"
    and "store_ready k st (run_op (Mkdir (ss_dir k st)) s)"
proof -
  have "\<not> list_ex (\<lambda>q. file_at s q \<noteq> None) (prefixes (ss_dir k st))"
    using assms by (auto simp: store_open_def list_ex_iff)
  then show "io_result (mkdir_parents (ss_dir k st)) s = Inr ()" "io_ops (mkdir_parents (ss_dir k st)) s = [Mkdir (ss_dir k st)]"
    by (simp_all add: mkdir_parents_def io_result_def io_ops_def)
  show "store_ready k st (run_op (Mkdir (ss_dir k st)) s)"
    using assms by (auto simp: store_ready_def store_open_def prefix_def)
qed

definition base_manifest :: "segment_store \<Rightarrow> bytes \<Rightarrow> int \<Rightarrow> obj \<Rightarrow> int \<Rightarrow> obj" where
  "base_manifest st b file_bytes extra n =
     [(PStr ''schema_version'', PInt SCHEMA_VERSION),
      (PStr ''base'', PDict ([(PStr ''file_name'', PStr (path_name (ss_base st))), (PStr ''sha256'', PStr (sha256_hex b)),
         (PStr ''file_bytes'', PInt file_bytes)] @ extra)),
      (PStr ''deltas'', PList []), (PStr ''next_seq'', PInt (n + 1))]"

definition base_extra_ok :: "obj \<Rightarrow> bool" where
  "base_extra_ok extra \<longleftrightarrow> dict_ok extra \<and> list_all (\<lambda>(key, v). py_is_str key \<and> json_ok v) extra
     \<and> set (dkeys extra) \<inter> {PStr ''file_name'', PStr ''sha256'', PStr ''file_bytes''} = {}"

lemma base_manifest_lists:
  assumes "base_extra_ok extra" and "0 \<le> n"
  shows "manifest_lists k (base_manifest st b fb extra n) (n + 1) []"
  using assms by (auto simp: manifest_lists_def base_manifest_def base_extra_ok_def pget_def entries_numbered_def)

lemma stale_paths:
  assumes "kind_ok k" and "previous_lists k prev n es"
  shows "\<exists>names. manifest_segment_names prev = Inr names \<and> map (path_join (ss_dir k st)) names = map (segment_path k st) es"
    and "\<And>p. p \<in> segment_path k st ` set es \<Longrightarrow> \<exists>q. p = ss_dir k st @ [segment_name k q] \<and> 0 \<le> q \<and> q < n"
    and "0 \<le> n"
    and "io_result (case prev of None \<Rightarrow> io_return 0 | Some m \<Rightarrow> if m = [] then io_return 0 else io_lift (py_int (pget m ''next_seq'' (PInt 0)))) s = Inr n"
    and "io_ops (case prev of None \<Rightarrow> io_return 0 | Some m \<Rightarrow> if m = [] then io_return 0 else io_lift (py_int (pget m ''next_seq'' (PInt 0)))) s = []"
proof -
  have "(\<exists>names. manifest_segment_names prev = Inr names \<and> map (path_join (ss_dir k st)) names = map (segment_path k st) es)
    \<and> (\<forall>p \<in> segment_path k st ` set es. \<exists>q. p = ss_dir k st @ [segment_name k q] \<and> 0 \<le> q \<and> q < n) \<and> 0 \<le> n
    \<and> io_result (case prev of None \<Rightarrow> io_return 0 | Some m \<Rightarrow> if m = [] then io_return 0 else io_lift (py_int (pget m ''next_seq'' (PInt 0)))) s = Inr n"
  proof (cases prev)
    case None
    with assms(2) show ?thesis by (simp add: previous_lists_def manifest_segment_names_def)
  next
    case (Some m)
    with assms(2) have l: "manifest_lists k m n es" by (simp add: previous_lists_def)
    then obtain qs where qs: "entries_numbered k es qs" "\<forall>q \<in> set qs. 0 \<le> q \<and> q < n" unfolding manifest_lists_def by blast
    have "\<exists>q. segment_path k st e = ss_dir k st @ [segment_name k q] \<and> 0 \<le> q \<and> q < n" if "e \<in> set es" for e
      using numbered_path [OF assms(1) qs that, of st] by metis
    moreover from l have "m \<noteq> []" by (auto simp: manifest_lists_def pget_def SCHEMA_VERSION_def)
    ultimately show ?thesis
      using manifest_names_lists [OF l] l by (auto simp: Some segment_path_def manifest_lists_def)
  qed
  then show "\<exists>names. manifest_segment_names prev = Inr names \<and> map (path_join (ss_dir k st)) names = map (segment_path k st) es"
    "\<And>p. p \<in> segment_path k st ` set es \<Longrightarrow> \<exists>q. p = ss_dir k st @ [segment_name k q] \<and> 0 \<le> q \<and> q < n" "0 \<le> n"
    "io_result (case prev of None \<Rightarrow> io_return 0 | Some m \<Rightarrow> if m = [] then io_return 0 else io_lift (py_int (pget m ''next_seq'' (PInt 0)))) s = Inr n"
    by blast+
  show "io_ops (case prev of None \<Rightarrow> io_return 0 | Some m \<Rightarrow> if m = [] then io_return 0 else io_lift (py_int (pget m ''next_seq'' (PInt 0)))) s = []"
    by (simp split: option.split)
qed

lemma sha256_file_runs: "file_at s p = Some b \<Longrightarrow> io_result (sha256_file p) s = Inr (sha256_hex b) \<and> io_ops (sha256_file p) s = []"
  by (simp add: sha256_file_def)

lemma anchor_runs:
  assumes "kind_ok k" and "store_open k st s" and "file_at s (ss_base st) = Some b"
    and prev: "io_result (ss_read_manifest_optional k st) s = Inr prev" "previous_lists k prev n es"
    and mj: "json_dumps pretty_style (PDict (base_manifest st b fb extra n)) = Inr mj"
  defines "s2 \<equiv> run_ops (publish_trace (tmp_of (ss_manifest_path k st)) (ss_manifest_path k st) (utf8_encode mj) (ss_fsync st))
      (run_op (Mkdir (ss_dir k st)) s)"
  shows "io_result (ss_anchor_base k st fb extra) s = Inr ()"
    and "io_ops (ss_anchor_base k st fb extra) s = Mkdir (ss_dir k st)
      # publish_trace (tmp_of (ss_manifest_path k st)) (ss_manifest_path k st) (utf8_encode mj) (ss_fsync st)
      @ io_ops (unlink_all (map (segment_path k st) es)) s2"
proof -
  note mk = mkdir_open [OF assms(2)]
  obtain names where names: "manifest_segment_names prev = Inr names" "map (path_join (ss_dir k st)) names = map (segment_path k st) es"
    using stale_paths(1) [OF assms(1) prev(2)] by blast
  have base: "file_at (run_op (Mkdir (ss_dir k st)) s) (ss_base st) = Some b" using assms(3) by simp
  note wm = write_manifest_trace [OF mk(3) mj]
  note steps = ss_anchor_base_def io_step [OF prev(1) read_manifest_optional_pure(1)] run_ops_simps
    io_step [OF stale_paths(4, 5) [OF assms(1) prev(2)]] io_step [OF mk(1, 2)] names io_bind_lift
    io_step [OF conjunct1 [OF sha256_file_runs [OF base]] conjunct2 [OF sha256_file_runs [OF base]]] base_manifest_def [symmetric]
    io_step [OF wm] s2_def [symmetric]
  show "io_result (ss_anchor_base k st fb extra) s = Inr ()"
    unfolding steps by (rule unlink_all_ok(1))
  show "io_ops (ss_anchor_base k st fb extra) s = Mkdir (ss_dir k st)
      # publish_trace (tmp_of (ss_manifest_path k st)) (ss_manifest_path k st) (utf8_encode mj) (ss_fsync st)
      @ io_ops (unlink_all (map (segment_path k st) es)) s2"
    unfolding steps by simp
qed

lemma unlink_all_paths: "op \<in> set (io_ops (unlink_all ps) s) \<Longrightarrow> \<exists>p \<in> set ps. op = Unlink p"
proof (induction ps arbitrary: s)
  case (Cons p ps)
  have one: "io_result (unlink_missing_ok p) s = Inr ()" "io_ops (unlink_missing_ok p) s = (if file_at s p = None then [] else [Unlink p])"
    by (simp_all add: unlink_missing_ok_def io_result_def io_ops_def)
  from Cons show ?case unfolding unlink_all.simps io_step(2) [OF one] by (fastforce split: if_splits)
qed simp

lemma crash_unlinks_dirs:
  "crash s ops s' \<Longrightarrow> (\<And>op. op \<in> set ops \<Longrightarrow> \<exists>p \<in> P. op = Unlink p) \<Longrightarrow> is_dir_at s' d = is_dir_at s d"
proof (induction rule: crash.induct)
  case (step op s ops s')
  from step.prems [of op] obtain p where "op = Unlink p" by auto
  with step show ?case by simp
qed auto

context segment_log
begin

lemma empty_log:
  assumes "base_extra_ok extra" and "0 \<le> n" and "store_ready k st s" and "json_dumps pretty_style (PDict (base_manifest st b fb extra n)) = Inr mj"
    and "file_at s (ss_manifest_path k st) = Some (utf8_encode mj)"
  shows "log_ok k parse st s (sorted_obj (base_manifest st b fb extra n)) []"
proof -
  note l = base_manifest_lists [OF assms(1, 2), of k st b fb]
  then have "io_result (ss_read_manifest k st) s = Inr (sorted_obj (base_manifest st b fb extra n))"
    by (intro read_written_manifest [OF _ assms(4) _ assms(5)]) (simp_all add: manifest_lists_def)
  with manifest_lists_sorted [OF l] assms(3) show ?thesis unfolding log_ok_def by fastforce
qed

lemma stale_ne:
  assumes "previous_lists k prev n es" and "p \<in> segment_path k st ` set es"
  shows "p \<noteq> ss_manifest_path k st" and "\<not> prefix p (ss_dir k st)"
  using stale_paths(2) [OF kind assms] segment_name_ne(1) [OF kind]
  by (auto simp: ss_manifest_path_def dest: prefix_length_le)

lemma anchor_log:
  fixes fb :: int
  assumes "store_open k st s" and "file_at s (ss_base st) = Some b"
    and prev: "io_result (ss_read_manifest_optional k st) s = Inr prev" "previous_lists k prev n es"
    and extra: "base_extra_ok extra"
  defines "m' \<equiv> sorted_obj (base_manifest st b fb extra n)"
  shows "io_result (ss_anchor_base k st fb extra) s = Inr ()"
    and "log_ok k parse st (io_state (ss_anchor_base k st fb extra) s) m' []"
    and "e \<in> set es \<Longrightarrow> file_at (io_state (ss_anchor_base k st fb extra) s) (segment_path k st e) = None"
    and "log_ok k parse st s m sgs \<Longrightarrow> crash s (io_ops (ss_anchor_base k st fb extra) s) s' \<Longrightarrow>
      log_ok k parse st s' m sgs \<or> log_ok k parse st s' m' []"
proof -
  let ?mp = "ss_manifest_path k st" and ?ps = "map (segment_path k st) es"
  have n: "0 \<le> n" using stale_paths(3) [OF kind prev(2)] .
  have ok: "json_ok (PDict (base_manifest st b fb extra n))" using base_manifest_lists [OF extra n, of k] by (simp add: manifest_lists_def)
  obtain mj where mj: "json_dumps pretty_style (PDict (base_manifest st b fb extra n)) = Inr mj"
    using json_dumps_ok [OF _ ok] by fastforce
  define s1 where "s1 = run_op (Mkdir (ss_dir k st)) s"
  define s2 where "s2 = run_ops (publish_trace (tmp_of ?mp) ?mp (utf8_encode mj) (ss_fsync st)) s1"
  note run = anchor_runs [OF kind assms(1, 2) prev mj, folded s1_def, folded s2_def]
  note empty = empty_log [OF extra n _ mj, folded m'_def]
  have ne: "tmp_of ?mp \<noteq> ?mp" by (simp add: tmp_of_ne ss_manifest_path_def)
  have ready1: "store_ready k st s1" unfolding s1_def by (rule mkdir_open(3) [OF assms(1)])
  have ready2: "store_ready k st s2" unfolding s2_def ss_manifest_path_def by (rule publish_ready [OF ready1])
  have mp2: "file_at s2 ?mp = Some (utf8_encode mj)" unfolding s2_def by (simp add: publish_state ne)
  have unlinked: "log_ok k parse st t m' []" if "\<And>d. is_dir_at t d = is_dir_at s2 d" "\<And>q. q \<notin> set ?ps \<Longrightarrow> file_at t q = file_at s2 q" for t
  proof (rule empty)
    show "store_ready k st t"
      by (rule store_ready_frame [OF ready2 that(1)]) (use that(2) stale_ne(2) [OF prev(2)] in auto)
    have "?mp \<notin> set ?ps" using stale_ne(1) [OF prev(2)] by fastforce
    then show "file_at t ?mp = Some (utf8_encode mj)" using that(2) mp2 by simp
  qed
  have final: "io_state (ss_anchor_base k st fb extra) s = io_state (unlink_all ?ps) s2"
    unfolding io_state_def run(2) by (simp add: s1_def s2_def)
  show "io_result (ss_anchor_base k st fb extra) s = Inr ()" by (rule run(1))
  show "log_ok k parse st (io_state (ss_anchor_base k st fb extra) s) m' []"
    unfolding final by (rule unlinked) (simp_all add: unlink_all_ok)
  show "file_at (io_state (ss_anchor_base k st fb extra) s) (segment_path k st e) = None" if "e \<in> set es"
    using that unfolding final by (simp add: unlink_all_ok)
  assume log: "log_ok k parse st s m sgs" and "crash s (io_ops (ss_anchor_base k st fb extra) s) s'"
  then consider "s' = s" | "crash s1 (publish_trace (tmp_of ?mp) ?mp (utf8_encode mj) (ss_fsync st)) s'"
    | "crash s2 (io_ops (unlink_all ?ps) s2) s'"
    unfolding run(2) crash_Cons crash_append s1_def s2_def by auto
  then show "log_ok k parse st s' m sgs \<or> log_ok k parse st s' m' []"
  proof cases
    case 2
    have ready: "store_ready k st s'" using crash_publish_ready [OF ready1] 2 unfolding ss_manifest_path_def by blast
    from crash_publish(1) [OF 2 ne] show ?thesis
    proof
      assume old: "file_at s' ?mp = file_at s1 ?mp"
      obtain n' es' where l: "manifest_lists k m n' es'" using log unfolding log_ok_def by blast
      have "log_ok k parse st s' m sgs"
        by (rule log_frame [OF log l ready]) (use old crash_publish(2) [OF 2 ne] in \<open>auto simp: append_paths_def s1_def\<close>)
      then show ?thesis ..
    next
      assume "file_at s' ?mp = Some (utf8_encode mj)"
      with empty [OF ready] show ?thesis by blast
    qed
  next
    case 3
    have "file_at s' q = file_at s2 q" if "q \<notin> set ?ps" for q
      by (rule crash_frame [OF 3]) (use that unlink_all_paths [of _ ?ps s2] in fastforce)
    moreover have "is_dir_at s' d = is_dir_at s2 d" for d
      using 3 unlink_all_paths [of _ ?ps s2] by (rule crash_unlinks_dirs)
    ultimately show ?thesis using unlinked by blast
  qed (use log in simp)
qed

end

section \<open>Replaying a log\<close>

lemma load_with_pure: "io_ops (load_with k parse st e) s = []" "io_state (load_with k parse st e) s = s"
proof -
  show "io_ops (load_with k parse st e) s = []"
    by (simp add: load_with_def ss_validated_segment_path_def Let_def sha256_file_def split: option.split sum.split)
  then show "io_state (load_with k parse st e) s = s" by (simp add: io_state_def)
qed

text \<open>Both stores replay with the same loop: rising sequence numbers, one step for each segment.\<close>

definition replay_loop :: "(obj \<Rightarrow> 'seg io) \<Rightarrow> ('seg \<Rightarrow> 'r \<Rightarrow> 'r res) \<Rightarrow> error \<Rightarrow> (int \<Rightarrow> obj list \<Rightarrow> 'r \<Rightarrow> 'r io) \<Rightarrow> bool" where
  "replay_loop load step err rep \<longleftrightarrow> (\<forall>p r. rep p [] r = io_return r)
     \<and> (\<forall>p e es r. rep p (e # es) r = io_bind (io_lift (py_int (pget e ''seq'' (PInt (- 1))))) (\<lambda>q.
          if q \<le> p then io_lift (Inl err) else io_bind (load e) (\<lambda>sg. io_bind (io_lift (step sg r)) (\<lambda>r'. rep q es r'))))"

context segment_log
begin

lemma replay_entries_fold:
  assumes loop: "replay_loop (load_with k parse st) step err rep"
    and "entries_numbered k es qs" and "sorted_wrt (<) qs" and "\<forall>q \<in> set qs. p < q"
    and "list_all2 (\<lambda>e sg. io_result (load_with k parse st e) s = Inr sg) es sgs"
  shows "io_result (rep p es r) s = res_fold step sgs r"
  using assms(2-)
proof (induction es arbitrary: qs sgs p r)
  case Nil
  then show ?case using loop by (simp add: replay_loop_def)
next
  case (Cons e es)
  then obtain q qs' sg sgs' where qs: "qs = q # qs'" "sgs = sg # sgs'" "pget e ''seq'' (PInt (- 1)) = PInt q"
    "io_result (load_with k parse st e) s = Inr sg" "entries_numbered k es qs'"
    "list_all2 (\<lambda>e sg. io_result (load_with k parse st e) s = Inr sg) es sgs'"
    by (auto simp: entries_numbered_def list_all2_Cons1)
  have "io_result (rep q es r') s = res_fold step sgs' r'" for r'
    using Cons.prems qs by (intro Cons.IH) auto
  moreover have "p < q" using Cons.prems qs(1) by simp
  moreover have "rep p (e # es) r = io_bind (io_lift (py_int (pget e ''seq'' (PInt (- 1))))) (\<lambda>q.
      if q \<le> p then io_lift (Inl err) else io_bind (load_with k parse st e) (\<lambda>sg. io_bind (io_lift (step sg r)) (\<lambda>r'. rep q es r')))"
    using loop unfolding replay_loop_def by blast
  ultimately show ?case by (simp add: qs load_with_pure)
qed

lemma log_replay:
  assumes "log_ok k parse st s m sgs" and "replay_loop (load_with k parse st) step err rep"
  obtains es where "manifest_deltas m = Inr es" "length es = length sgs" "\<And>r. io_result (rep (- 1) es r) s = res_fold step sgs r"
proof -
  from assms(1) obtain n es qs where l: "manifest_lists k m n es" "entries_numbered k es qs" "sorted_wrt (<) qs"
    "\<forall>q \<in> set qs. 0 \<le> q \<and> q < n"
    "list_all2 (\<lambda>e sg. io_result (load_with k parse st e) s = Inr sg) es sgs"
    unfolding log_ok_def manifest_lists_def by blast
  from l(4) have "\<forall>q \<in> set qs. - 1 < q" by fastforce
  from that [OF manifest_deltas_lists [OF l(1)] list_all2_lengthD [OF l(5)] replay_entries_fold [OF assms(2) l(2, 3) this l(5)]] show thesis .
qed

lemma replay_checked:
  assumes loop: "replay_loop (load_with k parse st) step err rep" and "io_result (rep p es r) s = Inr r'"
  shows "(\<forall>e \<in> set es. \<exists>b sg. file_at s (segment_path k st e) = Some b
      \<and> sha256_hex b = py_str (pget e ''sha256'' (PStr [])) \<and> parse b = Inr sg)
    \<and> (\<exists>qs. list_all2 (\<lambda>e q. py_int (pget e ''seq'' (PInt (- 1))) = Inr q) es qs \<and> sorted_wrt (<) qs \<and> (\<forall>q \<in> set qs. p < q))"
  using assms(2)
proof (induction es arbitrary: p r)
  case (Cons e es)
  have "rep p (e # es) r = io_bind (io_lift (py_int (pget e ''seq'' (PInt (- 1))))) (\<lambda>q.
      if q \<le> p then io_lift (Inl err) else io_bind (load_with k parse st e) (\<lambda>sg. io_bind (io_lift (step sg r)) (\<lambda>r'. rep q es r')))"
    using loop unfolding replay_loop_def by blast
  with Cons.prems obtain q sg r1 where q: "py_int (pget e ''seq'' (PInt (- 1))) = Inr q" "\<not> q \<le> p" "io_result (load_with k parse st e) s = Inr sg"
    "io_result (rep q es r1) s = Inr r'"
    by (auto simp: load_with_pure split: if_splits)
  from q(3) have e: "\<exists>b sg. file_at s (segment_path k st e) = Some b \<and> sha256_hex b = py_str (pget e ''sha256'' (PStr [])) \<and> parse b = Inr sg"
    unfolding load_with_result by (auto split: if_splits option.splits)
  from Cons.IH [OF q(4)] obtain qs where qs: "list_all2 (\<lambda>e q. py_int (pget e ''seq'' (PInt (- 1))) = Inr q) es qs"
    "sorted_wrt (<) qs" "\<forall>q' \<in> set qs. q < q'" by blast
  moreover have "\<forall>q' \<in> set (q # qs). p < q'" using qs(3) q(2) by fastforce
  ultimately show ?case using e conjunct1 [OF Cons.IH [OF q(4)]] q(1) by (intro conjI exI [of _ "q # qs"]) simp_all
qed simp

end

end
