(* ===== verification/StateJournal.thy ===== *)
theory StateJournal
  imports SegmentStore
begin

text \<open>
  The journal of document states (\<open>engine/state_journal_store.py\<close>): the base JSON snapshot plus
  ordered \<open>.jsd\<close> segments, each with the documents upserted and deleted by one mutation batch and
  the refreshed scalar header.  The wall-clock fields of the reports are left out.
\<close>

section \<open>Definitions\<close>

definition STATE_JOURNAL_DIR_SUFFIX :: string where "STATE_JOURNAL_DIR_SUFFIX = ''.json-delta''"
definition STATE_JOURNAL_MANIFEST_NAME :: string where "STATE_JOURNAL_MANIFEST_NAME = ''manifest.json''"
definition STATE_JOURNAL_SEGMENT_SUFFIX :: string where "STATE_JOURNAL_SEGMENT_SUFFIX = ''.jsd''"
definition STATE_JOURNAL_MAGIC :: bytes where "STATE_JOURNAL_MAGIC = ''EEJSD001''"
definition DEFAULT_MAX_DELTA_DOCUMENT_FRACTION :: rat where "DEFAULT_MAX_DELTA_DOCUMENT_FRACTION = 1 / 4"
definition DEFAULT_MAX_DELTA_SEGMENTS :: int where "DEFAULT_MAX_DELTA_SEGMENTS = 64"

definition STATE_HEADER_EXCLUDED_KEYS :: "string list" where
  "STATE_HEADER_EXCLUDED_KEYS = [''chunks'', ''document_hashes'', ''document_chunk_ids'', ''document_metadata'', ''query_latency_ms'']"

definition journal_kind :: store_kind where
  "journal_kind = \<lparr> kind_label = ''state journal'', kind_base_label = ''state journal base snapshot'',
     kind_dir_suffix = STATE_JOURNAL_DIR_SUFFIX, kind_segment_suffix = STATE_JOURNAL_SEGMENT_SUFFIX,
     kind_magic = STATE_JOURNAL_MAGIC \<rparr>"

record journal_write =
  jw_file_name :: string
  jw_file_bytes :: int
  jw_kind :: string

definition journal_store :: "path \<Rightarrow> bool \<Rightarrow> segment_store" where
  "journal_store base_path fsync = \<lparr> ss_base = base_path, ss_fsync = fsync \<rparr>"

definition journal_manifest_path :: "segment_store \<Rightarrow> path" where
  "journal_manifest_path st = ss_manifest_path journal_kind st"

definition journal_has_manifest :: "segment_store \<Rightarrow> bool io" where
  "journal_has_manifest st = ss_has_manifest journal_kind st"

definition journal_read_manifest_optional :: "segment_store \<Rightarrow> obj option io" where
  "journal_read_manifest_optional st = ss_read_manifest_optional journal_kind st"

definition journal_read_manifest :: "segment_store \<Rightarrow> obj io" where
  "journal_read_manifest st = ss_read_manifest journal_kind st"

definition journal_write_manifest :: "segment_store \<Rightarrow> obj \<Rightarrow> unit io" where
  "journal_write_manifest st m = ss_write_manifest journal_kind st m"

definition journal_validated_segment_path :: "segment_store \<Rightarrow> obj \<Rightarrow> path io" where
  "journal_validated_segment_path st entry = ss_validated_segment_path journal_kind st entry"

definition journal_record_base :: "segment_store \<Rightarrow> int \<Rightarrow> int \<Rightarrow> journal_write io" where
  "journal_record_base st document_count chunk_count =
     io_bind (is_file (ss_base st)) (\<lambda>b.
       if \<not> b then io_lift (Inl (RuntimeError ''state journal base snapshot is missing''))
       else io_bind (stat_size (ss_base st)) (\<lambda>file_bytes.
            io_bind (ss_anchor_base journal_kind st file_bytes
              [(PStr ''document_count'', PInt document_count), (PStr ''chunk_count'', PInt chunk_count)]) (\<lambda>_.
            io_return \<lparr> jw_file_name = path_name (ss_base st), jw_file_bytes = file_bytes, jw_kind = ''base'' \<rparr>)))"

definition journal_body :: "pyval list \<Rightarrow> string list \<Rightarrow> obj \<Rightarrow> pyval" where
  "journal_body upserted_documents deleted_document_ids state_header =
     PDict [(PStr ''schema_version'', PInt SCHEMA_VERSION), (PStr ''upserted_documents'', PList upserted_documents),
       (PStr ''deleted_document_ids'', PList (map PStr deleted_document_ids)), (PStr ''state_header'', PDict state_header)]"

definition journal_header :: "int \<Rightarrow> int \<Rightarrow> int \<Rightarrow> int \<Rightarrow> bytes \<Rightarrow> pyval" where
  "journal_header sequence generation document_count_after chunk_count_after body_blob =
     PDict [(PStr ''schema_version'', PInt SCHEMA_VERSION), (PStr ''kind'', PStr ''delta''), (PStr ''seq'', PInt sequence),
       (PStr ''generation_after'', PInt generation), (PStr ''document_count_after'', PInt document_count_after),
       (PStr ''chunk_count_after'', PInt chunk_count_after), (PStr ''body_bytes'', PInt (int (length body_blob))),
       (PStr ''body_sha256'', PStr (sha256_hex body_blob))]"

definition journal_append_delta ::
    "segment_store \<Rightarrow> pyval list \<Rightarrow> string list \<Rightarrow> obj \<Rightarrow> int \<Rightarrow> int \<Rightarrow> int \<Rightarrow> journal_write io" where
  "journal_append_delta st upserted_documents deleted_document_ids state_header document_count_after chunk_count_after generation =
     io_bind (journal_read_manifest st) (\<lambda>manifest.
     io_bind (io_lift (py_int (pget manifest ''next_seq'' (PInt 0)))) (\<lambda>sequence.
     io_bind (io_lift (json_dumps sorted_style (journal_body upserted_documents deleted_document_ids state_header))) (\<lambda>bj.
     let body_blob = utf8_encode bj in
     io_bind (ss_append journal_kind st manifest sequence
         (journal_header sequence generation document_count_after chunk_count_after body_blob) body_blob
         [(PStr ''upserted_documents'', PInt (int (length upserted_documents))),
          (PStr ''deleted_documents'', PInt (int (length deleted_document_ids)))]) (\<lambda>(name, file_bytes).
       io_return \<lparr> jw_file_name = name, jw_file_bytes = file_bytes, jw_kind = ''delta'' \<rparr>))))"

definition journal_should_compact :: "segment_store \<Rightarrow> rat \<Rightarrow> int \<Rightarrow> bool io" where
  "journal_should_compact st max_delta_document_fraction max_delta_segments =
     io_bind (journal_read_manifest_optional st) (\<lambda>om. case om of
        None \<Rightarrow> io_return False
      | Some m \<Rightarrow> (if m = [] then io_return False else
          io_bind (io_lift (manifest_deltas m)) (\<lambda>deltas.
            if deltas = [] then io_return False
            else if max_delta_segments \<le> int (length deltas) then io_return True
            else
              io_bind (io_lift (res_mapM (\<lambda>d.
                  res_bind (py_int (pget d ''upserted_documents'' (PInt 0))) (\<lambda>u.
                  res_bind (py_int (pget d ''deleted_documents'' (PInt 0))) (\<lambda>x. Inr (u + x)))) deltas)) (\<lambda>sizes.
              io_bind (io_lift (res_bind (as_dict (pget m ''base'' (PDict []))) (\<lambda>b.
                  py_int (pget b ''document_count'' (PInt 1))))) (\<lambda>base.
                io_lift (reaches_fraction (sum_list sizes) (max base 1) max_delta_document_fraction))))))"

subsection \<open>Reading a segment\<close>

record segment =
  sg_header :: obj
  sg_body :: obj

definition journal_required :: "string list" where
  "journal_required = [''upserted_documents'', ''deleted_document_ids'', ''state_header'']"

definition parse_journal_segment :: "bytes \<Rightarrow> segment res" where
  "parse_journal_segment data =
     res_bind (read_segment_header journal_kind data) (\<lambda>(header, rest).
     res_bind (py_int (pget header ''body_bytes'' (PInt (- 1)))) (\<lambda>body_bytes.
     if body_bytes < 0 \<or> int (length rest) < body_bytes then Inl (RuntimeError ''state journal segment body is truncated'')
     else
       let body_blob = take (nat body_bytes) rest in
       if sha256_hex body_blob \<noteq> py_str (pget header ''body_sha256'' (PStr []))
       then Inl (RuntimeError ''state journal segment body failed checksum'')
       else
         res_bind (utf8_decode body_blob) (\<lambda>t.
         res_bind (json_loads t) (\<lambda>b.
         res_bind (py_iter b) (\<lambda>keys.
           if list_all (\<lambda>r. PStr r \<in> set keys) journal_required
           then res_bind (as_dict b) (\<lambda>body. Inr \<lparr> sg_header = header, sg_body = body \<rparr>)
           else Inl (RuntimeError ''state journal segment is missing fields''))))))"

definition read_journal_segment :: "path \<Rightarrow> segment io" where
  "read_journal_segment p = io_bind (read_bytes p) (\<lambda>data. io_lift (parse_journal_segment data))"

definition load_segment :: "segment_store \<Rightarrow> obj \<Rightarrow> segment io" where
  "load_segment st entry = io_bind (journal_validated_segment_path st entry) read_journal_segment"

subsection \<open>Replay\<close>

record replay =
  rp_chunks :: "(string, pyval) dict"
  rp_hashes :: "(string, string) dict"
  rp_chunk_ids :: "(string, pyval list) dict"
  rp_metadata :: "(string, obj) dict"
  rp_upserts :: nat
  rp_deletes :: nat
  rp_header :: "obj option"

definition pop_chunks :: "pyval list \<Rightarrow> (string, pyval) dict \<Rightarrow> (string, pyval) dict" where
  "pop_chunks ids chunks = fold (\<lambda>c. AList.delete (py_str c)) ids chunks"

definition replay_delete :: "pyval \<Rightarrow> replay \<Rightarrow> replay" where
  "replay_delete document_id r =
     (let d = py_str document_id in
      r \<lparr> rp_chunks := pop_chunks (dget (rp_chunk_ids r) d []) (rp_chunks r),
          rp_chunk_ids := AList.delete d (rp_chunk_ids r),
          rp_hashes := AList.delete d (rp_hashes r),
          rp_metadata := AList.delete d (rp_metadata r),
          rp_deletes := Suc (rp_deletes r) \<rparr>)"

definition add_row :: "pyval \<Rightarrow> (string, pyval) dict \<Rightarrow> (string, pyval) dict res" where
  "add_row row chunks =
     res_bind (as_dict row) (\<lambda>rd. res_bind (pitem rd ''chunk_id'') (\<lambda>c. Inr (AList.update (py_str c) row chunks)))"

definition replay_upsert :: "pyval \<Rightarrow> replay \<Rightarrow> replay res" where
  "replay_upsert document r =
     res_bind (as_dict document) (\<lambda>doc.
     res_bind (pitem doc ''document_id'') (\<lambda>di.
     let d = py_str di in
     res_bind (py_iter (pget doc ''chunks'' (PTuple []))) (\<lambda>rows.
     res_bind (res_fold add_row rows (pop_chunks (dget (rp_chunk_ids r) d []) (rp_chunks r))) (\<lambda>chunks.
     res_bind (pitem doc ''document_hash'') (\<lambda>h.
     res_bind (py_iter (pget doc ''chunk_ids'' (PTuple []))) (\<lambda>ids.
     res_bind (py_dict (py_or (pget doc ''metadata'' (PDict [])) (PDict []))) (\<lambda>md.
       Inr (r \<lparr> rp_chunks := chunks,
                rp_hashes := AList.update d (py_str h) (rp_hashes r),
                rp_chunk_ids := AList.update d (map (\<lambda>c. PStr (py_str c)) ids) (rp_chunk_ids r),
                rp_metadata := AList.update d md (rp_metadata r),
                rp_upserts := Suc (rp_upserts r) \<rparr>))))))))"

definition replay_segment :: "segment \<Rightarrow> replay \<Rightarrow> replay res" where
  "replay_segment sg r =
     res_bind (py_iter (pget (sg_body sg) ''deleted_document_ids'' (PTuple []))) (\<lambda>dels.
     res_bind (py_iter (pget (sg_body sg) ''upserted_documents'' (PTuple []))) (\<lambda>ups.
     res_bind (res_fold replay_upsert ups (fold replay_delete dels r)) (\<lambda>r'.
     res_bind (py_int (pget (sg_header sg) ''document_count_after'' (PInt (- 1)))) (\<lambda>expected_documents.
     res_bind (raise_if (0 \<le> expected_documents \<and> int (length (rp_hashes r')) \<noteq> expected_documents)
        (RuntimeError ''state journal replay rejected: document count mismatch'')) (\<lambda>_.
     res_bind (py_int (pget (sg_header sg) ''chunk_count_after'' (PInt (- 1)))) (\<lambda>expected_chunks.
     res_bind (raise_if (0 \<le> expected_chunks \<and> int (length (rp_chunks r')) \<noteq> expected_chunks)
        (RuntimeError ''state journal replay rejected: chunk count mismatch'')) (\<lambda>_.
     res_bind (py_dict (py_or (pget (sg_body sg) ''state_header'' (PDict [])) (PDict []))) (\<lambda>h.
       Inr (r' \<lparr> rp_header := Some h \<rparr>)))))))))"

definition list_values :: "pyval \<Rightarrow> pyval list res" where "list_values v = py_iter v"

definition dict_or_empty :: "pyval \<Rightarrow> obj res" where
  "dict_or_empty v = py_dict (py_or v (PDict []))"

definition replay_start :: "obj \<Rightarrow> replay res" where
  "replay_start payload =
     res_bind (py_iter (pget payload ''chunks'' (PTuple []))) (\<lambda>rows.
     res_bind (res_fold add_row rows []) (\<lambda>chunks.
     res_bind (str_keyed (\<lambda>v. Inr (py_str v)) (pget payload ''document_hashes'' (PDict []))) (\<lambda>hashes.
     res_bind (str_keyed list_values (pget payload ''document_chunk_ids'' (PDict []))) (\<lambda>ids.
     res_bind (str_keyed dict_or_empty (pget payload ''document_metadata'' (PDict []))) (\<lambda>md.
       Inr \<lparr> rp_chunks = chunks, rp_hashes = hashes, rp_chunk_ids = ids, rp_metadata = md,
             rp_upserts = 0, rp_deletes = 0, rp_header = None \<rparr>)))))"

text \<open>\<open>dict(sorted(metadata.items()))\<close>; the keys of persisted metadata are strings.\<close>

definition sort_obj :: "obj \<Rightarrow> obj" where
  "sort_obj d = sort_key (\<lambda>p. py_str (fst p)) d"

definition str_obj :: "('v \<Rightarrow> pyval) \<Rightarrow> (string, 'v) dict \<Rightarrow> pyval" where
  "str_obj f d = PDict (map (\<lambda>(k, v). (PStr k, f v)) (sort_key fst d))"

definition replay_header_items :: "obj option \<Rightarrow> obj" where
  "replay_header_items oh = (case oh of None \<Rightarrow> []
     | Some h \<Rightarrow> filter (\<lambda>(k, _). k \<notin> set (map PStr STATE_HEADER_EXCLUDED_KEYS)) h)"

definition replay_finish :: "replay \<Rightarrow> obj \<Rightarrow> obj" where
  "replay_finish r payload =
     AList.update (PStr ''document_metadata'') (str_obj (\<lambda>md. PDict (sort_obj md)) (rp_metadata r))
      (AList.update (PStr ''document_chunk_ids'') (str_obj PList (rp_chunk_ids r))
       (AList.update (PStr ''document_hashes'') (str_obj PStr (rp_hashes r))
        (AList.update (PStr ''chunks'') (PList (map snd (sort_key fst (rp_chunks r))))
          (fold (\<lambda>(k, v). AList.update k v) (replay_header_items (rp_header r)) payload))))"

fun replay_entries :: "segment_store \<Rightarrow> int \<Rightarrow> obj list \<Rightarrow> replay \<Rightarrow> replay io" where
  "replay_entries st previous_seq [] r = io_return r"
| "replay_entries st previous_seq (entry # es) r =
     io_bind (io_lift (py_int (pget entry ''seq'' (PInt (- 1))))) (\<lambda>sequence.
       if sequence \<le> previous_seq
       then io_lift (Inl (RuntimeError ''state journal manifest has out-of-order segments''))
       else io_bind (load_segment st entry) (\<lambda>sg.
            io_bind (io_lift (replay_segment sg r)) (\<lambda>r'. replay_entries st sequence es r')))"

definition journal_replay_onto_payload :: "segment_store \<Rightarrow> obj \<Rightarrow> obj option \<Rightarrow> (obj \<times> nat \<times> nat \<times> nat) io" where
  "journal_replay_onto_payload st payload manifest =
     io_bind (or_read journal_kind st manifest) (\<lambda>m.
     io_bind (io_lift (replay_start payload)) (\<lambda>r0.
     io_bind (io_lift (manifest_deltas m)) (\<lambda>entries.
     io_bind (replay_entries st (- 1) entries r0) (\<lambda>r.
       io_return (replay_finish r payload, length entries, rp_upserts r, rp_deletes r)))))"

definition journal_validate_base_checksum :: "segment_store \<Rightarrow> obj option \<Rightarrow> unit io" where
  "journal_validate_base_checksum st manifest = ss_validate_base_checksum journal_kind st manifest"

definition journal_iter_segment_bodies :: "segment_store \<Rightarrow> obj option \<Rightarrow> obj list io" where
  "journal_iter_segment_bodies st manifest =
     io_bind (or_read journal_kind st manifest) (\<lambda>m.
     io_bind (io_lift (manifest_deltas m)) (\<lambda>entries.
     io_bind (io_mapM (load_segment st) entries) (\<lambda>sgs. io_return (map sg_body sgs))))"

definition journal_storage_file_bytes :: "segment_store \<Rightarrow> obj option \<Rightarrow> (pyfloat \<times> int \<times> int \<times> int) io" where
  "journal_storage_file_bytes st manifest = ss_storage_file_bytes journal_kind st manifest"

definition journal_remove_all :: "segment_store \<Rightarrow> unit io" where
  "journal_remove_all st = ss_remove_all journal_kind st"

definition journal_current_manifest :: "segment_store \<Rightarrow> obj option io" where
  "journal_current_manifest st = journal_read_manifest_optional st"

definition journal_restore_manifest :: "segment_store \<Rightarrow> obj \<Rightarrow> unit io" where
  "journal_restore_manifest st m = ss_restore_manifest journal_kind st m"

section \<open>Segments\<close>

lemma journal_kind_ok: "kind_ok journal_kind"
  by code_simp

interpretation jl: segment_log journal_kind parse_journal_segment
  by unfold_locales (rule journal_kind_ok)

lemma load_segment_eq: "load_segment = load_with journal_kind parse_journal_segment"
  by (rule ext)+ (simp add: load_segment_def load_with_def journal_validated_segment_path_def read_journal_segment_def [abs_def])

definition batch_ok :: "pyval list \<Rightarrow> obj \<Rightarrow> bool" where
  "batch_ok ups header = (list_all json_ok ups \<and> json_ok (PDict header))"

lemma journal_body_ok: "batch_ok ups header \<Longrightarrow> json_ok (journal_body ups dels header)"
  by (auto simp: batch_ok_def journal_body_def list_all_iff)

lemma journal_header_ok: "json_ok (journal_header q g dc cc blob)"
  by (simp add: journal_header_def)

definition body_obj :: "pyval list \<Rightarrow> string list \<Rightarrow> obj \<Rightarrow> obj" where
  "body_obj ups dels header = (case journal_body ups dels header of PDict d \<Rightarrow> d | _ \<Rightarrow> [])"

definition header_obj :: "int \<Rightarrow> int \<Rightarrow> int \<Rightarrow> int \<Rightarrow> bytes \<Rightarrow> obj" where
  "header_obj q g dc cc blob = (case journal_header q g dc cc blob of PDict d \<Rightarrow> d | _ \<Rightarrow> [])"

lemma journal_objs: "journal_body ups dels header = PDict (body_obj ups dels header)" "journal_header q g dc cc blob = PDict (header_obj q g dc cc blob)"
  by (simp_all add: body_obj_def header_obj_def journal_body_def journal_header_def)

lemma parse_written_segment:
  assumes "batch_ok ups header" and "json_dumps sorted_style (journal_body ups dels header) = Inr bj"
    and "json_dumps sorted_style (journal_header q g dc cc (utf8_encode bj)) = Inr hj" and "int (length (utf8_encode hj)) < 2 ^ 64"
  shows "parse_journal_segment (segment_data journal_kind hj (utf8_encode bj)) =
    Inr \<lparr> sg_header = sorted_obj (header_obj q g dc cc (utf8_encode bj)), sg_body = sorted_obj (body_obj ups dels header) \<rparr>"
proof -
  let ?h = "header_obj q g dc cc (utf8_encode bj)" and ?b = "body_obj ups dels header"
  note ok = journal_header_ok [of q g dc cc "utf8_encode bj", unfolded journal_objs] journal_body_ok [OF assms(1), of dels, unfolded journal_objs]
  have head: "read_segment_header journal_kind (segment_data journal_kind hj (utf8_encode bj)) = Inr (sorted_obj ?h, utf8_encode bj)"
    using assms(3, 4) ok(1) unfolding journal_objs
    by (intro read_header_written) (simp_all add: header_obj_def journal_header_def pget_def)
  have keys: "dict_ok ?h" "dict_ok ?b" using ok by simp_all
  have h0: "pget ?h ''body_bytes'' (PInt (- 1)) = PInt (int (length (utf8_encode bj)))"
    "pget ?h ''body_sha256'' (PStr []) = PStr (sha256_hex (utf8_encode bj))"
    by (simp_all add: header_obj_def journal_header_def pget_def)
  have h: "pget (sorted_obj ?h) ''body_bytes'' (PInt (- 1)) = PInt (int (length (utf8_encode bj)))"
    "pget (sorted_obj ?h) ''body_sha256'' (PStr []) = PStr (sha256_hex (utf8_encode bj))"
    using keys(1) h0 by (simp_all add: pget_sorted_scalar)
  have "set (dkeys (sorted_obj ?b)) = set (dkeys ?b)" by (auto simp: sorted_obj_def image_image case_prod_unfold)
  then have req: "list_all (\<lambda>r. PStr r \<in> set (dkeys (sorted_obj ?b))) journal_required"
    by (simp add: body_obj_def journal_body_def journal_required_def)
  show ?thesis
    using sorted_dumps_loads [OF ok(2) assms(2) [unfolded journal_objs]] req
    by (simp add: parse_journal_segment_def head h as_dict_def)
qed

section \<open>Appending a batch\<close>

definition journal_blob :: "pyval list \<Rightarrow> string list \<Rightarrow> obj \<Rightarrow> bytes" where
  "journal_blob ups dels header = (case json_dumps sorted_style (journal_body ups dels header) of Inr t \<Rightarrow> utf8_encode t | Inl _ \<Rightarrow> [])"

definition header_fits :: "pyval \<Rightarrow> bool" where
  "header_fits h = (case json_dumps sorted_style h of Inr t \<Rightarrow> int (length (utf8_encode t)) < 2 ^ 64 | Inl _ \<Rightarrow> False)"

definition written_segment :: "int \<Rightarrow> pyval list \<Rightarrow> string list \<Rightarrow> obj \<Rightarrow> int \<Rightarrow> int \<Rightarrow> int \<Rightarrow> segment" where
  "written_segment q ups dels header dc cc g =
     \<lparr> sg_header = sorted_obj (header_obj q g dc cc (journal_blob ups dels header)), sg_body = sorted_obj (body_obj ups dels header) \<rparr>"

abbreviation journal_log :: "segment_store \<Rightarrow> fs \<Rightarrow> obj \<Rightarrow> segment list \<Rightarrow> bool" where
  "journal_log \<equiv> log_ok journal_kind parse_journal_segment"

lemma journal_append_law:
  assumes log: "journal_log st s m sgs" and seq: "pget m ''next_seq'' (PInt 0) = PInt n" and batch: "batch_ok ups header"
    and fits: "header_fits (journal_header n g dc cc (journal_blob ups dels header))"
  obtains w m' where "io_result (journal_append_delta st ups dels header dc cc g) s = Inr w" "jw_file_name w = segment_name journal_kind n"
    "journal_log st (io_state (journal_append_delta st ups dels header dc cc g) s) m' (sgs @ [written_segment n ups dels header dc cc g])"
    "\<And>s'. crash s (io_ops (journal_append_delta st ups dels header dc cc g) s) s' \<Longrightarrow>
      journal_log st s' m sgs \<or> journal_log st s' m' (sgs @ [written_segment n ups dels header dc cc g])"
    "\<And>s'. crash s (io_ops (journal_append_delta st ups dels header dc cc g) s) s' \<Longrightarrow>
      store_ready journal_kind st s' \<and> (\<forall>q. q \<notin> append_paths journal_kind st n \<longrightarrow> file_at s' q = file_at s q)"
proof -
  obtain bj where bj: "json_dumps sorted_style (journal_body ups dels header) = Inr bj"
    using json_dumps_ok [OF _ journal_body_ok [OF batch]] by fastforce
  then have blob: "journal_blob ups dels header = utf8_encode bj" by (simp add: journal_blob_def)
  from fits obtain hj where hj: "json_dumps sorted_style (journal_header n g dc cc (utf8_encode bj)) = Inr hj" "int (length (utf8_encode hj)) < 2 ^ 64"
    by (auto simp: header_fits_def blob split: sum.splits)
  let ?extra = "[(PStr ''upserted_documents'', PInt (int (length ups))), (PStr ''deleted_documents'', PInt (int (length dels)))]"
  let ?app = "ss_append journal_kind st m n (journal_header n g dc cc (utf8_encode bj)) (utf8_encode bj) ?extra"
  have parse: "parse_journal_segment (segment_data journal_kind hj (utf8_encode bj)) = Inr (written_segment n ups dels header dc cc g)"
    using parse_written_segment [OF batch bj hj] by (simp add: written_segment_def blob)
  note law = jl.append_log [OF log seq hj parse, of ?extra]
  from log have read: "io_result (journal_read_manifest st) s = Inr m" "io_ops (journal_read_manifest st) s = []"
    by (simp_all add: journal_read_manifest_def log_ok_def)
  have eq: "io_result (journal_append_delta st ups dels header dc cc g) s =
      res_bind (io_result ?app s) (\<lambda>(name, file_bytes). Inr \<lparr> jw_file_name = name, jw_file_bytes = file_bytes, jw_kind = ''delta'' \<rparr>)"
    "io_ops (journal_append_delta st ups dels header dc cc g) s = io_ops ?app s"
    unfolding journal_append_delta_def io_step [OF read] seq py_int.simps bj io_bind_lift Let_def
    by (simp_all add: case_prod_unfold split: sum.split)
  show thesis
  proof (rule that)
    show "io_result (journal_append_delta st ups dels header dc cc g) s =
        Inr \<lparr> jw_file_name = segment_name journal_kind n, jw_file_bytes = int (length (segment_data journal_kind hj (utf8_encode bj))), jw_kind = ''delta'' \<rparr>"
      unfolding eq(1) using law(1) by simp
    show "journal_log st (io_state (journal_append_delta st ups dels header dc cc g) s)
        (sorted_obj (appended_manifest m n (segment_entry journal_kind n (segment_data journal_kind hj (utf8_encode bj)) ?extra)))
        (sgs @ [written_segment n ups dels header dc cc g])"
      unfolding io_state_def eq(2) using law(2) by (simp add: io_state_def)
    fix s' assume "crash s (io_ops (journal_append_delta st ups dels header dc cc g) s) s'"
    then show "journal_log st s' m sgs \<or> journal_log st s'
        (sorted_obj (appended_manifest m n (segment_entry journal_kind n (segment_data journal_kind hj (utf8_encode bj)) ?extra)))
        (sgs @ [written_segment n ups dels header dc cc g])"
      unfolding eq(2) by (intro law(3)) simp_all
  next
    fix s' assume "crash s (io_ops (journal_append_delta st ups dels header dc cc g) s) s'"
    then show "store_ready journal_kind st s' \<and> (\<forall>q. q \<notin> append_paths journal_kind st n \<longrightarrow> file_at s' q = file_at s q)"
      unfolding eq(2) by (intro law(4)) simp_all
  qed simp
qed

section \<open>Replay is a fold over the log\<close>

definition replay_all :: "segment list \<Rightarrow> replay \<Rightarrow> replay res" where
  "replay_all sgs r = res_fold replay_segment sgs r"

lemma journal_replay_loop:
  "replay_loop (load_with journal_kind parse_journal_segment st) replay_segment
     (RuntimeError ''state journal manifest has out-of-order segments'') (replay_entries st)"
  unfolding replay_loop_def load_segment_eq [symmetric] by simp

lemma journal_replay_log:
  assumes "journal_log st s m sgs" and "replay_start payload = Inr r0"
  shows "io_result (journal_replay_onto_payload st payload None) s =
    res_bind (replay_all sgs r0) (\<lambda>r. Inr (replay_finish r payload, length sgs, rp_upserts r, rp_deletes r))"
proof -
  obtain es where "manifest_deltas m = Inr es" "length es = length sgs" "\<And>r. io_result (replay_entries st (- 1) es r) s = replay_all sgs r"
    using jl.log_replay [OF assms(1) journal_replay_loop] unfolding replay_all_def by blast
  moreover have "io_result (ss_read_manifest journal_kind st) s = Inr m" using assms(1) by (simp add: log_ok_def)
  ultimately show ?thesis
    by (simp add: journal_replay_onto_payload_def or_read_def assms(2))
qed

end
