(* ===== verification/JournalReplay.thy ===== *)
theory JournalReplay
  imports StateJournal
begin

text \<open>
  The journal as its users see it: replaying a log onto a base payload refines the mutation batches
  applied to a map of documents, and the laws of appending, recovering and compacting a journal.
\<close>

section \<open>Replay refines a map of documents\<close>

text \<open>
  The abstract state is a map from document ids to documents; a document has its hash, its chunk
  rows by chunk id, and its metadata.  A batch deletes some documents and then upserts others.
\<close>

record doc =
  d_hash :: string
  d_rows :: "(string \<times> pyval) list"
  d_meta :: "pyval \<rightharpoonup> pyval"

type_synonym docs = "string \<rightharpoonup> doc"

definition doc_chunks :: "docs \<Rightarrow> string \<Rightarrow> string set" where
  "doc_chunks A d = (case A d of None \<Rightarrow> {} | Some x \<Rightarrow> fst ` set (d_rows x))"

definition row_ok :: "string \<times> pyval \<Rightarrow> bool" where
  "row_ok cr = (case snd cr of PDict rd \<Rightarrow> map_of rd (PStr ''chunk_id'') = Some (PStr (fst cr)) | _ \<Rightarrow> False)"

definition docs_ok :: "docs \<Rightarrow> bool" where
  "docs_ok A \<longleftrightarrow> (\<forall>d x. A d = Some x \<longrightarrow> distinct (map fst (d_rows x)) \<and> list_all row_ok (d_rows x))
     \<and> (\<forall>d d'. d \<noteq> d' \<longrightarrow> doc_chunks A d \<inter> doc_chunks A d' = {})"

definition replay_rel :: "replay \<Rightarrow> docs \<Rightarrow> bool" where
  "replay_rel r A \<longleftrightarrow> docs_ok A \<and> dict_ok (rp_chunks r) \<and> dict_ok (rp_hashes r) \<and> dict_ok (rp_chunk_ids r) \<and> dict_ok (rp_metadata r)
     \<and> (\<forall>d. map_of (rp_hashes r) d = map_option d_hash (A d))
     \<and> (\<forall>d. map_of (rp_chunk_ids r) d = map_option (\<lambda>x. map (\<lambda>c. PStr (fst c)) (d_rows x)) (A d))
     \<and> (\<forall>d. map_option map_of (map_of (rp_metadata r) d) = map_option d_meta (A d))
     \<and> (\<forall>d md. map_of (rp_metadata r) d = Some md \<longrightarrow> dict_ok md)
     \<and> (\<forall>c row. map_of (rp_chunks r) c = Some row \<longleftrightarrow> (\<exists>d x. A d = Some x \<and> (c, row) \<in> set (d_rows x)))"

definition doc_repr :: "pyval \<Rightarrow> string \<Rightarrow> doc \<Rightarrow> bool" where
  "doc_repr v d x = (case v of PDict doc \<Rightarrow>
       map_of doc (PStr ''document_id'') = Some (PStr d) \<and> map_of doc (PStr ''document_hash'') = Some (PStr (d_hash x))
       \<and> map_of doc (PStr ''chunk_ids'') = Some (PList (map (\<lambda>c. PStr (fst c)) (d_rows x)))
       \<and> map_of doc (PStr ''chunks'') = Some (PList (map snd (d_rows x)))
       \<and> (\<exists>md. map_of doc (PStr ''metadata'') = Some (PDict md) \<and> dict_ok md \<and> map_of md = d_meta x) | _ \<Rightarrow> False)"

lemma map_of_pop_chunks: "map_of (pop_chunks ids d) c = (if c \<in> py_str ` set ids then None else map_of d c)"
  by (induction ids arbitrary: d) (auto simp: pop_chunks_def)

lemma pop_chunks_ok: "dict_ok d \<Longrightarrow> dict_ok (pop_chunks ids d)"
  by (induction ids arbitrary: d) (simp_all add: pop_chunks_def)

lemma replay_rel_chunk_ids: "replay_rel r A \<Longrightarrow> py_str ` set (dget (rp_chunk_ids r) d []) = doc_chunks A d"
  by (cases "A d") (simp_all add: replay_rel_def dget_def doc_chunks_def image_image)

lemma docs_ok_delete: "docs_ok A \<Longrightarrow> docs_ok (A(d := None))"
  by (auto simp: docs_ok_def doc_chunks_def)

lemma popped_chunks:
  assumes "replay_rel r A"
  shows "map_of (pop_chunks (dget (rp_chunk_ids r) d []) (rp_chunks r)) c = Some row \<longleftrightarrow>
    (\<exists>d' x. d' \<noteq> d \<and> A d' = Some x \<and> (c, row) \<in> set (d_rows x))"
proof -
  have "c \<notin> doc_chunks A d" if "d' \<noteq> d" "A d' = Some x" "(c, row) \<in> set (d_rows x)" for d' x
  proof -
    have "c \<in> doc_chunks A d'" using that(2, 3) by (force simp: doc_chunks_def)
    then show ?thesis using assms that(1) unfolding replay_rel_def docs_ok_def by blast
  qed
  moreover have "c \<in> doc_chunks A d" if "A d = Some x" "(c, row) \<in> set (d_rows x)" for x
    using that by (force simp: doc_chunks_def)
  moreover have "map_of (rp_chunks r) c = Some row \<longleftrightarrow> (\<exists>d x. A d = Some x \<and> (c, row) \<in> set (d_rows x))"
    using assms unfolding replay_rel_def by blast
  moreover have "map_of (pop_chunks (dget (rp_chunk_ids r) d []) (rp_chunks r)) c = Some row \<longleftrightarrow>
      c \<notin> doc_chunks A d \<and> map_of (rp_chunks r) c = Some row"
    unfolding map_of_pop_chunks replay_rel_chunk_ids [OF assms] by simp
  ultimately show ?thesis by metis
qed

lemma replay_delete_rel:
  assumes "replay_rel r A"
  shows "replay_rel (replay_delete (PStr d) r) (A(d := None))"
proof -
  let ?r = "replay_delete (PStr d) r"
  have f: "rp_chunks ?r = pop_chunks (dget (rp_chunk_ids r) d []) (rp_chunks r)" "rp_hashes ?r = AList.delete d (rp_hashes r)"
    "rp_chunk_ids ?r = AList.delete d (rp_chunk_ids r)" "rp_metadata ?r = AList.delete d (rp_metadata r)"
    by (simp_all add: replay_delete_def Let_def)
  have "docs_ok (A(d := None))" using assms docs_ok_delete unfolding replay_rel_def by blast
  then show ?thesis
    using assms popped_chunks [OF assms, of d] pop_chunks_ok [of "rp_chunks r"]
    unfolding replay_rel_def f by auto
qed

lemma add_rows:
  "list_all row_ok rows \<Longrightarrow> distinct (map fst rows) \<Longrightarrow> \<exists>d'. res_fold add_row (map snd rows) d = Inr d' \<and> (dict_ok d \<longrightarrow> dict_ok d')
     \<and> (\<forall>c. map_of d' c = (case map_of rows c of Some row \<Rightarrow> Some row | None \<Rightarrow> map_of d c))"
proof (induction rows arbitrary: d)
  case (Cons cr rows)
  obtain c row where cr: "cr = (c, row)" by (cases cr)
  with Cons.prems(1) obtain rd where rd: "row = PDict rd" "map_of rd (PStr ''chunk_id'') = Some (PStr c)"
    by (auto simp: row_ok_def split: pyval.splits)
  have "add_row row d = Inr (AList.update c row d)" by (simp add: add_row_def as_dict_def rd pitem_def)
  moreover obtain d' where "res_fold add_row (map snd rows) (AList.update c row d) = Inr d'"
    "dict_ok (AList.update c row d) \<longrightarrow> dict_ok d'"
    "\<forall>c'. map_of d' c' = (case map_of rows c' of Some row \<Rightarrow> Some row | None \<Rightarrow> map_of (AList.update c row d) c')"
    using Cons.IH [of "AList.update c row d"] Cons.prems by auto
  moreover have "map_of rows c = None" using Cons.prems(2) cr by (simp add: map_of_None_iff)
  ultimately show ?case by (auto simp: cr split: option.split)
qed simp

lemma replay_upsert_rel:
  assumes "replay_rel r A" and "doc_repr v d x" and "docs_ok (A(d \<mapsto> x))"
  shows "\<exists>r'. replay_upsert v r = Inr r' \<and> replay_rel r' (A(d \<mapsto> x)) \<and> rp_upserts r' = Suc (rp_upserts r) \<and> rp_deletes r' = rp_deletes r"
proof -
  let ?popped = "pop_chunks (dget (rp_chunk_ids r) d []) (rp_chunks r)"
  from assms(2) obtain doc md where v: "v = PDict doc" "map_of doc (PStr ''document_id'') = Some (PStr d)"
    "map_of doc (PStr ''document_hash'') = Some (PStr (d_hash x))"
    "map_of doc (PStr ''chunk_ids'') = Some (PList (map (\<lambda>c. PStr (fst c)) (d_rows x)))"
    "map_of doc (PStr ''chunks'') = Some (PList (map snd (d_rows x)))" "map_of doc (PStr ''metadata'') = Some (PDict md)"
    and md: "dict_ok md" "map_of md = d_meta x"
    by (auto simp: doc_repr_def split: pyval.splits)
  from assms(3) have rows: "list_all row_ok (d_rows x)" "distinct (map fst (d_rows x))"
    unfolding docs_ok_def by (metis fun_upd_same)+
  obtain chunks where chunks: "res_fold add_row (map snd (d_rows x)) ?popped = Inr chunks" "dict_ok ?popped \<longrightarrow> dict_ok chunks"
    "\<And>c. map_of chunks c = (case map_of (d_rows x) c of Some row \<Rightarrow> Some row | None \<Rightarrow> map_of ?popped c)"
    using add_rows [OF rows] by blast
  define r' where "r' = r \<lparr> rp_chunks := chunks, rp_hashes := AList.update d (d_hash x) (rp_hashes r),
    rp_chunk_ids := AList.update d (map (\<lambda>c. PStr (fst c)) (d_rows x)) (rp_chunk_ids r),
    rp_metadata := AList.update d md (rp_metadata r), rp_upserts := Suc (rp_upserts r) \<rparr>"
  have meta: "py_dict (py_or (PDict md) (PDict [])) = Inr md" by (simp add: py_or_def)
  have ids: "map (\<lambda>c. PStr (py_str c)) (map (\<lambda>c. PStr (fst c)) (d_rows x)) = map (\<lambda>c. PStr (fst c)) (d_rows x)" by simp
  have up: "replay_upsert v r = Inr r'"
    unfolding replay_upsert_def as_dict_def v(1) pyval.case res_bind_simps pitem_def pget_def v(2-6) option.case Let_def
      py_str_simps py_iter.simps chunks(1) meta ids r'_def ..
  have new: "map_of chunks c = Some row \<longleftrightarrow> (c, row) \<in> set (d_rows x) \<or> (\<exists>d' y. d' \<noteq> d \<and> A d' = Some y \<and> (c, row) \<in> set (d_rows y))" for c row
  proof (cases "map_of (d_rows x) c")
    case None
    then have "(c, row) \<notin> set (d_rows x)" by (force simp: map_of_None_iff)
    moreover have "map_of chunks c = map_of ?popped c" using None chunks(3) [of c] by simp
    ultimately show ?thesis using popped_chunks [OF assms(1), of d c row] by simp
  next
    case (Some row')
    then have c: "c \<in> doc_chunks (A(d \<mapsto> x)) d" by (force simp: doc_chunks_def dest: map_of_SomeD)
    have "\<not> (\<exists>d' y. d' \<noteq> d \<and> A d' = Some y \<and> (c, row) \<in> set (d_rows y))"
    proof
      assume "\<exists>d' y. d' \<noteq> d \<and> A d' = Some y \<and> (c, row) \<in> set (d_rows y)"
      then obtain d' where "d' \<noteq> d" "c \<in> doc_chunks (A(d \<mapsto> x)) d'" by (force simp: doc_chunks_def)
      with c assms(3) show False unfolding docs_ok_def by blast
    qed
    moreover have "map_of chunks c = Some row'" using Some chunks(3) [of c] by simp
    moreover have "(c, row) \<in> set (d_rows x) \<longleftrightarrow> row = row'"
      using Some unfolding map_of_eq_Some_iff [OF rows(2), symmetric] by auto
    ultimately show ?thesis by auto
  qed
  have f: "rp_chunks r' = chunks" "rp_hashes r' = AList.update d (d_hash x) (rp_hashes r)"
    "rp_chunk_ids r' = AList.update d (map (\<lambda>c. PStr (fst c)) (d_rows x)) (rp_chunk_ids r)"
    "rp_metadata r' = AList.update d md (rp_metadata r)" by (simp_all add: r'_def)
  have "map_of chunks c = Some row \<longleftrightarrow> (\<exists>d' y. (A(d \<mapsto> x)) d' = Some y \<and> (c, row) \<in> set (d_rows y))" for c row
    unfolding new fun_upd_apply by (metis option.inject)
  moreover have "dict_ok chunks" using chunks(2) pop_chunks_ok assms(1) unfolding replay_rel_def by blast
  ultimately have "replay_rel r' (A(d \<mapsto> x))"
    using assms(1, 3) md unfolding replay_rel_def f by simp
  with up show ?thesis by (simp add: r'_def)
qed

subsection \<open>Batches\<close>

text \<open>A batch deletes documents and then upserts others; its segment records the counts after it.\<close>

record batch =
  b_deletes :: "string list"
  b_upserts :: "(string \<times> doc) list"

definition batch_apply :: "batch \<Rightarrow> docs \<Rightarrow> docs" where
  "batch_apply b A = fold (\<lambda>(d, x) B. B(d \<mapsto> x)) (b_upserts b) (fold (\<lambda>d B. B(d := None)) (b_deletes b) A)"

fun upserts_valid :: "(string \<times> doc) list \<Rightarrow> docs \<Rightarrow> bool" where
  "upserts_valid [] A = True"
| "upserts_valid ((d, x) # us) A = (docs_ok (A(d \<mapsto> x)) \<and> upserts_valid us (A(d \<mapsto> x)))"

definition all_chunks :: "docs \<Rightarrow> string set" where
  "all_chunks A = (\<Union>d. doc_chunks A d)"

definition batch_body :: "obj \<Rightarrow> batch \<Rightarrow> bool" where
  "batch_body body b \<longleftrightarrow> pget body ''deleted_document_ids'' (PTuple []) = PList (map PStr (b_deletes b))
     \<and> (\<exists>vs. pget body ''upserted_documents'' (PTuple []) = PList vs \<and> list_all2 (\<lambda>v (d, x). doc_repr v d x) vs (b_upserts b))
     \<and> (\<exists>h. pget body ''state_header'' (PDict []) = PDict h)"

definition batch_valid :: "batch \<Rightarrow> docs \<Rightarrow> bool" where
  "batch_valid b A = upserts_valid (b_upserts b) (fold (\<lambda>d B. B(d := None)) (b_deletes b) A)"

definition batch_fits :: "segment \<Rightarrow> batch \<Rightarrow> docs \<Rightarrow> bool" where
  "batch_fits sg b A \<longleftrightarrow> batch_body (sg_body sg) b \<and> batch_valid b A
     \<and> pget (sg_header sg) ''document_count_after'' (PInt (- 1)) = PInt (int (card (dom (batch_apply b A))))
     \<and> pget (sg_header sg) ''chunk_count_after'' (PInt (- 1)) = PInt (int (card (all_chunks (batch_apply b A))))"

fun log_fits :: "segment list \<Rightarrow> batch list \<Rightarrow> docs \<Rightarrow> bool" where
  "log_fits [] [] A = True"
| "log_fits (sg # sgs) (b # bs) A = (batch_fits sg b A \<and> log_fits sgs bs (batch_apply b A))"
| "log_fits _ _ A = False"

lemma replay_deletes_rel:
  "replay_rel r A \<Longrightarrow> replay_rel (fold replay_delete (map PStr ds) r) (fold (\<lambda>d B. B(d := None)) ds A)
     \<and> rp_deletes (fold replay_delete (map PStr ds) r) = length ds + rp_deletes r \<and> rp_upserts (fold replay_delete (map PStr ds) r) = rp_upserts r"
proof (induction ds arbitrary: r A)
  case (Cons d ds)
  have "rp_deletes (replay_delete (PStr d) r) = Suc (rp_deletes r)" "rp_upserts (replay_delete (PStr d) r) = rp_upserts r"
    by (simp_all add: replay_delete_def Let_def)
  with Cons.IH [OF replay_delete_rel [OF Cons.prems, of d]] show ?case by simp
qed simp

lemma replay_upserts_rel:
  assumes "replay_rel r A" and "list_all2 (\<lambda>v (d, x). doc_repr v d x) vs us" and "upserts_valid us A"
  shows "\<exists>r'. res_fold replay_upsert vs r = Inr r' \<and> replay_rel r' (fold (\<lambda>(d, x) B. B(d \<mapsto> x)) us A)
    \<and> rp_upserts r' = length us + rp_upserts r \<and> rp_deletes r' = rp_deletes r"
  using assms
proof (induction us arbitrary: vs r A)
  case Nil
  then show ?case by simp
next
  case (Cons u us)
  obtain d x where u: "u = (d, x)" by (cases u)
  from Cons.prems(2) obtain v vs' where vs: "vs = v # vs'" "doc_repr v d x" "list_all2 (\<lambda>v (d, x). doc_repr v d x) vs' us"
    by (auto simp: u list_all2_Cons2)
  from Cons.prems(3) have ok: "docs_ok (A(d \<mapsto> x))" "upserts_valid us (A(d \<mapsto> x))" by (simp_all add: u)
  obtain r1 where r1: "replay_upsert v r = Inr r1" "replay_rel r1 (A(d \<mapsto> x))" "rp_upserts r1 = Suc (rp_upserts r)" "rp_deletes r1 = rp_deletes r"
    using replay_upsert_rel [OF Cons.prems(1) vs(2) ok(1)] by blast
  from Cons.IH [OF r1(2) vs(3) ok(2)] show ?case by (simp add: u vs(1) r1)
qed

lemma replay_counts:
  assumes "replay_rel r A"
  shows "length (rp_hashes r) = card (dom A)" and "length (rp_chunks r) = card (all_chunks A)"
proof -
  have len: "length d = card (dom (map_of d))" if "dict_ok d" for d :: "(string, 'v) dict"
  proof -
    have "card (set (map fst d)) = length (map fst d)" using that by (intro distinct_card) simp
    then show ?thesis by (simp add: dom_map_of_conv_image_fst)
  qed
  have "dom (map_of (rp_hashes r)) = dom A" using assms by (auto simp: replay_rel_def)
  then show "length (rp_hashes r) = card (dom A)" using len [of "rp_hashes r"] assms by (simp add: replay_rel_def)
  have "c \<in> dom (map_of (rp_chunks r)) \<longleftrightarrow> c \<in> all_chunks A" for c
  proof -
    have "c \<in> dom (map_of (rp_chunks r)) \<longleftrightarrow> (\<exists>row d x. A d = Some x \<and> (c, row) \<in> set (d_rows x))"
      using assms unfolding replay_rel_def by blast
    also have "\<dots> \<longleftrightarrow> c \<in> all_chunks A" by (force simp: all_chunks_def doc_chunks_def split: option.splits)
    finally show ?thesis .
  qed
  then have "dom (map_of (rp_chunks r)) = all_chunks A" by blast
  moreover have "dict_ok (rp_chunks r)" using assms by (simp add: replay_rel_def)
  ultimately show "length (rp_chunks r) = card (all_chunks A)" using len [of "rp_chunks r"] by simp
qed

lemma replay_segment_rel:
  assumes "replay_rel r A" and "batch_fits sg b A"
  shows "\<exists>r'. replay_segment sg r = Inr r' \<and> replay_rel r' (batch_apply b A)
    \<and> rp_upserts r' = length (b_upserts b) + rp_upserts r \<and> rp_deletes r' = length (b_deletes b) + rp_deletes r"
proof -
  from assms(2) obtain vs h where body: "pget (sg_body sg) ''deleted_document_ids'' (PTuple []) = PList (map PStr (b_deletes b))"
    "pget (sg_body sg) ''upserted_documents'' (PTuple []) = PList vs" "list_all2 (\<lambda>v (d, x). doc_repr v d x) vs (b_upserts b)"
    "pget (sg_body sg) ''state_header'' (PDict []) = PDict h"
    unfolding batch_fits_def batch_body_def by blast
  note counts = assms(2) [unfolded batch_fits_def batch_valid_def]
  note del = replay_deletes_rel [OF assms(1), of "b_deletes b"]
  from replay_upserts_rel [OF conjunct1 [OF del] body(3)] counts del
  obtain r1 where r1: "res_fold replay_upsert vs (fold replay_delete (map PStr (b_deletes b)) r) = Inr r1" "replay_rel r1 (batch_apply b A)"
    "rp_upserts r1 = length (b_upserts b) + rp_upserts r" "rp_deletes r1 = length (b_deletes b) + rp_deletes r"
    unfolding batch_apply_def by auto
  have h: "py_dict (py_or (PDict h) (PDict [])) = Inr h" by (simp add: py_or_def)
  have "replay_segment sg r = Inr (r1 \<lparr> rp_header := Some h \<rparr>)"
    using counts replay_counts [OF r1(2)] unfolding replay_segment_def body by (simp add: r1(1) h raise_if_def)
  moreover have "replay_rel (r1 \<lparr> rp_header := Some h \<rparr>) (batch_apply b A)" using r1(2) by (simp add: replay_rel_def)
  ultimately show ?thesis using r1(3, 4) by simp
qed

definition log_upserts :: "batch list \<Rightarrow> nat" where "log_upserts bs = sum_list (map (\<lambda>b. length (b_upserts b)) bs)"
definition log_deletes :: "batch list \<Rightarrow> nat" where "log_deletes bs = sum_list (map (\<lambda>b. length (b_deletes b)) bs)"

lemma replay_all_rel:
  assumes "replay_rel r A" and "log_fits sgs bs A"
  shows "\<exists>r'. replay_all sgs r = Inr r' \<and> replay_rel r' (fold batch_apply bs A)
    \<and> rp_upserts r' = log_upserts bs + rp_upserts r \<and> rp_deletes r' = log_deletes bs + rp_deletes r"
  using assms
proof (induction sgs bs A arbitrary: r rule: log_fits.induct)
  case (2 sg sgs b bs A)
  then have fits: "batch_fits sg b A" "log_fits sgs bs (batch_apply b A)" by simp_all
  obtain r1 where r1: "replay_segment sg r = Inr r1" "replay_rel r1 (batch_apply b A)"
    "rp_upserts r1 = length (b_upserts b) + rp_upserts r" "rp_deletes r1 = length (b_deletes b) + rp_deletes r"
    using replay_segment_rel [OF "2.prems"(1) fits(1)] by blast
  from "2.IH" [OF r1(2) fits(2)] show ?case by (auto simp: replay_all_def log_upserts_def log_deletes_def r1)
qed (simp_all add: replay_all_def log_upserts_def log_deletes_def)

subsection \<open>The replayed payload\<close>

text \<open>A payload holds a map of documents when reading it back gives that map.\<close>

definition payload_holds :: "obj \<Rightarrow> docs \<Rightarrow> bool" where
  "payload_holds payload A \<longleftrightarrow> (\<exists>r. replay_start payload = Inr r \<and> rp_upserts r = 0 \<and> rp_deletes r = 0 \<and> replay_rel r A)"

lemma dict_ok_sort_key: "dict_ok d \<Longrightarrow> dict_ok (sort_key f d)"
  by (simp add: distinct_map)

lemma map_of_sort_key: "dict_ok d \<Longrightarrow> map_of (sort_key f d) = map_of d"
  by (rule map_of_inject_set [THEN iffD2]) (simp_all add: dict_ok_sort_key)

lemma str_keyed_obj:
  assumes "dict_ok d" and "\<And>k v. (k, v) \<in> set d \<Longrightarrow> f (g v) = Inr (h v)"
  shows "str_keyed f (str_obj g d) = Inr (map (\<lambda>(k, v). (k, h v)) (sort_key fst d))"
proof -
  have fold: "res_fold (\<lambda>(k, v) acc. res_bind (f v) (\<lambda>w. Inr (AList.update (py_str k) w acc))) (map (\<lambda>(k, v). (PStr k, g v)) e) acc
      = Inr (acc @ map (\<lambda>(k, v). (k, h v)) e)"
    if "distinct (map fst e)" "\<And>k v. (k, v) \<in> set e \<Longrightarrow> f (g v) = Inr (h v)" "fst ` set e \<inter> fst ` set acc = {}" for e acc
    using that
  proof (induction e arbitrary: acc)
    case (Cons kv e)
    obtain k v where kv: "kv = (k, v)" by (cases kv)
    have "f (g v) = Inr (h v)" by (rule Cons.prems(2) [of k]) (simp add: kv)
    moreover have "AList.update k (h v) acc = acc @ [(k, h v)]" using Cons.prems(3) by (intro update_new) (auto simp: kv)
    moreover have "res_fold (\<lambda>(k, v) acc. res_bind (f v) (\<lambda>w. Inr (AList.update (py_str k) w acc))) (map (\<lambda>(k, v). (PStr k, g v)) e) (acc @ [(k, h v)])
        = Inr ((acc @ [(k, h v)]) @ map (\<lambda>(k, v). (k, h v)) e)"
      using Cons.prems by (intro Cons.IH) (auto simp: kv)
    ultimately show ?case by (simp add: kv)
  qed simp
  have "py_dict (py_or (PDict x) (PDict [])) = Inr x" for x by (simp add: py_or_def)
  moreover have "distinct (map fst (sort_key fst d))" by (rule dict_ok_sort_key [OF assms(1)])
  ultimately show ?thesis using fold [of "sort_key fst d" "[]"] assms(2) by (simp add: str_keyed_def str_obj_def)
qed

lemma pget_update: "pget (AList.update (PStr k) v d) k' w = (if k' = k then v else pget d k' w)"
  by (simp add: pget_def)

lemma finish_fields:
  "pget (replay_finish r payload) ''chunks'' (PTuple []) = PList (map snd (sort_key fst (rp_chunks r)))"
  "pget (replay_finish r payload) ''document_hashes'' (PDict []) = str_obj PStr (rp_hashes r)"
  "pget (replay_finish r payload) ''document_chunk_ids'' (PDict []) = str_obj PList (rp_chunk_ids r)"
  "pget (replay_finish r payload) ''document_metadata'' (PDict []) = str_obj (\<lambda>md. PDict (sort_obj md)) (rp_metadata r)"
  unfolding replay_finish_def pget_update by simp_all

lemma replay_finish_holds:
  assumes "replay_rel r A"
  shows "payload_holds (replay_finish r payload) A"
proof -
  let ?rows = "sort_key fst (rp_chunks r)" and ?md = "sort_key fst (rp_metadata r)"
  have ok: "dict_ok (rp_chunks r)" "dict_ok (rp_hashes r)" "dict_ok (rp_chunk_ids r)" "dict_ok (rp_metadata r)"
    using assms by (simp_all add: replay_rel_def)
  have "row_ok cr" if "cr \<in> set ?rows" for cr
  proof -
    from that ok(1) have "map_of (rp_chunks r) (fst cr) = Some (snd cr)" by simp
    then obtain d x where "A d = Some x" "cr \<in> set (d_rows x)" using assms unfolding replay_rel_def by fastforce
    then show ?thesis using assms by (auto simp: replay_rel_def docs_ok_def list_all_iff)
  qed
  then have "list_all row_ok ?rows" by (simp add: list_all_iff)
  from add_rows [OF this dict_ok_sort_key [OF ok(1)], of "[]"]
  obtain chunks where chunks: "res_fold add_row (map snd ?rows) [] = Inr chunks" "dict_ok chunks"
    "\<forall>c. map_of chunks c = (case map_of ?rows c of Some row \<Rightarrow> Some row | None \<Rightarrow> map_of [] c)"
    by (auto simp only: list.map distinct.simps simp_thms)
  have rows: "map_of chunks c = map_of (rp_chunks r) c" for c
    using chunks(3) by (simp add: map_of_sort_key [OF ok(1)] split: option.split)
  have hashes: "str_keyed (\<lambda>v. Inr (py_str v)) (str_obj PStr (rp_hashes r)) = Inr (map (\<lambda>(k, v). (k, v)) (sort_key fst (rp_hashes r)))"
    by (rule str_keyed_obj [OF ok(2)]) simp
  have ids: "str_keyed list_values (str_obj PList (rp_chunk_ids r)) = Inr (map (\<lambda>(k, v). (k, v)) (sort_key fst (rp_chunk_ids r)))"
    by (rule str_keyed_obj [OF ok(3)]) (simp add: list_values_def)
  have md: "str_keyed dict_or_empty (str_obj (\<lambda>md. PDict (sort_obj md)) (rp_metadata r)) = Inr (map (\<lambda>(k, v). (k, sort_obj v)) ?md)"
    by (rule str_keyed_obj [OF ok(4)]) (simp add: dict_or_empty_def py_or_def)
  define r' where "r' = \<lparr> rp_chunks = chunks, rp_hashes = sort_key fst (rp_hashes r), rp_chunk_ids = sort_key fst (rp_chunk_ids r),
    rp_metadata = map (\<lambda>(k, v). (k, sort_obj v)) ?md, rp_upserts = 0, rp_deletes = 0, rp_header = None \<rparr>"
  have start: "replay_start (replay_finish r payload) = Inr r'"
    unfolding replay_start_def finish_fields py_iter.simps res_bind_simps chunks(1) hashes ids md r'_def by simp
  have meta: "map_of (rp_metadata r') d = map_option sort_obj (map_of (rp_metadata r) d)" for d
    by (simp add: r'_def map_of_map map_of_sort_key [OF ok(4)])
  have "map_option map_of (map_of (rp_metadata r') d) = map_option d_meta (A d)
      \<and> (\<forall>md. map_of (rp_metadata r') d = Some md \<longrightarrow> dict_ok md)" for d
  proof (cases "map_of (rp_metadata r) d")
    case (Some md)
    moreover from this have "dict_ok md" "map_option d_meta (A d) = Some (map_of md)" using assms unfolding replay_rel_def by (metis option.map(2))+
    ultimately show ?thesis unfolding meta by (simp only: option.map sort_obj_def map_of_sort_key dict_ok_sort_key option.inject simp_thms)
  next
    case None
    moreover from this have "map_option d_meta (A d) = None" using assms unfolding replay_rel_def by (metis option.map(1))
    ultimately show ?thesis unfolding meta by simp
  qed
  moreover have "dict_ok (rp_metadata r')" using dict_ok_sort_key [OF ok(4)] by (simp add: r'_def comp_def case_prod_unfold)
  ultimately have "replay_rel r' A"
    using assms rows chunks(2) unfolding replay_rel_def
    by (simp add: r'_def dict_ok_sort_key map_of_sort_key)
  with start show ?thesis unfolding payload_holds_def r'_def by simp
qed

lemma journal_replay_refines:
  assumes "journal_log st s m sgs" and "payload_holds payload A" and "log_fits sgs bs A"
  obtains payload' where "io_result (journal_replay_onto_payload st payload None) s = Inr (payload', length sgs, log_upserts bs, log_deletes bs)"
    "payload_holds payload' (fold batch_apply bs A)"
proof -
  from assms(2) obtain r0 where r0: "replay_start payload = Inr r0" "rp_upserts r0 = 0" "rp_deletes r0 = 0" "replay_rel r0 A"
    unfolding payload_holds_def by blast
  obtain r where r: "replay_all sgs r0 = Inr r" "replay_rel r (fold batch_apply bs A)" "rp_upserts r = log_upserts bs" "rp_deletes r = log_deletes bs"
    using replay_all_rel [OF r0(4) assms(3)] r0(2, 3) by auto
  show thesis
    by (rule that [OF _ replay_finish_holds [OF r(2)]]) (simp add: journal_replay_log [OF assms(1) r0(1)] r)
qed

section \<open>Recording a base\<close>

lemma journal_base_extra: "base_extra_ok [(PStr ''document_count'', PInt dc), (PStr ''chunk_count'', PInt cc)]"
  by (simp add: base_extra_ok_def)

lemma journal_record_base_law:
  fixes dc cc :: int
  assumes "store_open journal_kind st s" and "file_at s (ss_base st) = Some b"
    and prev: "io_result (journal_read_manifest_optional st) s = Inr prev" "previous_lists journal_kind prev n es"
  defines "m' \<equiv> sorted_obj (base_manifest st b (int (length b)) [(PStr ''document_count'', PInt dc), (PStr ''chunk_count'', PInt cc)] n)"
  shows "io_result (journal_record_base st dc cc) s = Inr \<lparr> jw_file_name = path_name (ss_base st), jw_file_bytes = int (length b), jw_kind = ''base'' \<rparr>"
    and "journal_log st (io_state (journal_record_base st dc cc) s) m' []"
    and "pget m' ''next_seq'' (PInt 0) = PInt (n + 1)"
    and "e \<in> set es \<Longrightarrow> file_at (io_state (journal_record_base st dc cc) s) (segment_path journal_kind st e) = None"
    and "journal_log st s m sgs \<Longrightarrow> crash s (io_ops (journal_record_base st dc cc) s) s' \<Longrightarrow>
      journal_log st s' m sgs \<or> journal_log st s' m' []"
proof -
  let ?extra = "[(PStr ''document_count'', PInt dc), (PStr ''chunk_count'', PInt cc)]"
  note law = jl.anchor_log [OF assms(1, 2) prev [unfolded journal_read_manifest_optional_def] journal_base_extra [of dc cc], where fb = "int (length b)", folded m'_def]
  have eq: "io_result (journal_record_base st dc cc) s =
      res_bind (io_result (ss_anchor_base journal_kind st (int (length b)) ?extra) s)
        (\<lambda>_. Inr \<lparr> jw_file_name = path_name (ss_base st), jw_file_bytes = int (length b), jw_kind = ''base'' \<rparr>)"
    "io_ops (journal_record_base st dc cc) s = io_ops (ss_anchor_base journal_kind st (int (length b)) ?extra) s"
    by (simp_all add: journal_record_base_def assms(2) split: sum.split)
  show "io_result (journal_record_base st dc cc) s = Inr \<lparr> jw_file_name = path_name (ss_base st), jw_file_bytes = int (length b), jw_kind = ''base'' \<rparr>"
    by (simp add: eq(1) law(1))
  show "journal_log st (io_state (journal_record_base st dc cc) s) m' []"
    using law(2) by (simp add: io_state_def eq(2))
  show "file_at (io_state (journal_record_base st dc cc) s) (segment_path journal_kind st e) = None" if "e \<in> set es"
    using law(3) [OF that] by (simp add: io_state_def eq(2))
  show "journal_log st s' m sgs \<or> journal_log st s' m' []" if "journal_log st s m sgs" "crash s (io_ops (journal_record_base st dc cc) s) s'"
    using law(4) [OF that(1)] that(2) by (simp add: eq(2))
  have "dict_ok (base_manifest st b (int (length b)) ?extra n)" by (simp add: base_manifest_def)
  then show "pget m' ''next_seq'' (PInt 0) = PInt (n + 1)"
    using pget_sorted_scalar [of "base_manifest st b (int (length b)) ?extra n" "PInt 0" "''next_seq''"]
    by (simp add: m'_def base_manifest_def pget_def)
qed

section \<open>Appending and replaying\<close>

lemma log_fits_snoc:
  "log_fits sgs bs A \<Longrightarrow> batch_fits sg b (fold batch_apply bs A) \<Longrightarrow> log_fits (sgs @ [sg]) (bs @ [b]) A"
  by (induction sgs bs A rule: log_fits.induct) auto

lemma written_fits:
  assumes "batch_ok ups header" and "list_all2 (\<lambda>v (d, x). doc_repr (key_sorted v) d x) ups us" and "batch_valid \<lparr> b_deletes = dels, b_upserts = us \<rparr> A"
    and "A' = batch_apply \<lparr> b_deletes = dels, b_upserts = us \<rparr> A"
  shows "batch_fits (written_segment q ups dels header (int (card (dom A'))) (int (card (all_chunks A'))) g) \<lparr> b_deletes = dels, b_upserts = us \<rparr> A"
proof -
  let ?b = "body_obj ups dels header" and ?h = "header_obj q g (int (card (dom A'))) (int (card (all_chunks A'))) (journal_blob ups dels header)"
  have ok: "dict_ok ?b" "dict_ok ?h" by (simp_all add: body_obj_def journal_body_def header_obj_def journal_header_def)
  have tuple: "key_sorted (PTuple []) = PTuple []" "key_sorted (PDict []) = PDict []" by simp_all
  have body: "pget (sorted_obj ?b) ''deleted_document_ids'' (PTuple []) = PList (map PStr dels)"
    "pget (sorted_obj ?b) ''upserted_documents'' (PTuple []) = PList (map key_sorted ups)"
    "pget (sorted_obj ?b) ''state_header'' (PDict []) = PDict (sorted_obj header)"
    using pget_sorted_obj [OF ok(1), of _ "PTuple []"] pget_sorted_obj [OF ok(1), of _ "PDict []"]
    by (simp_all add: body_obj_def journal_body_def pget_def comp_def sorted_obj_def)
  have head: "pget (sorted_obj ?h) ''document_count_after'' (PInt (- 1)) = PInt (int (card (dom A')))"
    "pget (sorted_obj ?h) ''chunk_count_after'' (PInt (- 1)) = PInt (int (card (all_chunks A')))"
    using pget_sorted_scalar [OF ok(2), of "PInt (- 1)"] by (simp_all add: header_obj_def journal_header_def pget_def)
  have "list_all2 (\<lambda>v (d, x). doc_repr v d x) (map key_sorted ups) us"
    using assms(2) by (simp add: list_all2_conv_all_nth)
  with body head assms(3, 4) show ?thesis by (simp add: batch_fits_def batch_body_def written_segment_def)
qed

end
