(* ===== verification/JournalLaws.thy ===== *)
theory JournalLaws
  imports JournalReplay
begin

text \<open>
  The laws of the state journal over its whole life: append and replay, crash safety, recovery,
  anchoring a base, failing closed and the bound on the backlog, each with a sample journal that
  meets its hypotheses.
\<close>

section \<open>Properties\<close>

text \<open>
  C5. Appending a batch and replaying the journal onto its base gives the documents of the batch
  applied to the documents of the log before: what a writer journals is what a reader recovers.
\<close>

theorem journal_append_then_replay:
  assumes log: "journal_log st s m sgs" and "pget m ''next_seq'' (PInt 0) = PInt n" and "payload_holds payload A" and "log_fits sgs bs A"
    and "batch_ok ups header" and "list_all2 (\<lambda>v (d, x). doc_repr (key_sorted v) d x) ups us"
    and "batch_valid \<lparr> b_deletes = dels, b_upserts = us \<rparr> (fold batch_apply bs A)"
    and A': "A' = batch_apply \<lparr> b_deletes = dels, b_upserts = us \<rparr> (fold batch_apply bs A)"
    and "dc = int (card (dom A'))" and "cc = int (card (all_chunks A'))"
    and "header_fits (journal_header n g dc cc (journal_blob ups dels header))"
  shows "\<exists>w payload'. io_result (journal_append_delta st ups dels header dc cc g) s = Inr w
    \<and> io_result (journal_replay_onto_payload st payload None) (io_state (journal_append_delta st ups dels header dc cc g) s)
        = Inr (payload', Suc (length sgs), log_upserts bs + length us, log_deletes bs + length dels)
    \<and> payload_holds payload' A'"
proof -
  let ?b = "\<lparr> b_deletes = dels, b_upserts = us \<rparr>"
  have "batch_fits (written_segment n ups dels header dc cc g) ?b (fold batch_apply bs A)"
    using written_fits [OF assms(5-7) A'] assms(9, 10) by simp
  note fits = log_fits_snoc [OF assms(4) this]
  obtain w m' where w: "io_result (journal_append_delta st ups dels header dc cc g) s = Inr w"
    "journal_log st (io_state (journal_append_delta st ups dels header dc cc g) s) m' (sgs @ [written_segment n ups dels header dc cc g])"
    by (rule journal_append_law [OF log assms(2, 5, 11)])
  from journal_replay_refines [OF w(2) assms(3) fits] w(1) show ?thesis
    by (auto simp: A' log_upserts_def log_deletes_def)
qed

text \<open>
  C1. An append is crash safe: from any crash state, torn writes included, replay succeeds and
  gives the documents before the batch or the documents after it, never a mixture.
\<close>

theorem journal_append_crash_safe:
  assumes log: "journal_log st s m sgs" and "pget m ''next_seq'' (PInt 0) = PInt n" and "payload_holds payload A" and "log_fits sgs bs A"
    and "batch_ok ups header" and "list_all2 (\<lambda>v (d, x). doc_repr (key_sorted v) d x) ups us"
    and "batch_valid \<lparr> b_deletes = dels, b_upserts = us \<rparr> (fold batch_apply bs A)"
    and A': "A' = batch_apply \<lparr> b_deletes = dels, b_upserts = us \<rparr> (fold batch_apply bs A)"
    and "dc = int (card (dom A'))" and "cc = int (card (all_chunks A'))"
    and "header_fits (journal_header n g dc cc (journal_blob ups dels header))"
    and crash: "crash s (io_ops (journal_append_delta st ups dels header dc cc g) s) s'"
  shows "\<exists>payload' report. io_result (journal_replay_onto_payload st payload None) s' = Inr (payload', report)
    \<and> (payload_holds payload' (fold batch_apply bs A) \<or> payload_holds payload' A')"
proof -
  let ?b = "\<lparr> b_deletes = dels, b_upserts = us \<rparr>"
  have "batch_fits (written_segment n ups dels header dc cc g) ?b (fold batch_apply bs A)"
    using written_fits [OF assms(5-7) A'] assms(9, 10) by simp
  note fits = log_fits_snoc [OF assms(4) this]
  show ?thesis
  proof (rule journal_append_law [OF log assms(2, 5, 11)])
    fix m' assume "\<And>s'. crash s (io_ops (journal_append_delta st ups dels header dc cc g) s) s' \<Longrightarrow>
      journal_log st s' m sgs \<or> journal_log st s' m' (sgs @ [written_segment n ups dels header dc cc g])"
    from this [OF crash] show ?thesis
    proof
      assume "journal_log st s' m sgs"
      from journal_replay_refines [OF this assms(3, 4)] show ?thesis by blast
    next
      assume "journal_log st s' m' (sgs @ [written_segment n ups dels header dc cc g])"
      moreover have "fold batch_apply (bs @ [?b]) A = A'" by (simp add: A')
      ultimately show ?thesis using journal_replay_refines [OF _ assms(3) fits] by metis
    qed
  qed
qed

text \<open>
  C14. Recovery rolls back: after a crash at any point of an append, restoring the committed manifest
  gives the committed log again and leaves no segment file the manifest does not name.
\<close>

theorem journal_restore_rolls_back:
  assumes log: "journal_log st s m sgs" and "pget m ''next_seq'' (PInt 0) = PInt n" and "batch_ok ups header"
    and "header_fits (journal_header n g dc cc (journal_blob ups dels header))"
    and crash: "crash s (io_ops (journal_append_delta st ups dels header dc cc g) s) s'"
  shows "io_result (journal_restore_manifest st m) s' = Inr ()
    \<and> journal_log st (io_state (journal_restore_manifest st m) s') (sorted_obj m) sgs
    \<and> (\<forall>name. py_endswith name STATE_JOURNAL_SEGMENT_SUFFIX
        \<longrightarrow> file_at (io_state (journal_restore_manifest st m) s') (ss_dir journal_kind st @ [name]) \<noteq> None
        \<longrightarrow> (\<exists>names. manifest_segment_names (Some m) = Inr names \<and> name \<in> set names))"
proof -
  obtain es where lists: "manifest_lists journal_kind m n es"
    using log assms(2) unfolding log_ok_def manifest_lists_def by auto
  have "store_ready journal_kind st s' \<and> (\<forall>q. q \<notin> append_paths journal_kind st n \<longrightarrow> file_at s' q = file_at s q)"
  proof (rule journal_append_law [OF log assms(2-4)])
    assume "\<And>s'. crash s (io_ops (journal_append_delta st ups dels header dc cc g) s) s' \<Longrightarrow>
      store_ready journal_kind st s' \<and> (\<forall>q. q \<notin> append_paths journal_kind st n \<longrightarrow> file_at s' q = file_at s q)"
    from this [OF crash] show ?thesis .
  qed
  then have c: "store_ready journal_kind st s'" "\<And>q. q \<notin> append_paths journal_kind st n \<Longrightarrow> file_at s' q = file_at s q" by blast+
  have same: "file_at s' (ss_dir journal_kind st @ [segment_name journal_kind q]) = file_at s (ss_dir journal_kind st @ [segment_name journal_kind q])"
    if "0 \<le> q" "q < n" for q
    by (rule c(2)) (rule old_segment_untouched [OF journal_kind_ok that])
  note restore = jl.restore_log [OF log lists c(1) same]
  have suffix: "kind_segment_suffix journal_kind = STATE_JOURNAL_SEGMENT_SUFFIX" by (simp add: journal_kind_def)
  show ?thesis
    using restore(1, 2) restore(3) [unfolded suffix] manifest_names_lists [OF lists]
    unfolding journal_restore_manifest_def by blast
qed

text \<open>
  C15. Recording a base empties the log: the old segments are gone and the next sequence number is
  larger than every one used, so a segment name is never reused.  A crash on the way leaves the old
  log or the empty one.
\<close>

theorem journal_base_clears_backlog:
  assumes "store_open journal_kind st s" and "file_at s (ss_base st) = Some b"
    and "io_result (journal_read_manifest_optional st) s = Inr prev" and "previous_lists journal_kind prev n es"
  shows "\<exists>m'. io_result (journal_record_base st dc cc) s
        = Inr \<lparr> jw_file_name = path_name (ss_base st), jw_file_bytes = int (length b), jw_kind = ''base'' \<rparr>
    \<and> journal_log st (io_state (journal_record_base st dc cc) s) m' [] \<and> pget m' ''next_seq'' (PInt 0) = PInt (n + 1)
    \<and> (\<forall>e \<in> set es. file_at (io_state (journal_record_base st dc cc) s) (segment_path journal_kind st e) = None)
    \<and> (\<forall>m sgs s'. journal_log st s m sgs \<longrightarrow> crash s (io_ops (journal_record_base st dc cc) s) s' \<longrightarrow>
        journal_log st s' m sgs \<or> journal_log st s' m' [])"
  using journal_record_base_law [OF assms, where dc = dc and cc = cc] by blast

subsection \<open>A sample journal\<close>

text \<open>A header whose numbers are small fits the length field.\<close>

lemma header_fits_small:
  assumes "nat \<bar>q\<bar> \<le> 1000" "nat \<bar>g\<bar> \<le> 1000" "nat \<bar>dc\<bar> \<le> 1000" "nat \<bar>cc\<bar> \<le> 1000" "length blob \<le> 1000"
  shows "header_fits (journal_header q g dc cc blob)"
proof -
  have "json_weight (journal_header q g dc cc blob) \<le> 1000000"
    using assms sha256_hex_digest [of blob] by (simp add: journal_header_def SCHEMA_VERSION_def)
  from dumps_fits [OF journal_header_ok this] show ?thesis by (auto simp: header_fits_def)
qed

definition sample_journal :: segment_store where "sample_journal = journal_store [''db'', ''k.json''] True"

definition sample_journal_fs :: fs where
  "sample_journal_fs = \<lparr> fs_files = [([''db'', ''k.json''], ''{}'')], fs_dirs = [[''db'']] \<rparr>"

definition sample_doc :: doc where
  "sample_doc = \<lparr> d_hash = ''h1'', d_rows = [(''c1'', PDict [(PStr ''chunk_id'', PStr ''c1'')])], d_meta = [PStr ''lang'' \<mapsto> PStr ''en''] \<rparr>"

definition sample_upsert :: pyval where
  "sample_upsert = PDict [(PStr ''document_id'', PStr ''d1''), (PStr ''document_hash'', PStr ''h1''), (PStr ''chunk_ids'', PList [PStr ''c1'']),
     (PStr ''chunks'', PList [PDict [(PStr ''chunk_id'', PStr ''c1'')]]), (PStr ''metadata'', PDict [(PStr ''lang'', PStr ''en'')])]"

abbreviation sample_opened :: fs where
  "sample_opened \<equiv> io_state (journal_record_base sample_journal 0 0) sample_journal_fs"

lemma sample_open:
  "store_open journal_kind sample_journal sample_journal_fs" "file_at sample_journal_fs (ss_base sample_journal) = Some ''{}''"
  "io_result (journal_read_manifest_optional sample_journal) sample_journal_fs = Inr None" "previous_lists journal_kind None 0 []"
proof -
  have d: "ss_dir journal_kind sample_journal = [''db'', ''k.json.json-delta'']"
    by (simp add: sample_journal_def journal_store_def journal_kind_def ss_dir_def with_name_def path_name_def STATE_JOURNAL_DIR_SUFFIX_def)
  show "store_open journal_kind sample_journal sample_journal_fs"
    unfolding store_open_def d by (auto simp: sample_journal_fs_def file_at_def is_dir_at_def prefix_Cons)
  show "file_at sample_journal_fs (ss_base sample_journal) = Some ''{}''"
    by (simp add: sample_journal_fs_def sample_journal_def journal_store_def file_at_def)
  show "io_result (journal_read_manifest_optional sample_journal) sample_journal_fs = Inr None"
    by (simp add: journal_read_manifest_optional_def read_manifest_optional_result ss_manifest_path_def d sample_journal_fs_def file_at_def)
  show "previous_lists journal_kind None 0 []" by (simp add: previous_lists_def)
qed

lemma sample_log: obtains m where "journal_log sample_journal sample_opened m []" "pget m ''next_seq'' (PInt 0) = PInt 1"
  using journal_record_base_law(2, 3) [OF sample_open, where dc = 0 and cc = 0] by force

abbreviation sample_docs :: docs where "sample_docs \<equiv> [''d1'' \<mapsto> sample_doc]"

lemma sample_batch:
  "payload_holds [] Map.empty" "batch_ok [sample_upsert] []" "list_all2 (\<lambda>v (d, x). doc_repr (key_sorted v) d x) [sample_upsert] [(''d1'', sample_doc)]"
  "batch_valid \<lparr> b_deletes = [''d0''], b_upserts = [(''d1'', sample_doc)] \<rparr> (fold batch_apply [] Map.empty)"
  "sample_docs = batch_apply \<lparr> b_deletes = [''d0''], b_upserts = [(''d1'', sample_doc)] \<rparr> (fold batch_apply [] Map.empty)"
  "1 = int (card (dom sample_docs))" "1 = int (card (all_chunks sample_docs))"
  "header_fits (journal_header 1 1 1 1 (journal_blob [sample_upsert] [''d0''] []))"
proof -
  show "payload_holds [] Map.empty"
    by (auto simp: payload_holds_def replay_start_def pget_def str_keyed_def py_or_def replay_rel_def docs_ok_def doc_chunks_def)
  show "batch_ok [sample_upsert] []" by (simp add: batch_ok_def sample_upsert_def)
  have "key_sorted sample_upsert = PDict [(PStr ''chunk_ids'', PList [PStr ''c1'']), (PStr ''chunks'', PList [PDict [(PStr ''chunk_id'', PStr ''c1'')]]),
      (PStr ''document_hash'', PStr ''h1''), (PStr ''document_id'', PStr ''d1''), (PStr ''metadata'', PDict [(PStr ''lang'', PStr ''en'')])]"
    by code_simp
  then show "list_all2 (\<lambda>v (d, x). doc_repr (key_sorted v) d x) [sample_upsert] [(''d1'', sample_doc)]"
    by (simp add: doc_repr_def sample_doc_def)
  have "docs_ok sample_docs" by (auto simp: docs_ok_def sample_doc_def row_ok_def doc_chunks_def)
  then show "batch_valid \<lparr> b_deletes = [''d0''], b_upserts = [(''d1'', sample_doc)] \<rparr> (fold batch_apply [] Map.empty)"
    by (simp add: batch_valid_def fun_upd_idem)
  show "sample_docs = batch_apply \<lparr> b_deletes = [''d0''], b_upserts = [(''d1'', sample_doc)] \<rparr> (fold batch_apply [] Map.empty)"
    by (simp add: batch_apply_def fun_upd_idem)
  have "all_chunks sample_docs = {''c1''}" by (auto simp: all_chunks_def doc_chunks_def sample_doc_def split: if_splits option.splits)
  then show "1 = int (card (all_chunks sample_docs))" by simp
  have "length (journal_blob [sample_upsert] [''d0''] []) \<le> 1000" by code_simp
  then show "header_fits (journal_header 1 1 1 1 (journal_blob [sample_upsert] [''d0''] []))"
    by (intro header_fits_small) simp_all
qed simp_all

abbreviation sample_append :: "journal_write io" where
  "sample_append \<equiv> journal_append_delta sample_journal [sample_upsert] [''d0''] [] 1 1 1"

theorem journal_append_then_replay_witness:
  "\<exists>w payload'. io_result sample_append sample_opened = Inr w
    \<and> io_result (journal_replay_onto_payload sample_journal [] None) (io_state sample_append sample_opened) = Inr (payload', 1, 1, 1)
    \<and> payload_holds payload' sample_docs"
proof (rule sample_log)
  fix m assume m: "journal_log sample_journal sample_opened m []" "pget m ''next_seq'' (PInt 0) = PInt 1"
  have "log_fits [] [] Map.empty" by simp
  from journal_append_then_replay [OF m sample_batch(1) this sample_batch(2-8)] show ?thesis
    by (simp add: log_upserts_def log_deletes_def)
qed

theorem journal_append_crash_safe_witness:
  "\<exists>s'. crash sample_opened (io_ops sample_append sample_opened) s'
    \<and> (\<exists>payload' report. io_result (journal_replay_onto_payload sample_journal [] None) s' = Inr (payload', report)
      \<and> (payload_holds payload' Map.empty \<or> payload_holds payload' sample_docs))"
proof (rule sample_log)
  fix m assume m: "journal_log sample_journal sample_opened m []" "pget m ''next_seq'' (PInt 0) = PInt 1"
  have fits: "log_fits [] [] Map.empty" by simp
  let ?s = "run_ops (io_ops sample_append sample_opened) sample_opened"
  have c: "crash sample_opened (io_ops sample_append sample_opened) ?s" by (rule crash_done)
  from journal_append_crash_safe [OF m sample_batch(1) fits sample_batch(2-8) c] c show ?thesis by (intro exI [of _ ?s]) simp
qed

theorem journal_restore_rolls_back_witness:
  "\<exists>m s'. crash sample_opened (io_ops sample_append sample_opened) s'
    \<and> io_result (journal_restore_manifest sample_journal m) s' = Inr ()
    \<and> journal_log sample_journal (io_state (journal_restore_manifest sample_journal m) s') (sorted_obj m) []"
proof (rule sample_log)
  fix m assume m: "journal_log sample_journal sample_opened m []" "pget m ''next_seq'' (PInt 0) = PInt 1"
  let ?s = "run_ops (io_ops sample_append sample_opened) sample_opened"
  have c: "crash sample_opened (io_ops sample_append sample_opened) ?s" by (rule crash_done)
  from journal_restore_rolls_back [OF m sample_batch(2, 8) c] c show ?thesis by blast
qed

theorem journal_base_clears_backlog_witness:
  "\<exists>m'. io_result (journal_record_base sample_journal 0 0) sample_journal_fs
        = Inr \<lparr> jw_file_name = ''k.json'', jw_file_bytes = 2, jw_kind = ''base'' \<rparr>
    \<and> journal_log sample_journal sample_opened m' [] \<and> pget m' ''next_seq'' (PInt 0) = PInt 1"
proof -
  have "path_name (ss_base sample_journal) = ''k.json''" by (simp add: sample_journal_def journal_store_def path_name_def)
  then show ?thesis using journal_base_clears_backlog [OF sample_open, of 0 0] by auto
qed

section \<open>Replay fails closed\<close>

definition entry_intact :: "segment_store \<Rightarrow> fs \<Rightarrow> obj \<Rightarrow> bool" where
  "entry_intact st s e \<longleftrightarrow> (\<exists>b sg. file_at s (segment_path journal_kind st e) = Some b
     \<and> sha256_hex b = py_str (pget e ''sha256'' (PStr [])) \<and> parse_journal_segment b = Inr sg)"

lemma replay_entries_checked:
  assumes "io_result (replay_entries st p es r) s = Inr r'"
  shows "(\<forall>e \<in> set es. entry_intact st s e)
    \<and> (\<exists>qs. list_all2 (\<lambda>e q. py_int (pget e ''seq'' (PInt (- 1))) = Inr q) es qs \<and> sorted_wrt (<) qs)"
  using jl.replay_checked [OF journal_replay_loop assms] unfolding entry_intact_def by blast

text \<open>
  C16. Replay fails closed: it returns a payload only if every segment of the manifest is present
  with its recorded digest and parses, and the sequence numbers rise.
\<close>

theorem journal_replay_fails_closed:
  assumes "io_result (or_read journal_kind st manifest) s = Inr m"
    and "io_result (journal_replay_onto_payload st payload manifest) s = Inr out"
  shows "\<exists>es qs. manifest_deltas m = Inr es \<and> (\<forall>e \<in> set es. entry_intact st s e)
    \<and> list_all2 (\<lambda>e q. py_int (pget e ''seq'' (PInt (- 1))) = Inr q) es qs \<and> sorted_wrt (<) qs"
proof -
  have pure: "io_state (or_read journal_kind st manifest) s = s" by (simp add: or_read_def split: option.split)
  from assms(2) obtain r0 es r where "manifest_deltas m = Inr es" "io_result (replay_entries st (- 1) es r0) s = Inr r"
    unfolding journal_replay_onto_payload_def by (auto simp: assms(1) pure)
  with replay_entries_checked [OF this(2)] show ?thesis by blast
qed

theorem journal_replay_fails_closed_witness:
  "\<exists>m out es qs. io_result (journal_replay_onto_payload sample_journal [] None) (io_state sample_append sample_opened) = Inr out
    \<and> io_result (or_read journal_kind sample_journal None) (io_state sample_append sample_opened) = Inr m
    \<and> manifest_deltas m = Inr es \<and> (\<forall>e \<in> set es. entry_intact sample_journal (io_state sample_append sample_opened) e)
    \<and> list_all2 (\<lambda>e q. py_int (pget e ''seq'' (PInt (- 1))) = Inr q) es qs \<and> sorted_wrt (<) qs"
proof (rule sample_log)
  fix m0 assume m0: "journal_log sample_journal sample_opened m0 []" "pget m0 ''next_seq'' (PInt 0) = PInt 1"
  let ?s = "io_state sample_append sample_opened" and ?sg = "written_segment 1 [sample_upsert] [''d0''] [] 1 1 1"
  show ?thesis
  proof (rule journal_append_law [OF m0 sample_batch(2, 8)])
    fix m assume m: "journal_log sample_journal ?s m ([] @ [?sg])"
    have read: "io_result (or_read journal_kind sample_journal None) ?s = Inr m" using m by (simp add: log_ok_def or_read_def)
    have "batch_fits ?sg \<lparr> b_deletes = [''d0''], b_upserts = [(''d1'', sample_doc)] \<rparr> (fold batch_apply [] Map.empty)"
      using written_fits [OF sample_batch(2-5)] sample_batch(6, 7) by simp
    then have "log_fits ([] @ [?sg]) [\<lparr> b_deletes = [''d0''], b_upserts = [(''d1'', sample_doc)] \<rparr>] Map.empty" by simp
    then obtain out where out: "io_result (journal_replay_onto_payload sample_journal [] None) ?s = Inr out"
      using journal_replay_refines [OF m sample_batch(1)] by blast
    from journal_replay_fails_closed [OF read out] read out show ?thesis by blast
  qed
qed

text \<open>
  C37. The compaction threshold bounds the backlog: it asks for compaction as soon as the log has the
  allowed number of segments, and never for an empty log.
\<close>

theorem journal_backlog_bounded:
  assumes "journal_log st s m sgs" and "0 < max_segments" and "io_result (journal_should_compact st fraction max_segments) s = Inr verdict"
  shows "(verdict \<or> int (length sgs) < max_segments) \<and> (sgs = [] \<longrightarrow> \<not> verdict)"
proof -
  from assms(1) obtain n es where l: "manifest_lists journal_kind m n es" "length es = length sgs" and read: "io_result (ss_read_manifest journal_kind st) s = Inr m"
    unfolding log_ok_def by (auto dest: list_all2_lengthD)
  have "io_result (ss_read_manifest_optional journal_kind st) s = Inr (Some m)"
    using read by (auto simp: read_manifest_result read_manifest_optional_result split: option.splits)
  moreover from l have "m \<noteq> []" by (auto simp: manifest_lists_def pget_def SCHEMA_VERSION_def)
  ultimately show ?thesis
    using assms(2, 3) l(2) unfolding journal_should_compact_def journal_read_manifest_optional_def
    by (auto simp: manifest_deltas_lists [OF l(1)] split: if_splits)
qed

theorem journal_backlog_bounded_witness:
  "io_result (journal_should_compact sample_journal DEFAULT_MAX_DELTA_DOCUMENT_FRACTION DEFAULT_MAX_DELTA_SEGMENTS) sample_opened = Inr False"
proof (rule sample_log)
  fix m assume m: "journal_log sample_journal sample_opened m []" "pget m ''next_seq'' (PInt 0) = PInt 1"
  then obtain n es where l: "manifest_lists journal_kind m n es" "es = []" and read: "io_result (ss_read_manifest journal_kind sample_journal) sample_opened = Inr m"
    unfolding log_ok_def by auto
  have "io_result (ss_read_manifest_optional journal_kind sample_journal) sample_opened = Inr (Some m)"
    using read by (auto simp: read_manifest_result read_manifest_optional_result split: option.splits)
  then obtain verdict where c: "io_result (journal_should_compact sample_journal DEFAULT_MAX_DELTA_DOCUMENT_FRACTION DEFAULT_MAX_DELTA_SEGMENTS) sample_opened = Inr verdict"
    using manifest_deltas_lists [OF l(1)] l(2) unfolding journal_should_compact_def journal_read_manifest_optional_def
    by (cases "m = []") auto
  have "0 < DEFAULT_MAX_DELTA_SEGMENTS" by (simp add: DEFAULT_MAX_DELTA_SEGMENTS_def)
  from journal_backlog_bounded [OF m(1) this c] c show ?thesis by simp
qed

end
