(* ===== verification/DeltaStore.thy ===== *)
theory DeltaStore
  imports SegmentStore
begin

text \<open>
  The log of vector deltas (\<open>engine/turbovec_delta_store.py\<close>): a base \<open>.tvim\<close> file written by the
  native index plus ordered \<open>.tvd\<close> segments with the exact codes of upserted rows and the ids of
  removed ones.  The native index is a parameter, a record of the operations the store calls.  An
  array is its dtype, its shape and its bytes in row order; ids arrive as 64-bit words, codes and
  scales with the dtype of their annotation, for which \<open>ascontiguousarray\<close> changes nothing.  The
  wall-clock fields of the reports are left out.
\<close>

section \<open>Definitions\<close>

definition TVIM_DELTA_DIR_SUFFIX :: string where "TVIM_DELTA_DIR_SUFFIX = ''.tvim-delta''"
definition TVIM_DELTA_MANIFEST_NAME :: string where "TVIM_DELTA_MANIFEST_NAME = ''manifest.json''"
definition TVIM_DELTA_SEGMENT_SUFFIX :: string where "TVIM_DELTA_SEGMENT_SUFFIX = ''.tvd''"
definition TVIM_DELTA_MAGIC :: bytes where "TVIM_DELTA_MAGIC = ''EETVD001''"
definition DEFAULT_MAX_DELTA_ROW_FRACTION :: rat where "DEFAULT_MAX_DELTA_ROW_FRACTION = 1 / 4"
definition TVIM_MAX_DELTA_SEGMENTS :: int where "TVIM_MAX_DELTA_SEGMENTS = 64"

definition delta_kind :: store_kind where
  "delta_kind = \<lparr> kind_label = ''TurboVec delta'', kind_base_label = ''TurboVec base snapshot'',
     kind_dir_suffix = TVIM_DELTA_DIR_SUFFIX, kind_segment_suffix = TVIM_DELTA_SEGMENT_SUFFIX,
     kind_magic = TVIM_DELTA_MAGIC \<rparr>"

subsection \<open>Arrays\<close>

type_synonym u64 = "64 word"

record ndarray =
  nd_dtype :: string
  nd_shape :: "int list"
  nd_data :: bytes

definition u64_array :: "u64 list \<Rightarrow> ndarray" where
  "u64_array ids = \<lparr> nd_dtype = ''uint64'', nd_shape = [int (length ids)], nd_data = concat (map (\<lambda>i. le64 (uint i)) ids) \<rparr>"

definition itemsize :: "string \<Rightarrow> int option" where
  "itemsize dtype = map_of [(''uint64'', 8), (''int64'', 8), (''float64'', 8), (''uint32'', 4), (''int32'', 4), (''float32'', 4),
     (''uint16'', 2), (''int16'', 2), (''float16'', 2), (''uint8'', 1), (''int8'', 1), (''bool'', 1)] dtype"

text \<open>\<open>np.frombuffer(blob, dtype).reshape(shape)\<close>; one negative size is inferred.\<close>

definition reshape :: "int \<Rightarrow> int list \<Rightarrow> int list res" where
  "reshape count shape =
     (let known = prod_list (filter (\<lambda>n. 0 \<le> n) shape) in
      case filter (\<lambda>n. n < 0) shape of
        [] \<Rightarrow> if known = count then Inr shape else Inl (ValueError ''cannot reshape array'')
      | [_] \<Rightarrow> if known \<noteq> 0 \<and> count mod known = 0 then Inr (map (\<lambda>n. if n < 0 then count div known else n) shape)
               else Inl (ValueError ''cannot reshape array'')
      | _ \<Rightarrow> Inl (ValueError ''can only specify one unknown dimension''))"

definition from_buffer :: "bytes \<Rightarrow> pyval \<Rightarrow> (string \<times> int) res" where
  "from_buffer blob dtype = (case dtype of
       PStr t \<Rightarrow> (case itemsize t of
           None \<Rightarrow> Inl (TypeError ''data type not understood'')
         | Some n \<Rightarrow> if int (length blob) mod n = 0 then Inr (t, int (length blob) div n)
                     else Inl (ValueError ''buffer size must be a multiple of element size''))
     | _ \<Rightarrow> Inl (TypeError ''data type not understood''))"

definition shape0 :: "ndarray \<Rightarrow> int res" where
  "shape0 a = (case nd_shape a of [] \<Rightarrow> Inl (IndexError ''tuple index out of range'') | n # _ \<Rightarrow> Inr n)"

subsection \<open>The native index\<close>

record 'i index_ops =
  ix_has :: "'i \<Rightarrow> string \<Rightarrow> bool"
  ix_write :: "'i \<Rightarrow> bytes"
  ix_len :: "'i \<Rightarrow> int"
  ix_fingerprint :: "'i \<Rightarrow> int"
  ix_bytes_per_vector :: "'i \<Rightarrow> int option"
  ix_export :: "'i \<Rightarrow> u64 list \<Rightarrow> (ndarray \<times> ndarray) res"
  ix_remove :: "'i \<Rightarrow> ndarray \<Rightarrow> (int \<times> 'i) res"
  ix_add :: "'i \<Rightarrow> ndarray \<Rightarrow> ndarray \<Rightarrow> ndarray \<Rightarrow> 'i res"

definition turbovec_delta_api_available :: "'i index_ops \<Rightarrow> 'i \<Rightarrow> bool" where
  "turbovec_delta_api_available ops index =
     list_all (ix_has ops index) [''export_encoded'', ''add_encoded'', ''remove_many'', ''calibration_fingerprint'']"

definition call_fingerprint :: "'i index_ops \<Rightarrow> 'i \<Rightarrow> int res" where
  "call_fingerprint ops index = (if ix_has ops index ''calibration_fingerprint'' then Inr (ix_fingerprint ops index)
     else Inl (AttributeError ''calibration_fingerprint''))"

subsection \<open>The store\<close>

record delta_write =
  dw_file_name :: string
  dw_file_bytes :: int
  dw_kind :: string

definition delta_store :: "path \<Rightarrow> bool \<Rightarrow> segment_store" where
  "delta_store base_path fsync = \<lparr> ss_base = base_path, ss_fsync = fsync \<rparr>"

definition delta_manifest_path :: "segment_store \<Rightarrow> path" where
  "delta_manifest_path st = ss_manifest_path delta_kind st"

definition delta_has_manifest :: "segment_store \<Rightarrow> bool io" where
  "delta_has_manifest st = ss_has_manifest delta_kind st"

definition delta_read_manifest_optional :: "segment_store \<Rightarrow> obj option io" where
  "delta_read_manifest_optional st = ss_read_manifest_optional delta_kind st"

definition delta_read_manifest :: "segment_store \<Rightarrow> obj io" where
  "delta_read_manifest st = ss_read_manifest delta_kind st"

definition delta_write_manifest :: "segment_store \<Rightarrow> obj \<Rightarrow> unit io" where
  "delta_write_manifest st m = ss_write_manifest delta_kind st m"

definition delta_validated_segment_path :: "segment_store \<Rightarrow> obj \<Rightarrow> path io" where
  "delta_validated_segment_path st entry = ss_validated_segment_path delta_kind st entry"

definition delta_persist_base :: "'i index_ops \<Rightarrow> segment_store \<Rightarrow> 'i \<Rightarrow> delta_write io" where
  "delta_persist_base ops st index =
     io_bind (mkdir_parents (butlast (ss_base st))) (\<lambda>_.
     let temporary = with_name (ss_base st) (path_name (ss_base st) @ ''.tmp'') in
     io_bind (write_bytes temporary (ix_write ops index)) (\<lambda>_.
     io_bind (durable_replace temporary (ss_base st) (ss_fsync st)) (\<lambda>_.
     io_bind (stat_size (ss_base st)) (\<lambda>file_bytes.
     io_bind (ss_anchor_base delta_kind st file_bytes
       [(PStr ''rows'', PInt (ix_len ops index)),
        (PStr ''calibration_fingerprint'',
           PInt (if ix_has ops index ''calibration_fingerprint'' then ix_fingerprint ops index else 0))]) (\<lambda>_.
       io_return \<lparr> dw_file_name = path_name (ss_base st), dw_file_bytes = file_bytes, dw_kind = ''base'' \<rparr>)))))"

definition delta_arrays :: "'i index_ops \<Rightarrow> 'i \<Rightarrow> u64 list \<Rightarrow> u64 list \<Rightarrow> (string \<times> ndarray) list res" where
  "delta_arrays ops index upsert_stable_ids removed_stable_ids =
     res_bind (if upsert_stable_ids \<noteq> [] then ix_export ops index upsert_stable_ids
               else Inr (\<lparr> nd_dtype = ''uint8'', nd_shape = [0, case ix_bytes_per_vector ops index of None \<Rightarrow> 0 | Some n \<Rightarrow> n], nd_data = [] \<rparr>,
                         \<lparr> nd_dtype = ''float32'', nd_shape = [0], nd_data = [] \<rparr>)) (\<lambda>(codes, scales).
       Inr [(''upsert_stable_ids'', u64_array upsert_stable_ids), (''upsert_codes'', codes),
            (''upsert_scales'', scales), (''removed_stable_ids'', u64_array removed_stable_ids)])"

definition array_spec :: "string \<times> ndarray \<Rightarrow> obj" where
  "array_spec na = (case na of (name, a) \<Rightarrow>
     [(PStr ''name'', PStr name), (PStr ''dtype'', PStr (nd_dtype a)), (PStr ''shape'', PList (map PInt (nd_shape a))),
      (PStr ''nbytes'', PInt (int (length (nd_data a)))), (PStr ''sha256'', PStr (sha256_hex (nd_data a)))])"

definition delta_header :: "int \<Rightarrow> int \<Rightarrow> int \<Rightarrow> int \<Rightarrow> (string \<times> ndarray) list \<Rightarrow> obj" where
  "delta_header sequence generation fingerprint rows arrays =
     [(PStr ''schema_version'', PInt SCHEMA_VERSION), (PStr ''kind'', PStr ''delta''), (PStr ''seq'', PInt sequence),
      (PStr ''generation_after'', PInt generation), (PStr ''calibration_fingerprint'', PInt fingerprint),
      (PStr ''rows_after'', PInt rows), (PStr ''arrays'', PList (map (\<lambda>na. PDict (array_spec na)) arrays))]"

definition delta_append_delta :: "'i index_ops \<Rightarrow> segment_store \<Rightarrow> 'i \<Rightarrow> u64 list \<Rightarrow> u64 list \<Rightarrow> int \<Rightarrow> delta_write io" where
  "delta_append_delta ops st index upsert_stable_ids removed_stable_ids generation =
     io_bind (delta_read_manifest st) (\<lambda>manifest.
     io_bind (io_lift (py_int (pget manifest ''next_seq'' (PInt 0)))) (\<lambda>sequence.
     io_bind (io_lift (delta_arrays ops index upsert_stable_ids removed_stable_ids)) (\<lambda>arrays.
     io_bind (io_lift (call_fingerprint ops index)) (\<lambda>fingerprint.
     io_bind (ss_append delta_kind st manifest sequence
         (PDict (delta_header sequence generation fingerprint (ix_len ops index) arrays)) (concat (map (\<lambda>(_, a). nd_data a) arrays))
         [(PStr ''upsert_rows'', PInt (int (length upsert_stable_ids))),
          (PStr ''removed_rows'', PInt (int (length removed_stable_ids)))]) (\<lambda>(name, file_bytes).
       io_return \<lparr> dw_file_name = name, dw_file_bytes = file_bytes, dw_kind = ''delta'' \<rparr>)))))"

definition delta_has_pending_segments :: "segment_store \<Rightarrow> obj option \<Rightarrow> bool io" where
  "delta_has_pending_segments st manifest =
     io_bind (case manifest of None \<Rightarrow> delta_read_manifest_optional st | Some m \<Rightarrow> io_return (Some m)) (\<lambda>om.
       io_return (case om of None \<Rightarrow> False | Some m \<Rightarrow> m \<noteq> [] \<and> py_truthy (pget m ''deltas'' PNone)))"

definition delta_should_compact :: "segment_store \<Rightarrow> rat \<Rightarrow> int \<Rightarrow> bool io" where
  "delta_should_compact st max_delta_row_fraction max_delta_segments =
     io_bind (delta_read_manifest_optional st) (\<lambda>om. case om of
        None \<Rightarrow> io_return False
      | Some m \<Rightarrow> (if m = [] then io_return False else
          io_bind (io_lift (manifest_deltas m)) (\<lambda>deltas.
            if deltas = [] then io_return False
            else if max_delta_segments \<le> int (length deltas) then io_return True
            else
              io_bind (io_lift (res_mapM (\<lambda>d.
                  res_bind (py_int (pget d ''upsert_rows'' (PInt 0))) (\<lambda>u.
                  res_bind (py_int (pget d ''removed_rows'' (PInt 0))) (\<lambda>x. Inr (u + x)))) deltas)) (\<lambda>sizes.
              io_bind (io_lift (res_bind (as_dict (pget m ''base'' (PDict []))) (\<lambda>b.
                  py_int (pget b ''rows'' (PInt 1))))) (\<lambda>base.
                io_lift (reaches_fraction (sum_list sizes) (max base 1) max_delta_row_fraction))))))"

subsection \<open>Reading a segment\<close>

record delta_payload =
  dp_header :: "obj option"
  dp_arrays :: "(string, ndarray) dict"

definition item_of :: "pyval \<Rightarrow> string \<Rightarrow> pyval res" where
  "item_of v key = (case v of PDict d \<Rightarrow> pitem d key | _ \<Rightarrow> Inl (TypeError ''indices must be integers''))"

fun read_arrays :: "pyval list \<Rightarrow> bytes \<Rightarrow> (string, ndarray) dict \<Rightarrow> (string, ndarray) dict res" where
  "read_arrays [] rest arrays = Inr arrays"
| "read_arrays (spec # specs) rest arrays =
     res_bind (item_of spec ''nbytes'') (\<lambda>nb.
     res_bind (py_int nb) (\<lambda>nbytes.
       if nbytes < 0 \<or> int (length rest) < nbytes
       then res_bind (item_of spec ''name'') (\<lambda>_. Inl (RuntimeError ''TurboVec delta array is truncated''))
       else let blob = take (nat nbytes) rest in
         res_bind (item_of spec ''sha256'') (\<lambda>digest.
           if digest \<noteq> PStr (sha256_hex blob)
           then res_bind (item_of spec ''name'') (\<lambda>_. Inl (RuntimeError ''TurboVec delta array failed checksum''))
           else
             res_bind (item_of spec ''dtype'') (\<lambda>dt.
             res_bind (from_buffer blob dt) (\<lambda>(dtype, count).
             res_bind (item_of spec ''shape'') (\<lambda>sh.
             res_bind (py_iter sh) (\<lambda>sizes.
             res_bind (res_mapM py_int sizes) (\<lambda>shape.
             res_bind (reshape count shape) (\<lambda>shape'.
             res_bind (item_of spec ''name'') (\<lambda>name.
               read_arrays specs (drop (nat nbytes) rest)
                 (AList.update (py_str name) \<lparr> nd_dtype = dtype, nd_shape = shape', nd_data = blob \<rparr> arrays))))))))))) "

definition delta_required :: "string list" where
  "delta_required = [''upsert_stable_ids'', ''upsert_codes'', ''upsert_scales'', ''removed_stable_ids'']"

text \<open>The result dict puts the arrays after the header, so an array of that name would hide it.\<close>

definition parse_delta_segment :: "bytes \<Rightarrow> delta_payload res" where
  "parse_delta_segment data =
     res_bind (read_segment_header delta_kind data) (\<lambda>(header, rest).
     res_bind (pitem header ''arrays'') (\<lambda>av.
     res_bind (py_iter av) (\<lambda>specs.
     res_bind (read_arrays specs rest []) (\<lambda>arrays.
       if list_all (\<lambda>r. r \<in> set (dkeys arrays)) delta_required
       then Inr \<lparr> dp_header = (if ''header'' \<in> set (dkeys arrays) then None else Some header), dp_arrays = arrays \<rparr>
       else Inl (RuntimeError ''TurboVec delta segment is missing arrays'')))))"

definition read_delta_segment :: "path \<Rightarrow> delta_payload io" where
  "read_delta_segment p = io_bind (read_bytes p) (\<lambda>data. io_lift (parse_delta_segment data))"

subsection \<open>Replay\<close>

record 'i delta_replay =
  dr_index :: 'i
  dr_upserts :: int
  dr_removes :: int

definition payload_array :: "delta_payload \<Rightarrow> string \<Rightarrow> ndarray res" where
  "payload_array p name = (case map_of (dp_arrays p) name of None \<Rightarrow> Inl (KeyError name) | Some a \<Rightarrow> Inr a)"

definition replay_removes :: "'i index_ops \<Rightarrow> delta_payload \<Rightarrow> 'i delta_replay \<Rightarrow> 'i delta_replay res" where
  "replay_removes ops p r =
     res_bind (payload_array p ''removed_stable_ids'') (\<lambda>removed_ids.
     res_bind (shape0 removed_ids) (\<lambda>n.
       if n = 0 then Inr r
       else res_bind (ix_remove ops (dr_index r) removed_ids) (\<lambda>(removed, index).
         if removed \<noteq> n then Inl (RuntimeError ''TurboVec delta replay rejected: removed-id count mismatch'')
         else Inr (r \<lparr> dr_index := index, dr_removes := dr_removes r + removed \<rparr>))))"

definition replay_upserts :: "'i index_ops \<Rightarrow> delta_payload \<Rightarrow> 'i delta_replay \<Rightarrow> 'i delta_replay res" where
  "replay_upserts ops p r =
     res_bind (payload_array p ''upsert_stable_ids'') (\<lambda>upsert_ids.
     res_bind (shape0 upsert_ids) (\<lambda>n.
       if n = 0 then Inr r
       else
         res_bind (payload_array p ''upsert_codes'') (\<lambda>codes.
         res_bind (payload_array p ''upsert_scales'') (\<lambda>scales.
         res_bind (ix_add ops (dr_index r) upsert_ids codes scales) (\<lambda>index.
           Inr (r \<lparr> dr_index := index, dr_upserts := dr_upserts r + n \<rparr>))))))"

definition replay_payload :: "'i index_ops \<Rightarrow> delta_payload \<Rightarrow> 'i delta_replay \<Rightarrow> 'i delta_replay res" where
  "replay_payload ops p r = (case dp_header p of
       None \<Rightarrow> Inl (AttributeError ''get'')
     | Some header \<Rightarrow>
         res_bind (py_int (pget header ''calibration_fingerprint'' (PInt (- 1)))) (\<lambda>recorded.
         res_bind (call_fingerprint ops (dr_index r)) (\<lambda>actual.
         res_bind (raise_if (recorded \<noteq> actual) (RuntimeError ''TurboVec delta replay rejected: segment calibration fingerprint mismatch'')) (\<lambda>_.
         res_bind (replay_removes ops p r) (\<lambda>r1.
         res_bind (replay_upserts ops p r1) (\<lambda>r2.
         res_bind (py_int (pget header ''rows_after'' (PInt (- 1)))) (\<lambda>expected_rows.
         res_bind (raise_if (0 \<le> expected_rows \<and> ix_len ops (dr_index r2) \<noteq> expected_rows)
            (RuntimeError ''TurboVec delta replay rejected: row count mismatch'')) (\<lambda>_.
           Inr r2))))))))"

definition load_delta :: "segment_store \<Rightarrow> obj \<Rightarrow> delta_payload io" where
  "load_delta st entry = io_bind (delta_validated_segment_path st entry) read_delta_segment"

fun replay_deltas :: "'i index_ops \<Rightarrow> segment_store \<Rightarrow> int \<Rightarrow> obj list \<Rightarrow> 'i delta_replay \<Rightarrow> 'i delta_replay io" where
  "replay_deltas ops st previous_seq [] r = io_return r"
| "replay_deltas ops st previous_seq (delta # ds) r =
     io_bind (io_lift (py_int (pget delta ''seq'' (PInt (- 1))))) (\<lambda>sequence.
       if sequence \<le> previous_seq
       then io_lift (Inl (RuntimeError ''TurboVec delta manifest has out-of-order segments''))
       else io_bind (load_delta st delta) (\<lambda>p.
            io_bind (io_lift (replay_payload ops p r)) (\<lambda>r'. replay_deltas ops st sequence ds r')))"

definition check_base_fingerprint :: "'i index_ops \<Rightarrow> 'i \<Rightarrow> obj \<Rightarrow> unit res" where
  "check_base_fingerprint ops index manifest =
     res_bind (as_dict (pget manifest ''base'' (PDict []))) (\<lambda>base_entry.
     res_bind (py_int (pget base_entry ''calibration_fingerprint'' (PInt 0))) (\<lambda>recorded.
       raise_if (recorded \<noteq> 0 \<and> ix_has ops index ''calibration_fingerprint'' \<and> ix_fingerprint ops index \<noteq> recorded)
         (RuntimeError ''TurboVec delta replay rejected: base calibration fingerprint mismatch'')))"

definition delta_replay_onto :: "'i index_ops \<Rightarrow> segment_store \<Rightarrow> 'i \<Rightarrow> obj option \<Rightarrow> ('i \<times> int \<times> int \<times> int) io" where
  "delta_replay_onto ops st index manifest =
     io_bind (or_read delta_kind st manifest) (\<lambda>m.
     io_bind (io_lift (check_base_fingerprint ops index m)) (\<lambda>_.
     io_bind (io_lift (manifest_deltas m)) (\<lambda>deltas.
     io_bind (replay_deltas ops st (- 1) deltas \<lparr> dr_index = index, dr_upserts = 0, dr_removes = 0 \<rparr>) (\<lambda>r.
       io_return (dr_index r, int (length deltas), dr_upserts r, dr_removes r)))))"

definition delta_validate_base_checksum :: "segment_store \<Rightarrow> obj option \<Rightarrow> unit io" where
  "delta_validate_base_checksum st manifest = ss_validate_base_checksum delta_kind st manifest"

definition delta_storage_file_bytes :: "segment_store \<Rightarrow> obj option \<Rightarrow> (pyfloat \<times> int \<times> int \<times> int) io" where
  "delta_storage_file_bytes st manifest = ss_storage_file_bytes delta_kind st manifest"

definition delta_remove_all :: "segment_store \<Rightarrow> unit io" where
  "delta_remove_all st = ss_remove_all delta_kind st"

definition delta_current_manifest :: "segment_store \<Rightarrow> obj option io" where
  "delta_current_manifest st = delta_read_manifest_optional st"

definition delta_restore_manifest :: "segment_store \<Rightarrow> obj \<Rightarrow> unit io" where
  "delta_restore_manifest st m = ss_restore_manifest delta_kind st m"

end
