(* ===== verification/DeltaLaws.thy ===== *)
theory DeltaLaws
  imports DeltaStore
begin

text \<open>
  The laws of the vector delta log: a written segment parses to the arrays that were written, and
  replaying the log onto the base index gives the rows of the index that journalled it, under the
  documented behaviour of the native index stated in \<open>index_laws\<close>.
\<close>

section \<open>Segments\<close>

lemma delta_kind_ok: "kind_ok delta_kind"
  by code_simp

interpretation dl: segment_log delta_kind parse_delta_segment
  by unfold_locales (rule delta_kind_ok)

lemma load_delta_eq: "load_delta = load_with delta_kind parse_delta_segment"
  by (rule ext)+ (simp add: load_delta_def load_with_def delta_validated_segment_path_def read_delta_segment_def [abs_def])

definition wf_array :: "ndarray \<Rightarrow> bool" where
  "wf_array a \<longleftrightarrow> list_all (\<lambda>n. 0 \<le> n) (nd_shape a)
     \<and> (\<exists>n. itemsize (nd_dtype a) = Some n \<and> 0 < n \<and> int (length (nd_data a)) = n * prod_list (nd_shape a))"

lemma reshape_exact: "list_all (\<lambda>n. 0 \<le> n) shape \<Longrightarrow> reshape (prod_list shape) shape = Inr shape"
proof -
  assume "list_all (\<lambda>n. 0 \<le> n) shape"
  then have "filter (\<lambda>n. 0 \<le> n) shape = shape" "filter (\<lambda>n. n < 0) shape = []" by (auto simp: list_all_iff filter_id_conv filter_empty_conv)
  then show ?thesis by (simp add: reshape_def Let_def)
qed

lemma res_mapM_py_int: "res_mapM py_int (map PInt ns) = Inr ns"
  by (induction ns) simp_all

lemma spec_fields:
  fixes a :: ndarray and name :: string
  defines "v \<equiv> PDict (sorted_obj (array_spec (name, a)))"
  shows "item_of v ''nbytes'' = Inr (PInt (int (length (nd_data a))))" "item_of v ''sha256'' = Inr (PStr (sha256_hex (nd_data a)))"
    "item_of v ''dtype'' = Inr (PStr (nd_dtype a))" "item_of v ''shape'' = Inr (PList (map PInt (nd_shape a)))" "item_of v ''name'' = Inr (PStr name)"
proof -
  have "dict_ok (array_spec (name, a))" by (simp add: array_spec_def)
  note get = map_of_sorted_obj [OF this]
  have "map key_sorted (map PInt ns) = map PInt ns" for ns by simp
  then show "item_of v ''nbytes'' = Inr (PInt (int (length (nd_data a))))" "item_of v ''sha256'' = Inr (PStr (sha256_hex (nd_data a)))"
    "item_of v ''dtype'' = Inr (PStr (nd_dtype a))" "item_of v ''shape'' = Inr (PList (map PInt (nd_shape a)))" "item_of v ''name'' = Inr (PStr name)"
    unfolding v_def item_of_def pyval.case pitem_def get by (simp_all add: array_spec_def comp_def)
qed

lemma read_arrays_written:
  assumes "list_all (\<lambda>(_, a). wf_array a) arrays" and "distinct (map fst arrays)" and "fst ` set arrays \<inter> fst ` set acc = {}"
  shows "read_arrays (map (\<lambda>na. PDict (sorted_obj (array_spec na))) arrays) (concat (map (\<lambda>(_, a). nd_data a) arrays) @ rest) acc = Inr (acc @ arrays)"
  using assms
proof (induction arrays arbitrary: acc)
  case (Cons na arrays)
  obtain name a where na: "na = (name, a)" by (cases na)
  from Cons.prems(1) obtain n where wf: "list_all (\<lambda>n. 0 \<le> n) (nd_shape a)" "itemsize (nd_dtype a) = Some n" "0 < n"
    "int (length (nd_data a)) = n * prod_list (nd_shape a)" by (auto simp: na wf_array_def)
  have buf: "from_buffer (nd_data a) (PStr (nd_dtype a)) = Inr (nd_dtype a, prod_list (nd_shape a))"
    using wf(2-4) by (simp add: from_buffer_def)
  have a: "\<lparr> nd_dtype = nd_dtype a, nd_shape = nd_shape a, nd_data = nd_data a \<rparr> = a" by simp
  have "AList.update name a acc = acc @ [(name, a)]" using Cons.prems(3) by (intro update_new) (auto simp: na)
  moreover have "read_arrays (map (\<lambda>na. PDict (sorted_obj (array_spec na))) arrays) (concat (map (\<lambda>(_, a). nd_data a) arrays) @ rest) (acc @ [(name, a)])
      = Inr ((acc @ [(name, a)]) @ arrays)" using Cons.prems by (intro Cons.IH) (auto simp: na)
  ultimately show ?case
    by (simp add: na spec_fields buf res_mapM_py_int reshape_exact [OF wf(1)] Let_def a)
qed simp

definition arrays_ok :: "(string \<times> ndarray) list \<Rightarrow> bool" where
  "arrays_ok arrays \<longleftrightarrow> map fst arrays = delta_required \<and> list_all (\<lambda>(_, a). wf_array a) arrays"

lemma delta_header_ok: "json_ok (PDict (delta_header q g f r arrays))"
proof -
  have "json_ok (PDict (array_spec na))" for na
    by (cases na) (simp add: array_spec_def list_all_iff)
  then show ?thesis by (simp add: delta_header_def list_all_iff)
qed

lemma parse_written_delta:
  assumes "arrays_ok arrays" and "json_dumps sorted_style (PDict (delta_header q g f r arrays)) = Inr hj" and "int (length (utf8_encode hj)) < 2 ^ 64"
  shows "parse_delta_segment (segment_data delta_kind hj (concat (map (\<lambda>(_, a). nd_data a) arrays))) =
    Inr \<lparr> dp_header = Some (sorted_obj (delta_header q g f r arrays)), dp_arrays = arrays \<rparr>"
proof -
  let ?h = "delta_header q g f r arrays" and ?payload = "concat (map (\<lambda>(_, a). nd_data a) arrays)"
  have ok: "dict_ok ?h" by (simp add: delta_header_def)
  have head: "read_segment_header delta_kind (segment_data delta_kind hj ?payload) = Inr (sorted_obj ?h, ?payload)"
    using assms(2, 3) delta_header_ok by (intro read_header_written) (simp_all add: delta_header_def pget_def)
  have "map_of (sorted_obj ?h) (PStr ''arrays'') = Some (PList (map (\<lambda>na. PDict (sorted_obj (array_spec na))) arrays))"
    unfolding map_of_sorted_obj [OF ok] by (simp add: delta_header_def comp_def sorted_obj_def)
  moreover have "read_arrays (map (\<lambda>na. PDict (sorted_obj (array_spec na))) arrays) ?payload [] = Inr arrays"
    using read_arrays_written [of arrays "[]" "[]"] assms(1) by (simp add: arrays_ok_def delta_required_def)
  moreover have "set (map fst arrays) = set delta_required" using assms(1) by (simp add: arrays_ok_def)
  ultimately show ?thesis
    by (simp add: parse_delta_segment_def head pitem_def list_all_iff delta_required_def)
qed

section \<open>Appending\<close>

abbreviation delta_log :: "segment_store \<Rightarrow> fs \<Rightarrow> obj \<Rightarrow> delta_payload list \<Rightarrow> bool" where
  "delta_log \<equiv> log_ok delta_kind parse_delta_segment"

definition delta_header_fits :: "obj \<Rightarrow> bool" where
  "delta_header_fits h = (case json_dumps sorted_style (PDict h) of Inr t \<Rightarrow> int (length (utf8_encode t)) < 2 ^ 64 | Inl _ \<Rightarrow> False)"

lemma appended_base: "dict_ok m \<Longrightarrow> pget (sorted_obj (appended_manifest m n e)) ''base'' (PDict []) = key_sorted (pget m ''base'' (PDict []))"
proof -
  assume "dict_ok m"
  then have "dict_ok (appended_manifest m n e)" by (simp add: appended_manifest_def split: pyval.split)
  from pget_sorted_obj [OF this, of "''base''" "PDict []"] show ?thesis by (simp add: appended_manifest_def pget_def split: pyval.split)
qed

lemma delta_append_law:
  fixes g :: int
  assumes log: "delta_log st s m ps" and seq: "pget m ''next_seq'' (PInt 0) = PInt n"
    and arrays: "delta_arrays ops i ups dels = Inr arrays" "arrays_ok arrays" and fp: "call_fingerprint ops i = Inr f"
    and fits: "delta_header_fits (delta_header n g f (ix_len ops i) arrays)"
  defines "p \<equiv> \<lparr> dp_header = Some (sorted_obj (delta_header n g f (ix_len ops i) arrays)), dp_arrays = arrays \<rparr>"
  obtains w m' where "io_result (delta_append_delta ops st i ups dels g) s = Inr w"
    "delta_log st (io_state (delta_append_delta ops st i ups dels g) s) m' (ps @ [p])"
    "pget m' ''base'' (PDict []) = key_sorted (pget m ''base'' (PDict []))"
    "\<And>s'. crash s (io_ops (delta_append_delta ops st i ups dels g) s) s' \<Longrightarrow> delta_log st s' m ps \<or> delta_log st s' m' (ps @ [p])"
proof -
  let ?h = "PDict (delta_header n g f (ix_len ops i) arrays)" and ?payload = "concat (map (\<lambda>(_, a). nd_data a) arrays)"
  let ?extra = "[(PStr ''upsert_rows'', PInt (int (length ups))), (PStr ''removed_rows'', PInt (int (length dels)))]"
  let ?app = "ss_append delta_kind st m n ?h ?payload ?extra"
  from fits obtain hj where hj: "json_dumps sorted_style ?h = Inr hj" "int (length (utf8_encode hj)) < 2 ^ 64"
    by (auto simp: delta_header_fits_def split: sum.splits)
  have parse: "parse_delta_segment (segment_data delta_kind hj ?payload) = Inr p"
    unfolding p_def by (rule parse_written_delta [OF arrays(2) hj])
  note law = dl.append_log [OF log seq hj parse, of ?extra]
  from log have read: "io_result (delta_read_manifest st) s = Inr m" "io_ops (delta_read_manifest st) s = []"
    by (simp_all add: delta_read_manifest_def log_ok_def)
  have eq: "io_result (delta_append_delta ops st i ups dels g) s =
      res_bind (io_result ?app s) (\<lambda>(name, file_bytes). Inr \<lparr> dw_file_name = name, dw_file_bytes = file_bytes, dw_kind = ''delta'' \<rparr>)"
    "io_ops (delta_append_delta ops st i ups dels g) s = io_ops ?app s"
    unfolding delta_append_delta_def io_step [OF read] seq py_int.simps arrays(1) fp io_bind_lift
    by (simp_all add: case_prod_unfold split: sum.split)
  have "dict_ok m" using log unfolding log_ok_def manifest_lists_def by auto
  note base = appended_base [OF this]
  show thesis
  proof (rule that)
    show "io_result (delta_append_delta ops st i ups dels g) s =
        Inr \<lparr> dw_file_name = segment_name delta_kind n, dw_file_bytes = int (length (segment_data delta_kind hj ?payload)), dw_kind = ''delta'' \<rparr>"
      unfolding eq(1) using law(1) by simp
    show "delta_log st (io_state (delta_append_delta ops st i ups dels g) s)
        (sorted_obj (appended_manifest m n (segment_entry delta_kind n (segment_data delta_kind hj ?payload) ?extra))) (ps @ [p])"
      unfolding io_state_def eq(2) using law(2) by (simp add: io_state_def)
    fix s' assume "crash s (io_ops (delta_append_delta ops st i ups dels g) s) s'"
    then show "delta_log st s' m ps \<or> delta_log st s'
        (sorted_obj (appended_manifest m n (segment_entry delta_kind n (segment_data delta_kind hj ?payload) ?extra))) (ps @ [p])"
      unfolding eq(2) by (intro law(3)) simp_all
  qed (rule base)
qed

section \<open>The index and its rows\<close>

text \<open>
  A row of the index is an id with its code bytes and the four bytes of its scale.  The laws are the
  documented behaviour of the native index (\<open>IdMapIndex\<close>): its length counts the rows; once its
  dimension is committed, which \<open>bytes_per_vector\<close> tells, exporting returns the stored bytes in the
  order of the ids, removing counts and drops the ids it has, and adding encoded rows of finite scale
  overwrites the ids it has and appends the others; and neither changes the calibration.
\<close>

type_synonym rows = "u64 \<rightharpoonup> bytes \<times> bytes"

definition code_array :: "nat \<Rightarrow> (bytes \<times> bytes) list \<Rightarrow> ndarray" where
  "code_array w cs = \<lparr> nd_dtype = ''uint8'', nd_shape = [int (length cs), int w], nd_data = concat (map fst cs) \<rparr>"

definition scale_array :: "(bytes \<times> bytes) list \<Rightarrow> ndarray" where
  "scale_array cs = \<lparr> nd_dtype = ''float32'', nd_shape = [int (length cs)], nd_data = concat (map snd cs) \<rparr>"

definition row_wide :: "nat \<Rightarrow> bytes \<times> bytes \<Rightarrow> bool" where
  "row_wide w c \<longleftrightarrow> length (fst c) = w \<and> length (snd c) = 4"

text \<open>A little-endian binary32 number is finite unless its exponent bits are all set.\<close>

definition finite_scale :: "bytes \<Rightarrow> bool" where
  "finite_scale s = (case s of [_, _, c, d] \<Rightarrow> \<not> (128 \<le> code c \<and> code d mod 128 = 127) | _ \<Rightarrow> False)"

definition row_finite :: "bytes \<times> bytes \<Rightarrow> bool" where
  "row_finite c \<longleftrightarrow> finite_scale (snd c)"

definition committed :: "'i index_ops \<Rightarrow> nat \<Rightarrow> 'i \<Rightarrow> bool" where
  "committed ops w i \<longleftrightarrow> ix_bytes_per_vector ops i = Some (int w)"

text \<open>What an operation keeps: the committed dimension and the calibration.\<close>

definition same_space :: "'i index_ops \<Rightarrow> nat \<Rightarrow> 'i \<Rightarrow> 'i \<Rightarrow> bool" where
  "same_space ops w i i' \<longleftrightarrow> committed ops w i' \<and> ix_fingerprint ops i' = ix_fingerprint ops i"

definition index_laws :: "'i index_ops \<Rightarrow> ('i \<Rightarrow> rows) \<Rightarrow> nat \<Rightarrow> bool" where
  "index_laws ops rows w \<longleftrightarrow>
     (\<forall>i. ix_len ops i = int (card (dom (rows i))) \<and> ix_has ops i ''calibration_fingerprint'')
     \<and> (\<forall>i. committed ops w i \<longrightarrow> Ball (ran (rows i)) (row_wide w)
        \<and> (\<forall>ids. set ids \<subseteq> dom (rows i) \<longrightarrow>
             ix_export ops i ids = Inr (code_array w (map (the \<circ> rows i) ids), scale_array (map (the \<circ> rows i) ids)))
        \<and> (\<forall>ids. distinct ids \<longrightarrow> (\<exists>i'. ix_remove ops i (u64_array ids) = Inr (int (card (set ids \<inter> dom (rows i))), i')
             \<and> rows i' = rows i |` (- set ids) \<and> same_space ops w i i'))
        \<and> (\<forall>ids cs. distinct ids \<longrightarrow> length cs = length ids \<longrightarrow> list_all (row_wide w) cs \<longrightarrow> list_all row_finite cs \<longrightarrow>
             (\<exists>i'. ix_add ops i (u64_array ids) (code_array w cs) (scale_array cs) = Inr i'
                \<and> rows i' = rows i ++ map_of (zip ids cs) \<and> same_space ops w i i')))"

text \<open>
  What a mutation batch does to the rows, and the segment that records it.  An upserted id may be new,
  present, or removed by the same batch; its new row has a finite scale.
\<close>

definition batch_rows :: "rows \<Rightarrow> u64 list \<Rightarrow> u64 list \<Rightarrow> rows \<Rightarrow> bool" where
  "batch_rows R dels ups R' \<longleftrightarrow> distinct dels \<and> set dels \<subseteq> dom R \<and> distinct ups
     \<and> (\<forall>x. x \<in> set ups \<longrightarrow> (\<exists>c. R' x = Some c \<and> row_finite c))
     \<and> (\<forall>x. x \<notin> set ups \<longrightarrow> R' x = (if x \<in> set dels then None else R x))"

lemma batch_rows_upserts: "batch_rows R dels ups R' \<Longrightarrow> set ups \<subseteq> dom R'"
  by (auto simp: batch_rows_def)

definition delta_fits :: "nat \<Rightarrow> int \<Rightarrow> delta_payload \<Rightarrow> rows \<Rightarrow> u64 list \<Rightarrow> u64 list \<Rightarrow> rows \<Rightarrow> bool" where
  "delta_fits w f p R dels ups R' \<longleftrightarrow> batch_rows R dels ups R' \<and> Ball (ran R') (row_wide w)
     \<and> (\<exists>h. dp_header p = Some h \<and> pget h ''calibration_fingerprint'' (PInt (- 1)) = PInt f
          \<and> pget h ''rows_after'' (PInt (- 1)) = PInt (int (card (dom R'))))
     \<and> map_of (dp_arrays p) ''upsert_stable_ids'' = Some (u64_array ups)
     \<and> map_of (dp_arrays p) ''removed_stable_ids'' = Some (u64_array dels)
     \<and> (ups \<noteq> [] \<longrightarrow> map_of (dp_arrays p) ''upsert_codes'' = Some (code_array w (map (the \<circ> R') ups))
         \<and> map_of (dp_arrays p) ''upsert_scales'' = Some (scale_array (map (the \<circ> R') ups)))"

fun delta_log_fits :: "nat \<Rightarrow> int \<Rightarrow> delta_payload list \<Rightarrow> (u64 list \<times> u64 list \<times> rows) list \<Rightarrow> rows \<Rightarrow> bool" where
  "delta_log_fits w f [] [] R = True"
| "delta_log_fits w f (p # ps) ((dels, ups, R') # bs) R = (delta_fits w f p R dels ups R' \<and> delta_log_fits w f ps bs R')"
| "delta_log_fits w f _ _ R = False"

fun last_rows :: "(u64 list \<times> u64 list \<times> rows) list \<Rightarrow> rows \<Rightarrow> rows" where
  "last_rows [] R = R"
| "last_rows ((_, _, R') # bs) R = last_rows bs R'"

lemma index_lawsD:
  assumes "index_laws ops rows w"
  shows "ix_len ops i = int (card (dom (rows i)))" "ix_has ops i ''calibration_fingerprint''"
    "committed ops w i \<Longrightarrow> Ball (ran (rows i)) (row_wide w)"
    "committed ops w i \<Longrightarrow> set ids \<subseteq> dom (rows i) \<Longrightarrow>
       ix_export ops i ids = Inr (code_array w (map (the \<circ> rows i) ids), scale_array (map (the \<circ> rows i) ids))"
    "committed ops w i \<Longrightarrow> distinct ids \<Longrightarrow> \<exists>i'. ix_remove ops i (u64_array ids) = Inr (int (card (set ids \<inter> dom (rows i))), i')
       \<and> rows i' = rows i |` (- set ids) \<and> same_space ops w i i'"
    "committed ops w i \<Longrightarrow> distinct ids \<Longrightarrow> length cs = length ids \<Longrightarrow> list_all (row_wide w) cs \<Longrightarrow> list_all row_finite cs \<Longrightarrow>
       \<exists>i'. ix_add ops i (u64_array ids) (code_array w cs) (scale_array cs) = Inr i'
         \<and> rows i' = rows i ++ map_of (zip ids cs) \<and> same_space ops w i i'"
  using assms unfolding index_laws_def by simp_all

lemma batch_rows_eq:
  assumes "batch_rows R dels ups R'"
  shows "R |` (- set dels) ++ map_of (zip ups (map (the \<circ> R') ups)) = R'"
proof
  fix x
  have z: "zip ups (map (the \<circ> R') ups) = map (\<lambda>u. (u, the (R' u))) ups" by (simp add: zip_map2 zip_same_conv_map)
  have "map_of (map (\<lambda>u. (u, the (R' u))) ups) x = (if x \<in> set ups then Some (the (R' x)) else None)"
    by (induction ups) auto
  then show "(R |` (- set dels) ++ map_of (zip ups (map (the \<circ> R') ups))) x = R' x"
    using assms unfolding z batch_rows_def by (cases "x \<in> set ups") (fastforce simp: map_add_def restrict_map_def)+
qed

lemma replay_payload_rows:
  assumes laws: "index_laws ops rows w" and fits: "delta_fits w f p R dels ups R'"
    and r: "rows (dr_index r) = R" "ix_fingerprint ops (dr_index r) = f" "committed ops w (dr_index r)"
  shows "\<exists>r'. replay_payload ops p r = Inr r' \<and> rows (dr_index r') = R' \<and> ix_fingerprint ops (dr_index r') = f \<and> committed ops w (dr_index r')
    \<and> dr_upserts r' = dr_upserts r + int (length ups) \<and> dr_removes r' = dr_removes r + int (length dels)"
proof -
  from fits obtain h where h: "dp_header p = Some h" "pget h ''calibration_fingerprint'' (PInt (- 1)) = PInt f"
    "pget h ''rows_after'' (PInt (- 1)) = PInt (int (card (dom R')))" unfolding delta_fits_def by blast
  from fits have dels: "distinct dels" "set dels \<subseteq> dom R" "map_of (dp_arrays p) ''removed_stable_ids'' = Some (u64_array dels)"
    and ups: "distinct ups" "\<forall>x. x \<in> set ups \<longrightarrow> (\<exists>c. R' x = Some c \<and> row_finite c)" "Ball (ran R') (row_wide w)"
      "map_of (dp_arrays p) ''upsert_stable_ids'' = Some (u64_array ups)"
    and codes: "ups \<noteq> [] \<Longrightarrow> map_of (dp_arrays p) ''upsert_codes'' = Some (code_array w (map (the \<circ> R') ups))"
      "ups \<noteq> [] \<Longrightarrow> map_of (dp_arrays p) ''upsert_scales'' = Some (scale_array (map (the \<circ> R') ups))"
    unfolding delta_fits_def batch_rows_def by simp_all
  have R': "R |` (- set dels) ++ map_of (zip ups (map (the \<circ> R') ups)) = R'" using fits batch_rows_eq unfolding delta_fits_def by blast
  have s0: "shape0 (u64_array ids) = Inr (int (length ids))" for ids by (simp add: shape0_def u64_array_def)
  have "\<exists>r1. replay_removes ops p r = Inr r1 \<and> rows (dr_index r1) = R |` (- set dels) \<and> ix_fingerprint ops (dr_index r1) = f \<and> committed ops w (dr_index r1)
      \<and> dr_upserts r1 = dr_upserts r \<and> dr_removes r1 = dr_removes r + int (length dels)"
  proof (cases "dels = []")
    case True
    with dels(3) r show ?thesis by (simp add: replay_removes_def payload_array_def s0 restrict_map_def)
  next
    case False
    from index_lawsD(5) [OF laws r(3) dels(1), unfolded r same_space_def]
    obtain i' where i': "ix_remove ops (dr_index r) (u64_array dels) = Inr (int (card (set dels \<inter> dom R)), i')"
      "rows i' = R |` (- set dels)" "ix_fingerprint ops i' = f" "committed ops w i'" by blast
    have "card (set dels \<inter> dom R) = length dels" using dels(1, 2) distinct_card [of dels] by (simp add: Int_absorb2)
    with False i' dels(3) show ?thesis by (simp add: replay_removes_def payload_array_def s0)
  qed
  then obtain r1 where r1: "replay_removes ops p r = Inr r1" "rows (dr_index r1) = R |` (- set dels)" "ix_fingerprint ops (dr_index r1) = f"
    "dr_upserts r1 = dr_upserts r" "dr_removes r1 = dr_removes r + int (length dels)" "committed ops w (dr_index r1)" by blast
  have "\<exists>r2. replay_upserts ops p r1 = Inr r2 \<and> rows (dr_index r2) = R' \<and> ix_fingerprint ops (dr_index r2) = f \<and> committed ops w (dr_index r2)
      \<and> dr_upserts r2 = dr_upserts r1 + int (length ups) \<and> dr_removes r2 = dr_removes r1"
  proof (cases "ups = []")
    case True
    have "rows (dr_index r1) = R'" unfolding r1(2) using R' True by simp
    with True ups(4) r1(3, 6) show ?thesis by (simp add: replay_upserts_def payload_array_def s0)
  next
    case False
    let ?cs = "map (the \<circ> R') ups"
    have wide: "list_all (row_wide w) ?cs" using ups(2, 3) by (force simp: list_all_iff intro: ranI)
    have "list_all row_finite ?cs" using ups(2) by (force simp: list_all_iff)
    from index_lawsD(6) [OF laws r1(6) ups(1) _ wide this, unfolded r1(2, 3) same_space_def] obtain i' where
      i': "ix_add ops (dr_index r1) (u64_array ups) (code_array w ?cs) (scale_array ?cs) = Inr i'"
        "rows i' = R |` (- set dels) ++ map_of (zip ups ?cs)" "ix_fingerprint ops i' = f" "committed ops w i'" by auto
    have "rows i' = R'" unfolding i'(2) by (rule R')
    then show ?thesis using False i'(1, 3, 4) codes ups(4) by (simp add: replay_upserts_def payload_array_def s0)
  qed
  then obtain r2 where r2: "replay_upserts ops p r1 = Inr r2" "rows (dr_index r2) = R'" "ix_fingerprint ops (dr_index r2) = f"
    "dr_upserts r2 = dr_upserts r1 + int (length ups)" "dr_removes r2 = dr_removes r1" "committed ops w (dr_index r2)" by blast
  have len: "ix_len ops (dr_index r2) = int (card (dom R'))" "call_fingerprint ops (dr_index r) = Inr f"
    using index_lawsD(1, 2) [OF laws] r2(2) r(2) by (simp_all add: call_fingerprint_def)
  then have "replay_payload ops p r = Inr r2"
    by (simp add: replay_payload_def h r1(1) r2(1) raise_if_def)
  then show ?thesis using r1 r2 by simp
qed

lemma replay_payloads_rows:
  assumes "index_laws ops rows w"
  shows "delta_log_fits w f ps bs (rows (dr_index r)) \<Longrightarrow> ix_fingerprint ops (dr_index r) = f \<Longrightarrow> committed ops w (dr_index r) \<Longrightarrow>
    \<exists>r'. res_fold (replay_payload ops) ps r = Inr r' \<and> rows (dr_index r') = last_rows bs (rows (dr_index r)) \<and> ix_fingerprint ops (dr_index r') = f
      \<and> dr_upserts r' = dr_upserts r + sum_list (map (\<lambda>(_, ups, _). int (length ups)) bs)
      \<and> dr_removes r' = dr_removes r + sum_list (map (\<lambda>(dels, _, _). int (length dels)) bs)"
proof (induction ps arbitrary: bs r)
  case Nil
  then show ?case by (cases bs) simp_all
next
  case (Cons p ps)
  then obtain dels ups R' bs' where bs: "bs = (dels, ups, R') # bs'" by (cases bs) auto
  with Cons.prems have "delta_fits w f p (rows (dr_index r)) dels ups R'" and rest: "delta_log_fits w f ps bs' R'" by simp_all
  from replay_payload_rows [OF assms this(1) refl Cons.prems(2, 3)] obtain r1 where r1: "replay_payload ops p r = Inr r1" "rows (dr_index r1) = R'"
    "ix_fingerprint ops (dr_index r1) = f" "dr_upserts r1 = dr_upserts r + int (length ups)" "dr_removes r1 = dr_removes r + int (length dels)"
    "committed ops w (dr_index r1)" by blast
  from rest have "delta_log_fits w f ps bs' (rows (dr_index r1))" by (simp add: r1(2))
  from Cons.IH [OF this r1(3, 6)] show ?case by (auto simp: bs r1)
qed

section \<open>Appending and replaying\<close>

lemma concat_length: "(\<And>x. x \<in> set xs \<Longrightarrow> length (f x) = n) \<Longrightarrow> length (concat (map f xs)) = n * length xs"
  by (induction xs) simp_all

lemma batch_arrays:
  fixes dels :: "u64 list"
  assumes laws: "index_laws ops rows w" and "set ups \<subseteq> dom (rows i)" and com: "committed ops w i"
  defines "cs \<equiv> map (the \<circ> rows i) ups"
  defines "arrays \<equiv> [(''upsert_stable_ids'', u64_array ups), (''upsert_codes'', code_array w cs), (''upsert_scales'', scale_array cs),
    (''removed_stable_ids'', u64_array dels)]"
  shows "delta_arrays ops i ups dels = Inr arrays" and "arrays_ok arrays"
proof -
  show "delta_arrays ops i ups dels = Inr arrays"
    using index_lawsD(4) [OF laws com assms(2)] com
    by (simp add: committed_def delta_arrays_def arrays_def cs_def code_array_def scale_array_def)
  have wide: "row_wide w c" if "c \<in> set cs" for c
    using that assms(2) index_lawsD(3) [OF laws com] unfolding cs_def by (force intro: ranI)
  have "wf_array (u64_array ids)" for ids
    using concat_length [of ids "\<lambda>i. le64 (uint i)" 8] by (simp add: wf_array_def u64_array_def itemsize_def)
  moreover have "wf_array (code_array w cs)" "wf_array (scale_array cs)"
    using concat_length [of cs fst w] concat_length [of cs snd 4] wide
    by (simp_all add: wf_array_def code_array_def scale_array_def itemsize_def row_wide_def)
  ultimately show "arrays_ok arrays" by (simp add: arrays_ok_def arrays_def delta_required_def)
qed

definition base_fingerprint :: "obj \<Rightarrow> int \<Rightarrow> bool" where
  "base_fingerprint m f \<longleftrightarrow> (\<exists>e. pget m ''base'' (PDict []) = PDict e \<and> dict_ok e \<and> pget e ''calibration_fingerprint'' (PInt 0) = PInt f)"

lemma base_fingerprint_sorted:
  assumes "base_fingerprint m f" and "pget m' ''base'' (PDict []) = key_sorted (pget m ''base'' (PDict []))"
  shows "base_fingerprint m' f"
proof -
  from assms(1) obtain e where e: "pget m ''base'' (PDict []) = PDict e" "dict_ok e" "pget e ''calibration_fingerprint'' (PInt 0) = PInt f"
    unfolding base_fingerprint_def by blast
  have "pget (sorted_obj e) ''calibration_fingerprint'' (PInt 0) = PInt f" using pget_sorted_scalar [OF e(2), of "PInt 0"] e(3) by simp
  with assms(2) e(1) sorted_obj_keys [OF e(2)] show ?thesis unfolding base_fingerprint_def by (simp add: key_sorted_PDict del: key_sorted.simps)
qed

lemma delta_replay_loop:
  "replay_loop (load_with delta_kind parse_delta_segment st) (replay_payload ops)
     (RuntimeError ''TurboVec delta manifest has out-of-order segments'') (replay_deltas ops st)"
  unfolding replay_loop_def load_delta_eq [symmetric] by simp

lemma delta_replay_rows:
  assumes laws: "index_laws ops rows w" and log: "delta_log st s m ps" and base: "base_fingerprint m bf" "bf = 0 \<or> bf = f"
    and fp: "ix_fingerprint ops i0 = f" "committed ops w i0" and fits: "delta_log_fits w f ps bs (rows i0)"
  shows "\<exists>i' u d. io_result (delta_replay_onto ops st i0 None) s = Inr (i', int (length ps), u, d) \<and> rows i' = last_rows bs (rows i0)
    \<and> u = sum_list (map (\<lambda>(_, ups, _). int (length ups)) bs) \<and> d = sum_list (map (\<lambda>(dels, _, _). int (length dels)) bs)"
proof -
  let ?r = "\<lparr> dr_index = i0, dr_upserts = 0, dr_removes = 0 \<rparr>"
  obtain es where es: "manifest_deltas m = Inr es" "length es = length ps" "\<And>r. io_result (replay_deltas ops st (- 1) es r) s = res_fold (replay_payload ops) ps r"
    by (rule dl.log_replay [OF log delta_replay_loop]) blast
  have "io_result (ss_read_manifest delta_kind st) s = Inr m" using log by (simp add: log_ok_def)
  moreover have "check_base_fingerprint ops i0 m = Inr ()"
    using base fp by (auto simp: base_fingerprint_def check_base_fingerprint_def as_dict_def raise_if_def)
  moreover obtain r' where "res_fold (replay_payload ops) ps ?r = Inr r'" "rows (dr_index r') = last_rows bs (rows i0)"
      "dr_upserts r' = sum_list (map (\<lambda>(_, ups, _). int (length ups)) bs)" "dr_removes r' = sum_list (map (\<lambda>(dels, _, _). int (length dels)) bs)"
    using replay_payloads_rows [OF laws, of f ps bs ?r] fits fp by auto
  ultimately show ?thesis
    by (simp add: delta_replay_onto_def or_read_def es)
qed

lemma written_delta_fits:
  assumes laws: "index_laws ops rows w" and batch: "batch_rows R dels ups (rows i)" and com: "committed ops w i"
    and "delta_arrays ops i ups dels = Inr arrays"
  shows "delta_fits w f \<lparr> dp_header = Some (sorted_obj (delta_header n g f (ix_len ops i) arrays)), dp_arrays = arrays \<rparr> R dels ups (rows i)"
proof -
  note sub = batch_rows_upserts [OF batch]
  from batch_arrays(1) [OF laws sub com, of dels] assms(4)
  have arrays: "arrays = [(''upsert_stable_ids'', u64_array ups), (''upsert_codes'', code_array w (map (the \<circ> rows i) ups)),
    (''upsert_scales'', scale_array (map (the \<circ> rows i) ups)), (''removed_stable_ids'', u64_array dels)]" by simp
  let ?h = "delta_header n g f (ix_len ops i) arrays"
  have "dict_ok ?h" by (simp add: delta_header_def)
  note get = pget_sorted_scalar [OF this, of "PInt (- 1)"]
  have "pget (sorted_obj ?h) ''calibration_fingerprint'' (PInt (- 1)) = PInt f"
    "pget (sorted_obj ?h) ''rows_after'' (PInt (- 1)) = PInt (ix_len ops i)"
    using get [of "''calibration_fingerprint''"] get [of "''rows_after''"] by (simp_all add: delta_header_def pget_def)
  then show ?thesis
    using batch index_lawsD(1, 3) [OF laws, of i] com by (simp add: delta_fits_def) (simp add: arrays)
qed

lemma delta_log_fits_snoc:
  "delta_log_fits w f ps bs R \<Longrightarrow> delta_fits w f p (last_rows bs R) dels ups R' \<Longrightarrow> delta_log_fits w f (ps @ [p]) (bs @ [(dels, ups, R')]) R"
proof (induction ps arbitrary: bs R)
  case Nil
  then show ?case by (cases bs) simp_all
next
  case (Cons q ps)
  then obtain d u R1 bs' where "bs = (d, u, R1) # bs'" by (cases bs) auto
  with Cons show ?case by simp
qed

lemma last_rows_snoc: "last_rows (bs @ [(dels, ups, R')]) R = R'"
  by (induction bs R rule: last_rows.induct) simp_all

text \<open>
  C6. Journalling a mutation batch of the live index, whose upserts may overwrite rows, insert rows or
  put removed rows back, and replaying the log onto the base index gives the rows of the live index,
  code bytes and scales included, and counts what was replayed.  Both indexes have a committed dimension
  and the calibration of the log, and the upserted rows have finite scales.
\<close>

theorem delta_append_then_replay:
  assumes laws: "index_laws ops rows w" and log: "delta_log st s m ps" and seq: "pget m ''next_seq'' (PInt 0) = PInt n"
    and base: "base_fingerprint m bf" "bf = 0 \<or> bf = f" and fp: "ix_fingerprint ops i0 = f" "ix_fingerprint ops i = f"
    and com: "committed ops w i0" "committed ops w i"
    and fits: "delta_log_fits w f ps bs (rows i0)" and batch: "batch_rows (last_rows bs (rows i0)) dels ups (rows i)"
    and arrays: "delta_arrays ops i ups dels = Inr arrays" and small: "delta_header_fits (delta_header n g f (ix_len ops i) arrays)"
  shows "\<exists>w i' u d. io_result (delta_append_delta ops st i ups dels g) s = Inr w
    \<and> io_result (delta_replay_onto ops st i0 None) (io_state (delta_append_delta ops st i ups dels g) s) = Inr (i', int (length ps) + 1, u, d)
    \<and> rows i' = rows i \<and> u = sum_list (map (\<lambda>(_, ups, _). int (length ups)) bs) + int (length ups)
    \<and> d = sum_list (map (\<lambda>(dels, _, _). int (length dels)) bs) + int (length dels)"
proof -
  let ?p = "\<lparr> dp_header = Some (sorted_obj (delta_header n g f (ix_len ops i) arrays)), dp_arrays = arrays \<rparr>"
  from batch_arrays [OF laws batch_rows_upserts [OF batch] com(2), of dels] arrays have ok: "arrays_ok arrays" by simp
  have call: "call_fingerprint ops i = Inr f" using index_lawsD(2) [OF laws] fp(2) by (simp add: call_fingerprint_def)
  note fits' = delta_log_fits_snoc [OF fits written_delta_fits [OF laws batch com(2) arrays, of f n g]]
  show ?thesis
  proof (rule delta_append_law [OF log seq arrays ok call small])
    fix wr m' assume wr: "io_result (delta_append_delta ops st i ups dels g) s = Inr wr"
      and log': "delta_log st (io_state (delta_append_delta ops st i ups dels g) s) m' (ps @ [?p])"
      and base': "pget m' ''base'' (PDict []) = key_sorted (pget m ''base'' (PDict []))"
    from delta_replay_rows [OF laws log' base_fingerprint_sorted [OF base(1) base'] base(2) fp(1) com(1) fits'] wr
    show ?thesis by (simp add: last_rows_snoc add.commute [of 1])
  qed
qed

text \<open>
  C7. An append to the vector log is crash safe: from every state a process crash leaves, replay
  succeeds and gives the rows before the batch or the rows of the live index, under the conditions of
  the claim before.
\<close>

theorem delta_append_crash_safe:
  assumes laws: "index_laws ops rows w" and log: "delta_log st s m ps" and seq: "pget m ''next_seq'' (PInt 0) = PInt n"
    and base: "base_fingerprint m bf" "bf = 0 \<or> bf = f" and fp: "ix_fingerprint ops i0 = f" "ix_fingerprint ops i = f"
    and com: "committed ops w i0" "committed ops w i"
    and fits: "delta_log_fits w f ps bs (rows i0)" and batch: "batch_rows (last_rows bs (rows i0)) dels ups (rows i)"
    and arrays: "delta_arrays ops i ups dels = Inr arrays" and small: "delta_header_fits (delta_header n g f (ix_len ops i) arrays)"
    and crash: "crash s (io_ops (delta_append_delta ops st i ups dels g) s) s'"
  shows "\<exists>i' report. io_result (delta_replay_onto ops st i0 None) s' = Inr (i', report)
    \<and> (rows i' = last_rows bs (rows i0) \<or> rows i' = rows i)"
proof -
  let ?p = "\<lparr> dp_header = Some (sorted_obj (delta_header n g f (ix_len ops i) arrays)), dp_arrays = arrays \<rparr>"
  from batch_arrays [OF laws batch_rows_upserts [OF batch] com(2), of dels] arrays have ok: "arrays_ok arrays" by simp
  have call: "call_fingerprint ops i = Inr f" using index_lawsD(2) [OF laws] fp(2) by (simp add: call_fingerprint_def)
  note fits' = delta_log_fits_snoc [OF fits written_delta_fits [OF laws batch com(2) arrays, of f n g]]
  show ?thesis
  proof (rule delta_append_law [OF log seq arrays ok call small])
    fix m' assume base': "pget m' ''base'' (PDict []) = key_sorted (pget m ''base'' (PDict []))"
      and "\<And>s'. crash s (io_ops (delta_append_delta ops st i ups dels g) s) s' \<Longrightarrow> delta_log st s' m ps \<or> delta_log st s' m' (ps @ [?p])"
    from this(2) [OF crash] show ?thesis
    proof
      assume "delta_log st s' m ps"
      from delta_replay_rows [OF laws this base fp(1) com(1) fits] show ?thesis by blast
    next
      assume "delta_log st s' m' (ps @ [?p])"
      from delta_replay_rows [OF laws this base_fingerprint_sorted [OF base(1) base'] base(2) fp(1) com(1) fits'] show ?thesis
        unfolding last_rows_snoc by blast
    qed
  qed
qed

section \<open>A sample index and log\<close>

text \<open>An index with one-byte codes kept in a map, which satisfies the laws; it refuses a scale that is not finite.\<close>

type_synonym memory_index = "u64 \<rightharpoonup> char \<times> (char \<times> char) \<times> (char \<times> char)"

definition memory_rows :: "memory_index \<Rightarrow> rows" where
  "memory_rows i = map_option (\<lambda>(c, (p, q), (r, s)). ([c], [p, q, r, s])) \<circ> i"

definition array_ids :: "ndarray \<Rightarrow> u64 list" where
  "array_ids a = map (\<lambda>b. word_of_int (un_le64 b)) (chunked (length (nd_data a) div 8) 8 (nd_data a))"

definition array_cells :: "ndarray \<Rightarrow> ndarray \<Rightarrow> (char \<times> (char \<times> char) \<times> (char \<times> char)) list" where
  "array_cells c s = map (\<lambda>(c, b). (c, (b ! 0, b ! 1), (b ! 2, b ! 3))) (zip (nd_data c) (chunked (length (nd_data c)) 4 (nd_data s)))"

definition memory_ops :: "memory_index index_ops" where
  "memory_ops = \<lparr> ix_has = \<lambda>_ _. True, ix_write = \<lambda>_. ''tvim'', ix_len = \<lambda>i. int (card (dom i)), ix_fingerprint = \<lambda>_. 7,
     ix_bytes_per_vector = \<lambda>_. Some 1,
     ix_export = \<lambda>i ids. Inr (code_array 1 (map (the \<circ> memory_rows i) ids), scale_array (map (the \<circ> memory_rows i) ids)),
     ix_remove = \<lambda>i a. Inr (int (card (set (array_ids a) \<inter> dom i)), i |` (- set (array_ids a))),
     ix_add = \<lambda>i a c s. if list_all finite_scale (chunked (length (nd_data c)) 4 (nd_data s))
       then Inr (i ++ map_of (zip (array_ids a) (array_cells c s))) else Inl (ValueError ''non-finite scale'') \<rparr>"

lemma chunked_concat: "(\<And>x. x \<in> set xs \<Longrightarrow> length (f x) = n) \<Longrightarrow> chunked (length xs) n (concat (map f xs)) = map f xs"
  by (induction xs) simp_all

lemma array_ids_array [simp]: "array_ids (u64_array ids) = ids"
proof -
  have "length (concat (map (\<lambda>i. le64 (uint i)) ids)) div 8 = length ids" using concat_length [of ids "\<lambda>i. le64 (uint i)" 8] by simp
  moreover have "un_le64 (le64 (uint i)) = uint i" for i :: u64 by (intro le64_roundtrip) (use uint_lt2p [of i] in simp_all)
  ultimately show ?thesis by (simp add: array_ids_def u64_array_def chunked_concat comp_def)
qed

lemma array_cells_rows:
  assumes "list_all (row_wide 1) cs"
  shows "map (\<lambda>(c, (p, q), (r, s)). ([c], [p, q, r, s])) (array_cells (code_array 1 cs) (scale_array cs)) = cs"
proof -
  have one: "concat (map fst cs) = map (hd \<circ> fst) cs" using assms by (induction cs) (auto simp: row_wide_def length_Suc_conv)
  have "chunked (length cs) 4 (concat (map snd cs)) = map snd cs" using assms by (intro chunked_concat) (simp add: list_all_iff row_wide_def)
  then have "array_cells (code_array 1 cs) (scale_array cs) = map (\<lambda>c. (hd (fst c), (snd c ! 0, snd c ! 1), (snd c ! 2, snd c ! 3))) cs"
    by (simp add: array_cells_def code_array_def scale_array_def one zip_map_map zip_same_conv_map comp_def)
  moreover have "([hd (fst c)], [snd c ! 0, snd c ! 1, snd c ! 2, snd c ! 3]) = c" if "row_wide 1 c" for c
  proof -
    obtain u v where c: "c = (u, v)" by (cases c)
    with that have "length u = 1" "length v = 4" by (simp_all add: row_wide_def)
    then obtain a p q r s where "u = [a]" "v = [p, q, r, s]" by (auto simp: length_Suc_conv numeral_eq_Suc)
    with c show ?thesis by simp
  qed
  ultimately show ?thesis using assms by (simp add: comp_def list_all_iff map_idI)
qed

lemma memory_laws: "index_laws memory_ops memory_rows 1"
proof -
  have dom: "dom (memory_rows i) = dom i" for i by (auto simp: memory_rows_def dom_def)
  have wide: "Ball (ran (memory_rows i)) (row_wide 1)" for i by (auto simp: memory_rows_def ran_def row_wide_def)
  have add: "memory_rows (i ++ map_of (zip ids (array_cells (code_array 1 cs) (scale_array cs)))) = memory_rows i ++ map_of (zip ids cs)"
    if "list_all (row_wide 1) cs" for i ids cs
  proof -
    let ?f = "\<lambda>(c :: char, (p :: char, q :: char), (r :: char, s :: char)). ([c], [p, q, r, s])"
    have "map_of (zip ids cs) = map_option ?f \<circ> map_of (zip ids (array_cells (code_array 1 cs) (scale_array cs)))"
      by (subst array_cells_rows [OF that, symmetric]) (simp add: zip_map2 map_of_map [symmetric] case_prod_unfold)
    then show ?thesis by (auto simp: memory_rows_def map_add_def fun_eq_iff split: option.split)
  qed
  have restrict: "memory_rows (i |` A) = memory_rows i |` A" for i A by (auto simp: memory_rows_def restrict_map_def)
  have fin: "list_all finite_scale (chunked (length (nd_data (code_array 1 cs))) 4 (nd_data (scale_array cs)))"
    if "list_all (row_wide 1) cs" "list_all row_finite cs" for cs
  proof -
    have "length (concat (map fst cs)) = length cs" using that(1) by (induction cs) (auto simp: row_wide_def)
    moreover have "chunked (length cs) 4 (concat (map snd cs)) = map snd cs"
      using that(1) by (intro chunked_concat) (simp add: list_all_iff row_wide_def)
    ultimately show ?thesis using that(2) by (simp add: code_array_def scale_array_def list_all_iff row_finite_def)
  qed
  have "same_space memory_ops 1 i i'" for i i' by (simp add: same_space_def committed_def memory_ops_def)
  with wide add fin show ?thesis
    unfolding index_laws_def by (simp add: memory_ops_def dom restrict)
qed

lemma anchor_keeps:
  assumes "kind_ok k" and "store_open k st s" and "file_at s (ss_base st) = Some b"
    and prev: "io_result (ss_read_manifest_optional k st) s = Inr prev" "previous_lists k prev n es" and extra: "base_extra_ok extra"
    and "\<And>x. q \<noteq> ss_dir k st @ [x]"
  shows "file_at (io_state (ss_anchor_base k st fb extra) s) q = file_at s q"
proof -
  have "json_ok (PDict (base_manifest st b fb extra n))"
    using base_manifest_lists [OF extra stale_paths(3) [OF assms(1) prev(2)], of k] by (simp add: manifest_lists_def)
  then obtain mj where mj: "json_dumps pretty_style (PDict (base_manifest st b fb extra n)) = Inr mj"
    using json_dumps_ok [of pretty_style] by fastforce
  note run = anchor_runs [OF assms(1-3) prev mj]
  have "q \<notin> segment_path k st ` set es" using stale_paths(2) [OF assms(1) prev(2)] assms(7) by blast
  then have "q \<notin> \<Union> (op_paths ` set (io_ops (ss_anchor_base k st fb extra) s))"
    unfolding run(2) using assms(7) unlink_all_paths
    by (fastforce simp: publish_trace_def ss_manifest_path_def tmp_of_snoc split: if_splits)
  then show ?thesis unfolding io_state_def by (rule run_ops_frame)
qed

section \<open>Persisting a base\<close>

lemma delta_base_extra: "base_extra_ok [(PStr ''rows'', PInt r), (PStr ''calibration_fingerprint'', PInt f)]"
  by (simp add: base_extra_ok_def)

definition base_digest :: "obj \<Rightarrow> string \<Rightarrow> bool" where
  "base_digest m h \<longleftrightarrow> (\<exists>e. pget m ''base'' (PDict []) = PDict e \<and> dict_ok e \<and> pget e ''sha256'' (PStr []) = PStr h)"

lemma base_digest_sorted:
  assumes "base_digest m h" and "pget m' ''base'' (PDict []) = key_sorted (pget m ''base'' (PDict []))"
  shows "base_digest m' h"
proof -
  from assms(1) obtain e where e: "pget m ''base'' (PDict []) = PDict e" "dict_ok e" "pget e ''sha256'' (PStr []) = PStr h"
    unfolding base_digest_def by blast
  have "pget (sorted_obj e) ''sha256'' (PStr []) = PStr h" using pget_sorted_scalar [OF e(2), of "PStr []"] e(3) by simp
  with assms(2) e(1) sorted_obj_keys [OF e(2)] show ?thesis unfolding base_digest_def by (simp add: key_sorted_PDict del: key_sorted.simps)
qed

lemma base_outside:
  assumes "ss_base st \<noteq> []"
  shows "\<not> prefix (ss_base st) (ss_dir delta_kind st)" "\<not> prefix (tmp_of (ss_base st)) (ss_dir delta_kind st)"
    "ss_dir delta_kind st @ [x] \<noteq> ss_base st" "ss_dir delta_kind st @ [x] \<noteq> tmp_of (ss_base st)"
proof -
  obtain d n where b: "ss_base st = d @ [n]" using assms by (cases "ss_base st" rule: rev_cases) auto
  have dir: "ss_dir delta_kind st = d @ [n @ ''.tvim-delta'']" "tmp_of (d @ [n]) = d @ [n @ ''.tmp'']"
    by (simp_all add: ss_dir_def b with_name_def path_name_def delta_kind_def TVIM_DELTA_DIR_SUFFIX_def tmp_of_snoc)
  show "\<not> prefix (ss_base st) (ss_dir delta_kind st)" "\<not> prefix (tmp_of (ss_base st)) (ss_dir delta_kind st)"
    "ss_dir delta_kind st @ [x] \<noteq> ss_base st" "ss_dir delta_kind st @ [x] \<noteq> tmp_of (ss_base st)"
    unfolding b dir by simp_all
qed

lemma persist_base_law:
  assumes "ss_base st \<noteq> []" and "\<forall>q. prefix q (butlast (ss_base st)) \<longrightarrow> file_at s q = None"
    and "\<not> is_dir_at s (ss_base st)" and "\<not> is_dir_at s (tmp_of (ss_base st))"
    and opn: "store_open delta_kind st s"
    and prev: "io_result (delta_read_manifest_optional st) s = Inr prev" "previous_lists delta_kind prev n es"
    and f: "f = (if ix_has ops i ''calibration_fingerprint'' then ix_fingerprint ops i else 0)"
  obtains m' where "io_result (delta_persist_base ops st i) s
        = Inr \<lparr> dw_file_name = path_name (ss_base st), dw_file_bytes = int (length (ix_write ops i)), dw_kind = ''base'' \<rparr>"
    "delta_log st (io_state (delta_persist_base ops st i) s) m' []" "pget m' ''next_seq'' (PInt 0) = PInt (n + 1)"
    "base_fingerprint m' f" "base_digest m' (sha256_hex (ix_write ops i))"
    "file_at (io_state (delta_persist_base ops st i) s) (ss_base st) = Some (ix_write ops i)"
    "\<And>e. e \<in> set es \<Longrightarrow> file_at (io_state (delta_persist_base ops st i) s) (segment_path delta_kind st e) = None"
proof -
  let ?b = "ix_write ops i" and ?base = "ss_base st" and ?d = "butlast (ss_base st)"
  let ?extra = "[(PStr ''rows'', PInt (ix_len ops i)), (PStr ''calibration_fingerprint'', PInt f)]"
  define s1 where "s1 = run_op (Mkdir ?d) s"
  define s2 where "s2 = run_ops (publish_trace (tmp_of ?base) ?base ?b (ss_fsync st)) s1"
  have tmp: "butlast (tmp_of ?base) = ?d" "tmp_of ?base \<noteq> []" by (simp_all add: tmp_of_def with_name_def)
  have mk: "io_result (mkdir_parents ?d) s = Inr ()" "io_ops (mkdir_parents ?d) s = [Mkdir ?d]"
    using assms(2) by (simp_all add: mkdir_parents_def io_result_def io_ops_def list_ex_iff)
  have "length ?d < length ?base" using assms(1) by (cases "ss_base st") simp_all
  then have nd: "\<not> prefix ?base ?d" "\<not> prefix (tmp_of ?base) ?d"
    using prefix_length_le [of ?base ?d] prefix_length_le [of "tmp_of ?base" ?d] by (auto simp: tmp_of_def with_name_def)
  have pub: "publishable s1 ?base" using assms(1, 3, 4) nd tmp by (simp add: publishable_def can_write_def s1_def)
  note ok = publish_ok [OF conjunct2 [OF pub [unfolded publishable_def]] conjunct1 [OF pub [unfolded publishable_def]], of ?b "ss_fsync st"]
  have ne: "tmp_of ?base \<noteq> ?base" by (rule publishable_ne [OF pub])
  have files: "file_at s2 q = (if q = ?base then Some ?b else if q = tmp_of ?base then None else file_at s q)" for q
    unfolding s2_def s1_def by (simp add: publish_state [OF ne])
  have dirs: "is_dir_at s2 q = (prefix q ?d \<or> is_dir_at s q)" for q unfolding s2_def s1_def by (simp add: publish_dirs)
  have dir: "ss_dir delta_kind st = ?d @ [path_name ?base @ ''.tvim-delta'']"
    by (simp add: ss_dir_def with_name_def delta_kind_def TVIM_DELTA_DIR_SUFFIX_def)
  have "\<not> prefix (ss_dir delta_kind st @ [name]) ?d" for name using prefix_length_le [of "ss_dir delta_kind st @ [name]" ?d] by (auto simp: dir)
  then have open2: "store_open delta_kind st s2"
    using opn base_outside [OF assms(1)] unfolding store_open_def files dirs by auto
  have "file_at s2 (ss_manifest_path delta_kind st) = file_at s (ss_manifest_path delta_kind st)"
    using base_outside(3, 4) [OF assms(1)] by (simp add: files ss_manifest_path_def)
  then have prev2: "io_result (ss_read_manifest_optional delta_kind st) s2 = Inr prev"
    using prev(1) by (simp add: delta_read_manifest_optional_def read_manifest_optional_result)
  have base2: "file_at s2 ?base = Some ?b" by (simp add: files)
  note law = dl.anchor_log [OF open2 base2 prev2 prev(2) delta_base_extra [of "ix_len ops i" f], where fb = "int (length ?b)"]
  have eq: "delta_persist_base ops st i = io_bind (mkdir_parents ?d) (\<lambda>_.
      io_bind (io_bind (write_bytes (tmp_of ?base) ?b) (\<lambda>_. durable_replace (tmp_of ?base) ?base (ss_fsync st))) (\<lambda>_.
      io_bind (stat_size ?base) (\<lambda>file_bytes. io_bind (ss_anchor_base delta_kind st file_bytes ?extra) (\<lambda>_.
        io_return \<lparr> dw_file_name = path_name ?base, dw_file_bytes = file_bytes, dw_kind = ''base'' \<rparr>))))"
    by (simp add: delta_persist_base_def f io_bind_assoc tmp_of_def Let_def)
  have stat: "io_result (stat_size ?base) s2 = Inr (int (length ?b))" "io_ops (stat_size ?base) s2 = []" by (simp_all add: base2)
  note steps = eq io_step [OF mk] run_ops_simps s1_def [symmetric] io_step [OF ok] s2_def [symmetric] io_step [OF stat]
  have final: "io_state (delta_persist_base ops st i) s = io_state (ss_anchor_base delta_kind st (int (length ?b)) ?extra) s2"
    unfolding io_state_def steps by (simp add: law(1) s1_def [symmetric] s2_def [symmetric])
  let ?m = "base_manifest st ?b (int (length ?b)) ?extra n"
  have ok: "dict_ok ?m" by (simp add: base_manifest_def)
  show thesis
  proof (rule that [of "sorted_obj ?m"])
    show "io_result (delta_persist_base ops st i) s
        = Inr \<lparr> dw_file_name = path_name ?base, dw_file_bytes = int (length ?b), dw_kind = ''base'' \<rparr>"
      unfolding steps by (simp add: law(1))
    show "delta_log st (io_state (delta_persist_base ops st i) s) (sorted_obj ?m) []" unfolding final by (rule law(2))
    show "pget (sorted_obj ?m) ''next_seq'' (PInt 0) = PInt (n + 1)"
      using pget_sorted_scalar [OF ok, of "PInt 0" "''next_seq''"] by (simp add: base_manifest_def pget_def)
    have "base_fingerprint ?m f" by (simp add: base_fingerprint_def base_manifest_def pget_def)
    then show "base_fingerprint (sorted_obj ?m) f"
      by (rule base_fingerprint_sorted) (use pget_sorted_obj [OF ok, of "''base''" "PDict []"] in simp)
    have "base_digest ?m (sha256_hex ?b)" by (simp add: base_digest_def base_manifest_def pget_def)
    then show "base_digest (sorted_obj ?m) (sha256_hex ?b)"
      by (rule base_digest_sorted) (use pget_sorted_obj [OF ok, of "''base''" "PDict []"] in simp)
    show "file_at (io_state (delta_persist_base ops st i) s) (segment_path delta_kind st e) = None" if "e \<in> set es" for e
      unfolding final by (rule law(3) [OF that])
    show "file_at (io_state (delta_persist_base ops st i) s) ?base = Some ?b"
      unfolding final using anchor_keeps [OF delta_kind_ok open2 base2 prev2 prev(2) delta_base_extra] base_outside [OF assms(1)] base2 by metis
  qed
qed

lemma replay_empty_log:
  assumes log: "delta_log st s m []" and base: "base_fingerprint m f"
  shows "io_result (delta_replay_onto ops st i None) s =
    (if f \<noteq> 0 \<and> ix_has ops i ''calibration_fingerprint'' \<and> ix_fingerprint ops i \<noteq> f
     then Inl (RuntimeError ''TurboVec delta replay rejected: base calibration fingerprint mismatch'') else Inr (i, 0, 0, 0))"
proof -
  obtain es where es: "manifest_deltas m = Inr es" "length es = length ([] :: delta_payload list)"
    by (rule dl.log_replay [OF log delta_replay_loop, of ops]) blast
  moreover have "io_result (ss_read_manifest delta_kind st) s = Inr m" using log by (simp add: log_ok_def)
  moreover have "check_base_fingerprint ops i m = (if f \<noteq> 0 \<and> ix_has ops i ''calibration_fingerprint'' \<and> ix_fingerprint ops i \<noteq> f
     then Inl (RuntimeError ''TurboVec delta replay rejected: base calibration fingerprint mismatch'') else Inr ())"
    using base by (auto simp: base_fingerprint_def check_base_fingerprint_def as_dict_def raise_if_def)
  ultimately show ?thesis by (simp add: delta_replay_onto_def or_read_def)
qed

text \<open>
  C25. Persisting a base of any index: the base file holds the bytes of the index with its digest
  recorded, so that it validates; the log is empty and the old segments are gone.  Replay onto an index
  reloaded from the base changes nothing when its calibration is the recorded one, when none was
  recorded, or when it cannot tell its calibration; an index of another calibration is rejected.
\<close>

theorem delta_base_resets:
  assumes "ss_base st \<noteq> []" and "\<forall>q. prefix q (butlast (ss_base st)) \<longrightarrow> file_at s q = None"
    and "\<not> is_dir_at s (ss_base st)" and "\<not> is_dir_at s (tmp_of (ss_base st))" and "store_open delta_kind st s"
    and "io_result (delta_read_manifest_optional st) s = Inr prev" and "previous_lists delta_kind prev n es"
    and s': "s' = io_state (delta_persist_base ops st i) s"
    and f: "f = (if ix_has ops i ''calibration_fingerprint'' then ix_fingerprint ops i else 0)"
  shows "io_result (delta_persist_base ops st i) s
      = Inr \<lparr> dw_file_name = path_name (ss_base st), dw_file_bytes = int (length (ix_write ops i)), dw_kind = ''base'' \<rparr>
    \<and> file_at s' (ss_base st) = Some (ix_write ops i) \<and> io_result (delta_validate_base_checksum st None) s' = Inr ()
    \<and> (\<forall>e \<in> set es. file_at s' (segment_path delta_kind st e) = None)
    \<and> io_result (delta_replay_onto ops st i' None) s' =
        (if f \<noteq> 0 \<and> ix_has ops i' ''calibration_fingerprint'' \<and> ix_fingerprint ops i' \<noteq> f
         then Inl (RuntimeError ''TurboVec delta replay rejected: base calibration fingerprint mismatch'') else Inr (i', 0, 0, 0))"
proof (rule persist_base_law [OF assms(1-7) f])
  fix m' assume res: "io_result (delta_persist_base ops st i) s
        = Inr \<lparr> dw_file_name = path_name (ss_base st), dw_file_bytes = int (length (ix_write ops i)), dw_kind = ''base'' \<rparr>"
    and log: "delta_log st (io_state (delta_persist_base ops st i) s) m' []" and fp: "base_fingerprint m' f"
    and sha: "base_digest m' (sha256_hex (ix_write ops i))"
    and held: "file_at (io_state (delta_persist_base ops st i) s) (ss_base st) = Some (ix_write ops i)"
    and gone: "\<And>e. e \<in> set es \<Longrightarrow> file_at (io_state (delta_persist_base ops st i) s) (segment_path delta_kind st e) = None"
  have "io_result (ss_read_manifest delta_kind st) s' = Inr m'" using log by (simp add: log_ok_def s')
  then have "io_result (delta_validate_base_checksum st None) s' = Inr ()"
    using sha held sha256_file_runs [of s' "ss_base st"] unfolding base_digest_def s' [symmetric]
    by (auto simp: delta_validate_base_checksum_def ss_validate_base_checksum_def or_read_def as_dict_def Let_def)
  with res held gone replay_empty_log [OF log fp, of ops i'] show ?thesis by (simp add: s')
qed

definition sample_delta :: segment_store where "sample_delta = delta_store [''db'', ''k.tvim''] False"

definition sample_delta_fs :: fs where "sample_delta_fs = \<lparr> fs_files = [], fs_dirs = [[''db'']] \<rparr>"

definition sample_base :: memory_index where
  "sample_base = [5 \<mapsto> (CHR ''x'', (CHR ''a'', CHR ''b''), (CHR ''c'', CHR ''d'')), 6 \<mapsto> (CHR ''y'', (CHR ''a'', CHR ''b''), (CHR ''c'', CHR ''d''))]"

text \<open>The row of 5 is overwritten, the row of 6 removed and a row of 7 added.\<close>

definition sample_live :: memory_index where
  "sample_live = [5 \<mapsto> (CHR ''z'', (CHR ''e'', CHR ''f''), (CHR ''g'', CHR ''h'')), 7 \<mapsto> (CHR ''w'', (CHR ''a'', CHR ''b''), (CHR ''c'', CHR ''d''))]"

abbreviation sample_based :: fs where
  "sample_based \<equiv> io_state (delta_persist_base memory_ops sample_delta sample_base) sample_delta_fs"

lemma sample_delta_open:
  "ss_base sample_delta \<noteq> []" "\<forall>q. prefix q (butlast (ss_base sample_delta)) \<longrightarrow> file_at sample_delta_fs q = None"
  "\<not> is_dir_at sample_delta_fs (ss_base sample_delta)" "\<not> is_dir_at sample_delta_fs (tmp_of (ss_base sample_delta))"
  "store_open delta_kind sample_delta sample_delta_fs"
  "io_result (delta_read_manifest_optional sample_delta) sample_delta_fs = Inr None" "previous_lists delta_kind None 0 []"
  by (simp_all add: sample_delta_def delta_store_def sample_delta_fs_def file_at_def is_dir_at_def tmp_of_def with_name_def path_name_def
      store_open_def ss_dir_def delta_kind_def TVIM_DELTA_DIR_SUFFIX_def delta_read_manifest_optional_def read_manifest_optional_result previous_lists_def)

theorem delta_base_resets_witness:
  "io_result (delta_validate_base_checksum sample_delta None) sample_based = Inr ()
    \<and> io_result (delta_replay_onto memory_ops sample_delta sample_base None) sample_based = Inr (sample_base, 0, 0, 0)"
  using delta_base_resets [OF sample_delta_open refl refl, of memory_ops sample_base sample_base] by (simp add: memory_ops_def)

lemma sample_delta_log:
  obtains m where "delta_log sample_delta sample_based m []" "pget m ''next_seq'' (PInt 0) = PInt 1" "base_fingerprint m 7"
proof (rule persist_base_law [OF sample_delta_open refl, where i = sample_base and ops = memory_ops])
  fix m assume "delta_log sample_delta sample_based m []" "pget m ''next_seq'' (PInt 0) = PInt (0 + 1)"
    "base_fingerprint m (if ix_has memory_ops sample_base ''calibration_fingerprint'' then ix_fingerprint memory_ops sample_base else 0)"
  with that [of m] show thesis by (simp add: memory_ops_def)
qed

lemma sample_live_rows [simp]:
  "memory_rows sample_live 5 = Some (''z'', ''efgh'')" "memory_rows sample_live 7 = Some (''w'', ''abcd'')"
  by (simp_all add: memory_rows_def sample_live_def)

lemma sample_space:
  "ix_fingerprint memory_ops sample_base = 7" "ix_fingerprint memory_ops sample_live = 7"
  "committed memory_ops 1 sample_base" "committed memory_ops 1 sample_live"
  by (simp_all add: committed_def memory_ops_def)

lemma sample_delta_batch:
  "batch_rows (last_rows [] (memory_rows sample_base)) [6] [5, 7] (memory_rows sample_live)"
  "\<exists>arrays. delta_arrays memory_ops sample_live [5, 7] [6] = Inr arrays \<and> delta_header_fits (delta_header 1 1 7 (ix_len memory_ops sample_live) arrays)"
proof -
  show batch: "batch_rows (last_rows [] (memory_rows sample_base)) [6] [5, 7] (memory_rows sample_live)"
    by (auto simp: batch_rows_def memory_rows_def sample_base_def sample_live_def row_finite_def finite_scale_def code_def)
  note arrays = batch_arrays(1) [OF memory_laws batch_rows_upserts [OF batch] sample_space(4), of "[6]"]
  have "json_weight (PDict (delta_header 1 1 7 (ix_len memory_ops sample_live)
      [(''upsert_stable_ids'', u64_array [5, 7]), (''upsert_codes'', code_array 1 (map (the \<circ> memory_rows sample_live) [5, 7])),
       (''upsert_scales'', scale_array (map (the \<circ> memory_rows sample_live) [5, 7])), (''removed_stable_ids'', u64_array [6])])) \<le> 1000000"
    using sha256_hex_digest by (simp add: delta_header_def array_spec_def u64_array_def code_array_def scale_array_def memory_ops_def sample_live_def memory_rows_def SCHEMA_VERSION_def)
  from dumps_fits [OF delta_header_ok this] arrays
  show "\<exists>arrays. delta_arrays memory_ops sample_live [5, 7] [6] = Inr arrays \<and> delta_header_fits (delta_header 1 1 7 (ix_len memory_ops sample_live) arrays)"
    unfolding delta_header_fits_def by auto
qed

abbreviation sample_delta_append :: "delta_write io" where
  "sample_delta_append \<equiv> delta_append_delta memory_ops sample_delta sample_live [5, 7] [6] 1"

theorem delta_append_then_replay_witness:
  "\<exists>w i'. io_result sample_delta_append sample_based = Inr w
    \<and> io_result (delta_replay_onto memory_ops sample_delta sample_base None) (io_state sample_delta_append sample_based) = Inr (i', 1, 2, 1)
    \<and> memory_rows i' = memory_rows sample_live"
proof (rule sample_delta_log)
  fix m assume m: "delta_log sample_delta sample_based m []" "pget m ''next_seq'' (PInt 0) = PInt 1" "base_fingerprint m 7"
  from sample_delta_batch(2) obtain arrays where a: "delta_arrays memory_ops sample_live [5, 7] [6] = Inr arrays"
    "delta_header_fits (delta_header 1 1 7 (ix_len memory_ops sample_live) arrays)" by blast
  have fits: "delta_log_fits 1 7 [] [] (memory_rows sample_base)" by simp
  from delta_append_then_replay [OF memory_laws m disjI2 [OF refl] sample_space fits sample_delta_batch(1) a] show ?thesis by simp
qed

theorem delta_append_crash_safe_witness:
  "\<exists>s' i' report. crash sample_based (io_ops sample_delta_append sample_based) s'
    \<and> io_result (delta_replay_onto memory_ops sample_delta sample_base None) s' = Inr (i', report)
    \<and> (memory_rows i' = memory_rows sample_base \<or> memory_rows i' = memory_rows sample_live)"
proof (rule sample_delta_log)
  fix m assume m: "delta_log sample_delta sample_based m []" "pget m ''next_seq'' (PInt 0) = PInt 1" "base_fingerprint m 7"
  from sample_delta_batch(2) obtain arrays where a: "delta_arrays memory_ops sample_live [5, 7] [6] = Inr arrays"
    "delta_header_fits (delta_header 1 1 7 (ix_len memory_ops sample_live) arrays)" by blast
  have fits: "delta_log_fits 1 7 [] [] (memory_rows sample_base)" by simp
  let ?s = "run_ops (io_ops sample_delta_append sample_based) sample_based"
  have c: "crash sample_based (io_ops sample_delta_append sample_based) ?s" by (rule crash_done)
  from delta_append_crash_safe [OF memory_laws m disjI2 [OF refl] sample_space fits sample_delta_batch(1) a c] c show ?thesis
    unfolding last_rows.simps by blast
qed

end
