(* ===== verification/FileLock.thy ===== *)
theory FileLock
  imports PyNumber FileSys
begin

text \<open>
  The single-writer lock (\<open>engine/_filelock.py\<close>).  The kernel side is a table of open descriptors
  and the descriptor that owns the advisory lock of each sentinel file; handles of any number of
  processes run interleaved, one system call per step.  The monotonic clock is a rational number of
  seconds; the rounding of its float is left out.
\<close>

section \<open>Definitions\<close>

definition LOCK_FILE_NAME :: string where "LOCK_FILE_NAME = ''.lodedb.lock''"
definition DEFAULT_LOCK_TIMEOUT_S :: pyfloat where "DEFAULT_LOCK_TIMEOUT_S = Finite 30"
definition POLL_INTERVAL_S :: rat where "POLL_INTERVAL_S = 1 / 20"

definition lock_path_for :: "path \<Rightarrow> path" where
  "lock_path_for persistence_dir = path_join persistence_dir LOCK_FILE_NAME"

definition lodedb_lock_timeout_from_env :: "(string, string) dict \<Rightarrow> pyfloat res" where
  "lodedb_lock_timeout_from_env env = (case map_of env ''LODEDB_PERSIST_LOCK_TIMEOUT'' of
       None \<Rightarrow> Inr DEFAULT_LOCK_TIMEOUT_S
     | Some raw \<Rightarrow>
         if raw = [] then Inr DEFAULT_LOCK_TIMEOUT_S
         else (case py_float raw of
             None \<Rightarrow> Inl (ValueError ''LODEDB_PERSIST_LOCK_TIMEOUT must be a number'')
           | Some value \<Rightarrow>
               if float_less value (Finite 0) \<or> float_eq value (Finite 0) then Inl (ValueError ''LODEDB_PERSIST_LOCK_TIMEOUT must be positive'')
               else Inr value))"

subsection \<open>The kernel\<close>

type_synonym fd = nat

record kernel =
  k_open :: "fd \<rightharpoonup> path"
  k_owner :: "path \<rightharpoonup> fd"
  k_next :: fd

definition os_open :: "path \<Rightarrow> kernel \<Rightarrow> fd \<times> kernel" where
  "os_open p k = (k_next k, k \<lparr> k_open := (k_open k)(k_next k \<mapsto> p), k_next := Suc (k_next k) \<rparr>)"

definition os_try_lock :: "fd \<Rightarrow> kernel \<Rightarrow> bool \<times> kernel" where
  "os_try_lock fd k = (case k_open k fd of
       None \<Rightarrow> (False, k)
     | Some p \<Rightarrow> (case k_owner k p of
           None \<Rightarrow> (True, k \<lparr> k_owner := (k_owner k)(p \<mapsto> fd) \<rparr>)
         | Some owner \<Rightarrow> (owner = fd, k)))"

definition os_unlock :: "fd \<Rightarrow> kernel \<Rightarrow> kernel" where
  "os_unlock fd k = k \<lparr> k_owner := (\<lambda>p. if k_owner k p = Some fd then None else k_owner k p) \<rparr>"

text \<open>Closing the last descriptor of an open file drops its lock.\<close>

definition os_close :: "fd \<Rightarrow> kernel \<Rightarrow> kernel" where
  "os_close fd k = (os_unlock fd k) \<lparr> k_open := (k_open k)(fd := None) \<rparr>"

subsection \<open>Handles\<close>

record writer_lock =
  wl_path :: path
  wl_fd :: "fd option"

definition writer_lock :: "path \<Rightarrow> writer_lock" where
  "writer_lock persistence_dir = \<lparr> wl_path = lock_path_for persistence_dir, wl_fd = None \<rparr>"

definition held :: "writer_lock \<Rightarrow> bool" where
  "held l = (wl_fd l \<noteq> None)"

definition deadline_at :: "rat \<Rightarrow> pyfloat \<Rightarrow> pyfloat" where
  "deadline_at now timeout = (case timeout of Finite t \<Rightarrow> Finite (now + t) | t \<Rightarrow> t)"

definition past :: "rat \<Rightarrow> pyfloat \<Rightarrow> bool" where
  "past now deadline = (case deadline of Finite d \<Rightarrow> d \<le> now | NegInf \<Rightarrow> True | _ \<Rightarrow> False)"

text \<open>
  \<open>acquire\<close> up to its loop, one round of the loop, and \<open>release\<close>.  A round takes the lock, gives
  up, or goes to sleep for the poll interval.
\<close>

datatype entered = AlreadyHeld | Polling fd pyfloat

definition acquire_enter :: "pyfloat \<Rightarrow> rat \<Rightarrow> writer_lock \<Rightarrow> kernel \<Rightarrow> entered \<times> kernel" where
  "acquire_enter timeout now l k =
     (if wl_fd l \<noteq> None then (AlreadyHeld, k)
      else case os_open (wl_path l) k of (fd, k') \<Rightarrow> (Polling fd (deadline_at now timeout), k'))"

datatype round = Acquired | GaveUp error | Sleep

definition acquire_round :: "fd \<Rightarrow> pyfloat \<Rightarrow> rat \<Rightarrow> writer_lock \<Rightarrow> kernel \<Rightarrow> round \<times> writer_lock \<times> kernel" where
  "acquire_round fd deadline now l k = (case os_try_lock fd k of
       (True, k') \<Rightarrow> (Acquired, l \<lparr> wl_fd := Some fd \<rparr>, k')
     | (False, k') \<Rightarrow>
         if past now deadline then (GaveUp ConcurrentWriterError, l, os_close fd k')
         else (Sleep, l, k'))"

definition release :: "writer_lock \<Rightarrow> kernel \<Rightarrow> writer_lock \<times> kernel" where
  "release l k = (case wl_fd l of
       None \<Rightarrow> (l, k)
     | Some fd \<Rightarrow> (l \<lparr> wl_fd := None \<rparr>, os_close fd (os_unlock fd k)))"

section \<open>Interleaved handles\<close>

text \<open>Every handle is idle or in the loop of \<open>acquire\<close>; steps of different handles interleave freely.\<close>

record handle =
  h_lock :: writer_lock
  h_waiting :: "(fd \<times> pyfloat) option"

record world =
  w_now :: rat
  w_kernel :: kernel
  w_handles :: "nat \<Rightarrow> handle"

definition world_init :: "(nat \<Rightarrow> path) \<Rightarrow> world" where
  "world_init dirs = \<lparr> w_now = 0, w_kernel = \<lparr> k_open = Map.empty, k_owner = Map.empty, k_next = 0 \<rparr>,
     w_handles = (\<lambda>i. \<lparr> h_lock = writer_lock (dirs i), h_waiting = None \<rparr>) \<rparr>"

definition step_enter :: "nat \<Rightarrow> pyfloat \<Rightarrow> world \<Rightarrow> world" where
  "step_enter i timeout w = (let h = w_handles w i in case acquire_enter timeout (w_now w) (h_lock h) (w_kernel w) of
       (AlreadyHeld, k) \<Rightarrow> w
     | (Polling fd d, k) \<Rightarrow> w \<lparr> w_kernel := k, w_handles := (w_handles w)(i := h \<lparr> h_waiting := Some (fd, d) \<rparr>) \<rparr>)"

definition step_round :: "nat \<Rightarrow> world \<Rightarrow> world" where
  "step_round i w = (let h = w_handles w i in case h_waiting h of
       None \<Rightarrow> w
     | Some (fd, d) \<Rightarrow> (case acquire_round fd d (w_now w) (h_lock h) (w_kernel w) of
           (Sleep, l, k) \<Rightarrow> w \<lparr> w_kernel := k \<rparr>
         | (_, l, k) \<Rightarrow> w \<lparr> w_kernel := k, w_handles := (w_handles w)(i := \<lparr> h_lock = l, h_waiting = None \<rparr>) \<rparr>))"

definition step_release :: "nat \<Rightarrow> world \<Rightarrow> world" where
  "step_release i w = (let h = w_handles w i in case release (h_lock h) (w_kernel w) of
       (l, k) \<Rightarrow> w \<lparr> w_kernel := k, w_handles := (w_handles w)(i := h \<lparr> h_lock := l \<rparr>) \<rparr>)"

text \<open>A process exit closes the descriptors of the handle.\<close>

definition step_exit :: "nat \<Rightarrow> world \<Rightarrow> world" where
  "step_exit i w = (let h = w_handles w i;
       fds = (case wl_fd (h_lock h) of None \<Rightarrow> [] | Some fd \<Rightarrow> [fd]) @ (case h_waiting h of None \<Rightarrow> [] | Some (fd, _) \<Rightarrow> [fd])
     in w \<lparr> w_kernel := fold os_close fds (w_kernel w),
            w_handles := (w_handles w)(i := \<lparr> h_lock = (h_lock h) \<lparr> wl_fd := None \<rparr>, h_waiting = None \<rparr>) \<rparr>)"

inductive lock_step :: "world \<Rightarrow> world \<Rightarrow> bool" where
  enter: "h_waiting (w_handles w i) = None \<Longrightarrow> lock_step w (step_enter i timeout w)"
| poll: "lock_step w (step_round i w)"
| release: "h_waiting (w_handles w i) = None \<Longrightarrow> lock_step w (step_release i w)"
| exit: "lock_step w (step_exit i w)"
| tick: "0 \<le> t \<Longrightarrow> lock_step w (w \<lparr> w_now := w_now w + t \<rparr>)"

inductive reachable :: "(nat \<Rightarrow> path) \<Rightarrow> world \<Rightarrow> bool" for dirs where
  init: "reachable dirs (world_init dirs)"
| step: "reachable dirs w \<Longrightarrow> lock_step w w' \<Longrightarrow> reachable dirs w'"

definition handle_fds :: "handle \<Rightarrow> fd set" where
  "handle_fds h = set_option (wl_fd (h_lock h)) \<union> fst ` set_option (h_waiting h)"

definition lock_inv :: "world \<Rightarrow> bool" where
  "lock_inv w \<longleftrightarrow>
     (\<forall>i. \<forall>fd \<in> handle_fds (w_handles w i). k_open (w_kernel w) fd = Some (wl_path (h_lock (w_handles w i))) \<and> fd < k_next (w_kernel w))
     \<and> (\<forall>i j. i \<noteq> j \<longrightarrow> handle_fds (w_handles w i) \<inter> handle_fds (w_handles w j) = {})
     \<and> (\<forall>i fd. wl_fd (h_lock (w_handles w i)) = Some fd \<longrightarrow>
          k_owner (w_kernel w) (wl_path (h_lock (w_handles w i))) = Some fd \<and> h_waiting (w_handles w i) = None)
     \<and> (\<forall>i fd d. h_waiting (w_handles w i) = Some (fd, d) \<longrightarrow> (\<forall>p. k_owner (w_kernel w) p \<noteq> Some fd))
     \<and> (\<forall>p fd. k_owner (w_kernel w) p = Some fd \<longrightarrow> k_open (w_kernel w) fd = Some p \<and> fd < k_next (w_kernel w))
     \<and> (\<forall>fd. k_next (w_kernel w) \<le> fd \<longrightarrow> k_open (w_kernel w) fd = None)"

section \<open>The invariant\<close>

lemma lock_invD:
  assumes "lock_inv w"
  shows "fd \<in> handle_fds (w_handles w i) \<Longrightarrow> k_open (w_kernel w) fd = Some (wl_path (h_lock (w_handles w i)))"
    and "fd \<in> handle_fds (w_handles w i) \<Longrightarrow> fd < k_next (w_kernel w)"
    and "i \<noteq> j \<Longrightarrow> fd \<in> handle_fds (w_handles w i) \<Longrightarrow> fd \<notin> handle_fds (w_handles w j)"
    and "wl_fd (h_lock (w_handles w i)) = Some fd \<Longrightarrow> k_owner (w_kernel w) (wl_path (h_lock (w_handles w i))) = Some fd"
    and "wl_fd (h_lock (w_handles w i)) = Some fd \<Longrightarrow> h_waiting (w_handles w i) = None"
    and "h_waiting (w_handles w i) = Some (fd, d) \<Longrightarrow> k_owner (w_kernel w) p \<noteq> Some fd"
    and "k_owner (w_kernel w) p = Some fd \<Longrightarrow> k_open (w_kernel w) fd = Some p"
    and "k_owner (w_kernel w) p = Some fd \<Longrightarrow> fd < k_next (w_kernel w)"
    and "k_next (w_kernel w) \<le> fd \<Longrightarrow> k_open (w_kernel w) fd = None"
  using assms unfolding lock_inv_def by blast+

lemma close_kernel [simp]:
  "k_open (os_close fd k) = (k_open k)(fd := None)" "k_next (os_close fd k) = k_next k"
  "k_owner (os_close fd k) p = (if k_owner k p = Some fd then None else k_owner k p)"
  by (simp_all add: os_close_def os_unlock_def)

lemma handle_fds_cases:
  assumes "lock_inv w"
  shows "handle_fds (w_handles w i) = {} \<and> wl_fd (h_lock (w_handles w i)) = None \<and> h_waiting (w_handles w i) = None
    \<or> (\<exists>fd. handle_fds (w_handles w i) = {fd} \<and> wl_fd (h_lock (w_handles w i)) = Some fd \<and> h_waiting (w_handles w i) = None)
    \<or> (\<exists>fd d. handle_fds (w_handles w i) = {fd} \<and> wl_fd (h_lock (w_handles w i)) = None \<and> h_waiting (w_handles w i) = Some (fd, d))"
proof (cases "wl_fd (h_lock (w_handles w i))")
  case None
  then show ?thesis by (cases "h_waiting (w_handles w i)") (auto simp: handle_fds_def)
next
  case (Some fd)
  then show ?thesis using lock_invD(5) [OF assms Some] by (simp add: handle_fds_def)
qed

text \<open>Closing the descriptor of one handle and resetting it keeps the invariant.\<close>

definition reset_handle :: "nat \<Rightarrow> fd \<Rightarrow> world \<Rightarrow> world" where
  "reset_handle i fd w = w \<lparr> w_kernel := os_close fd (w_kernel w),
     w_handles := (w_handles w)(i := \<lparr> h_lock = (h_lock (w_handles w i)) \<lparr> wl_fd := None \<rparr>, h_waiting = None \<rparr>) \<rparr>"

lemma reset_handle_inv:
  assumes inv: "lock_inv w" and mine: "handle_fds (w_handles w i) = {fd}"
  shows "lock_inv (reset_handle i fd w)"
proof -
  let ?w = "reset_handle i fd w"
  have fds: "handle_fds (w_handles ?w j) = (if j = i then {} else handle_fds (w_handles w j))" for j
    by (simp add: reset_handle_def handle_fds_def)
  have k: "k_open (w_kernel ?w) = (k_open (w_kernel w))(fd := None)" "k_next (w_kernel ?w) = k_next (w_kernel w)"
    "\<And>p. k_owner (w_kernel ?w) p = (if k_owner (w_kernel w) p = Some fd then None else k_owner (w_kernel w) p)"
    by (simp_all add: reset_handle_def)
  have other: "fd \<notin> handle_fds (w_handles w j)" if "j \<noteq> i" for j using lock_invD(3) [OF inv, of i j fd] that mine by simp
  have path: "wl_path (h_lock (w_handles ?w j)) = wl_path (h_lock (w_handles w j))" for j by (simp add: reset_handle_def)
  show ?thesis
    unfolding lock_inv_def
  proof (intro conjI allI impI ballI)
    fix j fd' assume "fd' \<in> handle_fds (w_handles ?w j)"
    then have j: "j \<noteq> i" "fd' \<in> handle_fds (w_handles w j)" by (simp_all add: fds split: if_splits)
    then have "fd' \<noteq> fd" using other by auto
    then show "k_open (w_kernel ?w) fd' = Some (wl_path (h_lock (w_handles ?w j)))" "fd' < k_next (w_kernel ?w)"
      using lock_invD(1, 2) [OF inv j(2)] by (simp_all add: k path)
  next
    fix j j' :: nat assume "j \<noteq> j'"
    then show "handle_fds (w_handles ?w j) \<inter> handle_fds (w_handles ?w j') = {}" using lock_invD(3) [OF inv] by (auto simp: fds)
  next
    fix j fd' assume "wl_fd (h_lock (w_handles ?w j)) = Some fd'"
    then have j: "j \<noteq> i" "wl_fd (h_lock (w_handles w j)) = Some fd'" by (auto simp: reset_handle_def split: if_splits)
    then have "fd' \<noteq> fd" using other [OF j(1)] by (auto simp: handle_fds_def)
    then show "k_owner (w_kernel ?w) (wl_path (h_lock (w_handles ?w j))) = Some fd'" "h_waiting (w_handles ?w j) = None"
      using lock_invD(4, 5) [OF inv j(2)] j(1) by (simp_all add: k path) (simp add: reset_handle_def)
  next
    fix j fd' d p assume "h_waiting (w_handles ?w j) = Some (fd', d)"
    then have "h_waiting (w_handles w j) = Some (fd', d)" by (auto simp: reset_handle_def split: if_splits)
    then show "k_owner (w_kernel ?w) p \<noteq> Some fd'" using lock_invD(6) [OF inv] by (simp add: k)
  next
    fix p fd' assume "k_owner (w_kernel ?w) p = Some fd'"
    then have o: "k_owner (w_kernel w) p = Some fd'" "fd' \<noteq> fd" by (auto simp: k split: if_splits)
    then show "k_open (w_kernel ?w) fd' = Some p" "fd' < k_next (w_kernel ?w)" using lock_invD(7, 8) [OF inv o(1)] by (simp_all add: k)
  next
    fix fd' assume "k_next (w_kernel ?w) \<le> fd'"
    then show "k_open (w_kernel ?w) fd' = None" using lock_invD(9) [OF inv] by (simp add: k)
  qed
qed

lemma step_exit_inv:
  assumes inv: "lock_inv w"
  shows "lock_inv (step_exit i w)"
  using handle_fds_cases [OF inv, of i]
proof (elim disjE exE conjE)
  assume "wl_fd (h_lock (w_handles w i)) = None" "h_waiting (w_handles w i) = None"
  then have "step_exit i w = w" by (simp add: step_exit_def Let_def fun_upd_idem)
  with inv show ?thesis by simp
next
  fix fd assume h: "handle_fds (w_handles w i) = {fd}" "wl_fd (h_lock (w_handles w i)) = Some fd" "h_waiting (w_handles w i) = None"
  then have "step_exit i w = reset_handle i fd w" by (simp add: step_exit_def reset_handle_def Let_def)
  with reset_handle_inv [OF inv h(1)] show ?thesis by simp
next
  fix fd d assume h: "handle_fds (w_handles w i) = {fd}" "wl_fd (h_lock (w_handles w i)) = None" "h_waiting (w_handles w i) = Some (fd, d)"
  then have "step_exit i w = reset_handle i fd w" by (simp add: step_exit_def reset_handle_def Let_def)
  with reset_handle_inv [OF inv h(1)] show ?thesis by simp
qed

lemma close_unlock: "os_close fd (os_unlock fd k) = os_close fd k"
  by (simp add: os_close_def os_unlock_def fun_eq_iff)

lemma step_release_inv:
  assumes inv: "lock_inv w" and "h_waiting (w_handles w i) = None"
  shows "lock_inv (step_release i w)"
proof -
  have "step_release i w = step_exit i w"
  proof (cases "wl_fd (h_lock (w_handles w i))")
    case None
    with assms(2) show ?thesis by (simp add: step_release_def step_exit_def release_def Let_def fun_upd_idem)
  next
    case (Some fd)
    have "(w_handles w i) \<lparr> h_lock := l \<rparr> = \<lparr> h_lock = l, h_waiting = None \<rparr>" for l
      using assms(2) by (cases "w_handles w i") simp
    note eq = this
    show ?thesis using Some assms(2) by (simp add: step_release_def step_exit_def release_def Let_def close_unlock eq)
  qed
  with step_exit_inv [OF inv] show ?thesis by simp
qed

lemma step_enter_inv:
  assumes inv: "lock_inv w" and idle: "h_waiting (w_handles w i) = None"
  shows "lock_inv (step_enter i timeout w)"
proof (cases "wl_fd (h_lock (w_handles w i))")
  case (Some fd)
  with inv show ?thesis by (simp add: step_enter_def acquire_enter_def Let_def)
next
  case None
  let ?w = "step_enter i timeout w" and ?fd = "k_next (w_kernel w)" and ?p = "wl_path (h_lock (w_handles w i))"
  have eq: "?w = w \<lparr> w_kernel := (w_kernel w) \<lparr> k_open := (k_open (w_kernel w))(?fd \<mapsto> ?p), k_next := Suc ?fd \<rparr>,
      w_handles := (w_handles w)(i := (w_handles w i) \<lparr> h_waiting := Some (?fd, deadline_at (w_now w) timeout) \<rparr>) \<rparr>"
    using None by (simp add: step_enter_def acquire_enter_def os_open_def Let_def)
  have k: "k_open (w_kernel ?w) = (k_open (w_kernel w))(?fd \<mapsto> ?p)" "k_next (w_kernel ?w) = Suc ?fd" "k_owner (w_kernel ?w) = k_owner (w_kernel w)"
    and lock: "\<And>j. h_lock (w_handles ?w j) = h_lock (w_handles w j)"
    and waiting: "\<And>j. h_waiting (w_handles ?w j) = (if j = i then Some (?fd, deadline_at (w_now w) timeout) else h_waiting (w_handles w j))"
    by (simp_all add: eq)
  have fds: "handle_fds (w_handles ?w j) = (if j = i then {?fd} else handle_fds (w_handles w j))" for j
    using None by (simp add: handle_fds_def lock waiting)
  have fresh: "?fd \<notin> handle_fds (w_handles w j)" for j using lock_invD(2) [OF inv, of ?fd j] by auto
  have fresh': "k_owner (w_kernel w) p \<noteq> Some ?fd" for p using lock_invD(8) [OF inv, of p ?fd] by auto
  show ?thesis
    unfolding lock_inv_def
  proof (intro conjI allI impI ballI)
    fix j fd assume "fd \<in> handle_fds (w_handles ?w j)"
    then show "k_open (w_kernel ?w) fd = Some (wl_path (h_lock (w_handles ?w j)))" "fd < k_next (w_kernel ?w)"
      using lock_invD(1, 2) [OF inv, of fd j] fresh by (auto simp: fds k lock split: if_splits)
  next
    fix j j' :: nat assume "j \<noteq> j'"
    then show "handle_fds (w_handles ?w j) \<inter> handle_fds (w_handles ?w j') = {}" using lock_invD(3) [OF inv] fresh by (auto simp: fds)
  next
    fix j fd assume "wl_fd (h_lock (w_handles ?w j)) = Some fd"
    then have j: "wl_fd (h_lock (w_handles w j)) = Some fd" "j \<noteq> i" using None by (auto simp: lock)
    then show "k_owner (w_kernel ?w) (wl_path (h_lock (w_handles ?w j))) = Some fd" "h_waiting (w_handles ?w j) = None"
      using lock_invD(4, 5) [OF inv j(1)] by (simp_all add: k lock waiting)
  next
    fix j fd d p assume "h_waiting (w_handles ?w j) = Some (fd, d)"
    then show "k_owner (w_kernel ?w) p \<noteq> Some fd" using lock_invD(6) [OF inv] fresh' by (auto simp: k waiting split: if_splits)
  next
    fix p fd assume "k_owner (w_kernel ?w) p = Some fd"
    then show "k_open (w_kernel ?w) fd = Some p" "fd < k_next (w_kernel ?w)" using lock_invD(7, 8) [OF inv, of p fd] by (auto simp: k)
  next
    fix fd assume "k_next (w_kernel ?w) \<le> fd"
    then show "k_open (w_kernel ?w) fd = None" using lock_invD(9) [OF inv, of fd] by (simp add: k)
  qed
qed

lemma acquired_inv:
  assumes inv: "lock_inv w" and wait: "h_waiting (w_handles w i) = Some (fd, d)" and free: "k_owner (w_kernel w) (wl_path (h_lock (w_handles w i))) = None"
  shows "lock_inv (w \<lparr> w_kernel := (w_kernel w) \<lparr> k_owner := (k_owner (w_kernel w))(wl_path (h_lock (w_handles w i)) \<mapsto> fd) \<rparr>,
    w_handles := (w_handles w)(i := \<lparr> h_lock = (h_lock (w_handles w i)) \<lparr> wl_fd := Some fd \<rparr>, h_waiting = None \<rparr>) \<rparr>)" (is "lock_inv ?w")
proof -
  let ?p = "wl_path (h_lock (w_handles w i))"
  have none: "wl_fd (h_lock (w_handles w i)) = None"
    using lock_invD(5) [OF inv] wait by (cases "wl_fd (h_lock (w_handles w i))") auto
  have mine: "fd \<in> handle_fds (w_handles w i)" using wait by (force simp: handle_fds_def)
  have fds: "handle_fds (w_handles ?w j) = handle_fds (w_handles w j)" for j using wait none by (simp add: handle_fds_def)
  have path: "wl_path (h_lock (w_handles ?w j)) = wl_path (h_lock (w_handles w j))" for j by simp
  show ?thesis
    unfolding lock_inv_def fds path
  proof (intro conjI allI impI ballI)
    fix j fd' assume "fd' \<in> handle_fds (w_handles w j)"
    then show "k_open (w_kernel ?w) fd' = Some (wl_path (h_lock (w_handles w j)))" "fd' < k_next (w_kernel ?w)"
      using lock_invD(1, 2) [OF inv] by simp_all
  next
    fix j j' :: nat assume "j \<noteq> j'"
    then show "handle_fds (w_handles w j) \<inter> handle_fds (w_handles w j') = {}" using lock_invD(3) [OF inv] by blast
  next
    fix j fd' assume j: "wl_fd (h_lock (w_handles ?w j)) = Some fd'"
    show "h_waiting (w_handles ?w j) = None" using j lock_invD(5) [OF inv] by (cases "j = i") simp_all
    show "k_owner (w_kernel ?w) (wl_path (h_lock (w_handles w j))) = Some fd'"
    proof (cases "j = i")
      case False
      with j have "k_owner (w_kernel w) (wl_path (h_lock (w_handles w j))) = Some fd'" using lock_invD(4) [OF inv] by simp
      with free show ?thesis by auto
    qed (use j in simp)
  next
    fix j fd' d' p assume "h_waiting (w_handles ?w j) = Some (fd', d')"
    then have j: "j \<noteq> i" "h_waiting (w_handles w j) = Some (fd', d')" by (auto split: if_splits)
    then have "fd' \<in> handle_fds (w_handles w j)" by (force simp: handle_fds_def)
    then have "fd' \<noteq> fd" using lock_invD(3) [OF inv j(1) [symmetric] mine] by blast
    then show "k_owner (w_kernel ?w) p \<noteq> Some fd'" using lock_invD(6) [OF inv j(2)] by simp
  next
    fix p fd' assume "k_owner (w_kernel ?w) p = Some fd'"
    then show "k_open (w_kernel ?w) fd' = Some p" "fd' < k_next (w_kernel ?w)"
      using lock_invD(7, 8) [OF inv, of p fd'] lock_invD(1, 2) [OF inv mine] by (auto split: if_splits)
  next
    fix fd' assume "k_next (w_kernel ?w) \<le> fd'"
    then show "k_open (w_kernel ?w) fd' = None" using lock_invD(9) [OF inv] by simp
  qed
qed

lemma step_round_inv:
  assumes inv: "lock_inv w"
  shows "lock_inv (step_round i w)"
proof (cases "h_waiting (w_handles w i)")
  case None
  with inv show ?thesis by (simp add: step_round_def Let_def)
next
  case (Some fdd)
  obtain fd d where wait: "h_waiting (w_handles w i) = Some (fd, d)" using Some by (cases fdd) auto
  let ?l = "h_lock (w_handles w i)"
  have mine: "fd \<in> handle_fds (w_handles w i)" using wait by (force simp: handle_fds_def)
  have opn: "k_open (w_kernel w) fd = Some (wl_path ?l)" by (rule lock_invD(1) [OF inv mine])
  show ?thesis
  proof (cases "k_owner (w_kernel w) (wl_path ?l)")
    case None
    then show ?thesis using acquired_inv [OF inv wait None] wait opn
      by (simp add: step_round_def acquire_round_def os_try_lock_def Let_def)
  next
    case (Some owner)
    then have ne: "owner \<noteq> fd" using lock_invD(6) [OF inv wait] by auto
    show ?thesis
    proof (cases "past (w_now w) d")
      case True
      have none: "wl_fd ?l = None" using lock_invD(5) [OF inv] wait by (cases "wl_fd ?l") auto
      then have "?l \<lparr> wl_fd := None \<rparr> = ?l" by simp
      then have "step_round i w = reset_handle i fd w"
        using True Some ne wait opn by (simp add: step_round_def acquire_round_def os_try_lock_def reset_handle_def Let_def)
      moreover have "handle_fds (w_handles w i) = {fd}" using none wait by (simp add: handle_fds_def)
      ultimately show ?thesis using reset_handle_inv [OF inv] by simp
    next
      case False
      with Some ne wait opn inv show ?thesis by (simp add: step_round_def acquire_round_def os_try_lock_def Let_def)
    qed
  qed
qed

lemma lock_step_inv: "lock_step w w' \<Longrightarrow> lock_inv w \<Longrightarrow> lock_inv w'"
proof (induction rule: lock_step.induct)
  case (tick t w)
  then show ?case by (simp add: lock_inv_def)
qed (simp_all add: step_enter_inv step_round_inv step_release_inv step_exit_inv)

lemma reachable_inv: "reachable dirs w \<Longrightarrow> lock_inv w"
proof (induction rule: reachable.induct)
  case init
  show ?case by (simp add: lock_inv_def world_init_def writer_lock_def handle_fds_def)
next
  case (step w w')
  then show ?case using lock_step_inv by blast
qed

lemma step_path: "lock_step w w' \<Longrightarrow> wl_path (h_lock (w_handles w' i)) = wl_path (h_lock (w_handles w i))"
proof (induction rule: lock_step.induct)
  case (enter w j timeout)
  show ?case by (simp add: step_enter_def acquire_enter_def os_open_def Let_def)
next
  case (poll w j)
  show ?case
    by (auto simp: step_round_def acquire_round_def Let_def split: option.split prod.split bool.split)
next
  case (release w j)
  show ?case by (auto simp: step_release_def release_def Let_def split: option.split)
qed (simp_all add: step_exit_def Let_def)

lemma reachable_path: "reachable dirs w \<Longrightarrow> wl_path (h_lock (w_handles w i)) = lock_path_for (dirs i)"
proof (induction rule: reachable.induct)
  case init
  show ?case by (simp add: world_init_def writer_lock_def)
next
  case (step w w')
  then show ?case by (simp add: step_path)
qed

section \<open>Properties\<close>

text \<open>
  C3. Single writer: in every reachable interleaving of opens, polls, releases, exits and clock
  ticks, a handle that holds the lock of a directory excludes every other handle on it.
\<close>

theorem single_writer:
  assumes "reachable dirs w" and "dirs i = dirs j" and "i \<noteq> j" and "held (h_lock (w_handles w i))"
  shows "\<not> held (h_lock (w_handles w j))"
proof
  assume "held (h_lock (w_handles w j))"
  note inv = reachable_inv [OF assms(1)]
  obtain a b where a: "wl_fd (h_lock (w_handles w i)) = Some a" and b: "wl_fd (h_lock (w_handles w j)) = Some b"
    using assms(4) \<open>held (h_lock (w_handles w j))\<close> by (auto simp: held_def)
  have "wl_path (h_lock (w_handles w i)) = wl_path (h_lock (w_handles w j))" using reachable_path [OF assms(1)] assms(2) by simp
  then have "a = b" using lock_invD(4) [OF inv a] lock_invD(4) [OF inv b] by simp
  moreover have "a \<in> handle_fds (w_handles w i)" "b \<in> handle_fds (w_handles w j)" using a b by (simp_all add: handle_fds_def)
  ultimately show False using lock_invD(3) [OF inv assms(3)] by blast
qed

section \<open>The loop of acquire\<close>

text \<open>
  The loop against an environment that gives, for each round, the clock and the kernel the round
  sees.  \<open>time.sleep\<close> lasts at least its argument, so the clock of two rounds differs by at least
  the poll interval.
\<close>

fun acquire_loop :: "nat \<Rightarrow> fd \<Rightarrow> pyfloat \<Rightarrow> (nat \<Rightarrow> rat \<times> kernel) \<Rightarrow> nat \<Rightarrow> writer_lock \<Rightarrow> (round \<times> writer_lock \<times> kernel) option" where
  "acquire_loop 0 fd deadline env n l = None"
| "acquire_loop (Suc fuel) fd deadline env n l = (case acquire_round fd deadline (fst (env n)) l (snd (env n)) of
       (Sleep, _, _) \<Rightarrow> acquire_loop fuel fd deadline env (Suc n) l
     | r \<Rightarrow> Some r)"

definition sleeps :: "(nat \<Rightarrow> rat \<times> kernel) \<Rightarrow> bool" where
  "sleeps env \<longleftrightarrow> (\<forall>n. fst (env n) + POLL_INTERVAL_S \<le> fst (env (Suc n)))"

lemma acquire_round_cases:
  "\<exists>l' k'. acquire_round fd d now l k = (Acquired, l', k') \<or> acquire_round fd d now l k = (GaveUp ConcurrentWriterError, l', k')
     \<or> acquire_round fd d now l k = (Sleep, l', k') \<and> \<not> past now d"
  by (auto simp: acquire_round_def split: prod.split bool.split)

lemma sleeps_clock: "sleeps env \<Longrightarrow> fst (env 0) + of_nat n * POLL_INTERVAL_S \<le> fst (env n)"
proof (induction n)
  case (Suc n)
  then have "fst (env n) + POLL_INTERVAL_S \<le> fst (env (Suc n))" by (simp add: sleeps_def)
  with Suc show ?case by (simp add: algebra_simps)
qed simp

lemma acquire_loop_past:
  assumes "past (fst (env (n + m))) d"
  shows "\<exists>l' k' r. acquire_loop (Suc m) fd d env n l = Some (r, l', k') \<and> r \<in> {Acquired, GaveUp ConcurrentWriterError}"
  using assms
proof (induction m arbitrary: n)
  case 0
  then show ?case using acquire_round_cases [of fd d "fst (env n)" l "snd (env n)"] by auto
next
  case (Suc m)
  then have "past (fst (env (Suc n + m))) d" by simp
  from Suc.IH [OF this] show ?case using acquire_round_cases [of fd d "fst (env n)" l "snd (env n)"]
    unfolding acquire_loop.simps(2) [of "Suc m"] by auto
qed

text \<open>
  C38. Acquiring ends: with a finite timeout the loop takes the lock or raises, after at most one
  round more than the timeout has poll intervals.
\<close>

theorem acquire_terminates:
  assumes "sleeps env" and "now \<le> fst (env 0)"
  shows "\<exists>r l' k'. acquire_loop (Suc (nat \<lceil>t / POLL_INTERVAL_S\<rceil>)) fd (deadline_at now (Finite t)) env 0 l = Some (r, l', k')
    \<and> r \<in> {Acquired, GaveUp ConcurrentWriterError}"
proof -
  let ?m = "nat \<lceil>t / POLL_INTERVAL_S\<rceil>"
  have "t / POLL_INTERVAL_S \<le> of_nat ?m" by (simp add: real_nat_ceiling_ge of_nat_ceiling)
  then have "t \<le> of_nat ?m * POLL_INTERVAL_S" by (simp add: POLL_INTERVAL_S_def field_simps)
  with sleeps_clock [OF assms(1), of ?m] assms(2) have "past (fst (env (0 + ?m))) (deadline_at now (Finite t))"
    by (simp add: past_def deadline_at_def)
  from acquire_loop_past [where m = ?m and n = 0 and env = env, OF this] show ?thesis by blast
qed

text \<open>
  C39. A lock that becomes free is taken: if the lock is free in a round that starts before the
  deadline has passed, the loop ends by that round with the lock held.
\<close>

theorem free_lock_is_acquired:
  assumes "\<forall>m < n. \<not> past (fst (env m)) d" and "k_open (snd (env n)) fd = Some p" and "k_owner (snd (env n)) p = None"
  shows "\<exists>l' k'. acquire_loop (Suc n) fd d env 0 l = Some (Acquired, l', k') \<and> held l'"
proof -
  have "\<exists>l' k'. acquire_loop (Suc (n - m)) fd d env m l = Some (Acquired, l', k') \<and> held l'" if "m \<le> n" for m
    using that
  proof (induction "n - m" arbitrary: m)
    case 0
    then have "m = n" by simp
    with assms(2, 3) show ?case by (simp add: acquire_round_def os_try_lock_def held_def)
  next
    case (Suc x)
    then have m: "m < n" "n - m = Suc (n - Suc m)" by linarith+
    then have "x = n - Suc m" "Suc m \<le> n" using Suc.hyps(2) by simp_all
    from Suc.hyps(1) [OF this] have ih: "\<exists>l' k'. acquire_loop (Suc (n - Suc m)) fd d env (Suc m) l = Some (Acquired, l', k') \<and> held l'" .
    have np: "\<not> past (fst (env m)) d" using assms(1) m(1) by blast
    show ?case
    proof (cases "os_try_lock fd (snd (env m))")
      case (Pair b k)
      with np ih show ?thesis unfolding m(2) by (cases b) (simp_all add: acquire_round_def held_def)
    qed
  qed
  from this [of 0] show ?thesis by simp
qed

text \<open>
  C40. The timeout \<open>nan\<close> passes the check of the environment variable, and with it the loop never
  gives up: while another handle holds the lock, no number of rounds ends it.
\<close>

theorem nan_timeout_never_gives_up:
  assumes "\<forall>n. \<exists>p owner. k_open (snd (env n)) fd = Some p \<and> k_owner (snd (env n)) p = Some owner \<and> owner \<noteq> fd"
  shows "lodedb_lock_timeout_from_env [(''LODEDB_PERSIST_LOCK_TIMEOUT'', ''nan'')] = Inr Nan
    \<and> acquire_loop fuel fd (deadline_at now Nan) env n l = None"
proof
  show "lodedb_lock_timeout_from_env [(''LODEDB_PERSIST_LOCK_TIMEOUT'', ''nan'')] = Inr Nan" by code_simp
  show "acquire_loop fuel fd (deadline_at now Nan) env n l = None"
  proof (induction fuel arbitrary: n)
    case (Suc fuel)
    obtain p owner where "k_open (snd (env n)) fd = Some p" "k_owner (snd (env n)) p = Some owner" "owner \<noteq> fd" using assms by blast
    then have "acquire_round fd (deadline_at now Nan) (fst (env n)) l (snd (env n)) = (Sleep, l, snd (env n))"
      by (simp add: acquire_round_def os_try_lock_def past_def deadline_at_def)
    then show ?case using Suc by simp
  qed simp
qed

section \<open>A sample run\<close>

definition sample_dirs :: "nat \<Rightarrow> path" where "sample_dirs i = [''db'']"

definition sample_world :: world where
  "sample_world = step_round 1 (step_enter 1 DEFAULT_LOCK_TIMEOUT_S (step_round 0 (step_enter 0 DEFAULT_LOCK_TIMEOUT_S (world_init sample_dirs))))"

lemma sample_reachable: "reachable sample_dirs sample_world" "held (h_lock (w_handles sample_world 0))"
proof -
  let ?w0 = "world_init sample_dirs"
  let ?w1 = "step_enter 0 DEFAULT_LOCK_TIMEOUT_S ?w0"
  let ?w2 = "step_round 0 ?w1"
  let ?w3 = "step_enter 1 DEFAULT_LOCK_TIMEOUT_S ?w2"
  note defs = step_enter_def step_round_def acquire_enter_def acquire_round_def os_open_def os_try_lock_def world_init_def writer_lock_def Let_def
  have "reachable sample_dirs ?w0" by (rule reachable.init)
  moreover have "lock_step ?w0 ?w1" by (rule lock_step.enter) (simp add: world_init_def)
  moreover have "lock_step ?w1 ?w2" by (rule lock_step.poll)
  moreover have "lock_step ?w2 ?w3" by (rule lock_step.enter) (simp add: defs)
  moreover have "lock_step ?w3 sample_world" unfolding sample_world_def by (rule lock_step.poll)
  ultimately show "reachable sample_dirs sample_world" using reachable.step by metis
  show "held (h_lock (w_handles sample_world 0))"
    by (simp add: sample_world_def defs held_def sample_dirs_def past_def deadline_at_def DEFAULT_LOCK_TIMEOUT_S_def)
qed

theorem single_writer_witness:
  "reachable sample_dirs sample_world \<and> held (h_lock (w_handles sample_world 0)) \<and> \<not> held (h_lock (w_handles sample_world 1))"
  using single_writer [OF sample_reachable(1), of 0 1] sample_reachable by (simp add: sample_dirs_def)

definition sample_env :: "fd option \<Rightarrow> nat \<Rightarrow> rat \<times> kernel" where
  "sample_env owner n = (of_nat n / 20, \<lparr> k_open = [1 \<mapsto> [''l'']], k_owner = (\<lambda>p. if p = [''l''] then owner else None), k_next = 2 \<rparr>)"

theorem acquire_terminates_witness:
  "\<exists>r l' k'. acquire_loop (Suc (nat \<lceil>(1 :: rat) / POLL_INTERVAL_S\<rceil>)) 1 (deadline_at 0 (Finite 1)) (sample_env (Some 0)) 0 (writer_lock [''db'']) = Some (r, l', k')
    \<and> r \<in> {Acquired, GaveUp ConcurrentWriterError}"
  by (rule acquire_terminates) (simp_all add: sleeps_def sample_env_def POLL_INTERVAL_S_def add_divide_distrib)

theorem free_lock_is_acquired_witness:
  "\<exists>l' k'. acquire_loop (Suc 0) 1 (Finite 1) (sample_env None) 0 (writer_lock [''db'']) = Some (Acquired, l', k') \<and> held l'"
  by (rule free_lock_is_acquired) (simp_all add: sample_env_def)

theorem nan_timeout_never_gives_up_witness:
  "acquire_loop 1000 1 (deadline_at 0 Nan) (sample_env (Some 0)) 0 (writer_lock [''db'']) = None"
proof -
  have "\<forall>n. \<exists>p owner. k_open (snd (sample_env (Some 0) n)) 1 = Some p \<and> k_owner (snd (sample_env (Some 0) n)) p = Some owner \<and> owner \<noteq> 1"
    by (simp add: sample_env_def)
  from nan_timeout_never_gives_up [OF this] show ?thesis by blast
qed

end
