(* ===== verification/MetaFilter.thy ===== *)
theory MetaFilter
  imports PyNumber
begin

text \<open>
  The metadata filter language of \<open>engine/_predicate.py\<close>: validation and coercion of a filter
  given by a caller (\<open>walk\<close>), compilation into a predicate on stored metadata (\<open>compile_node\<close>),
  and a reference semantics \<open>sat\<close> the compiled predicate is proved equal to. A predicate returns
  \<open>bool res\<close>: a filter that skipped validation can make a comparison raise.
\<close>

section \<open>Definitions\<close>

type_synonym meta = "(string, string) dict"
type_synonym predicate = "meta \<Rightarrow> bool res"

definition ORDERED_OPERATORS :: "string list" where
  "ORDERED_OPERATORS = [''$gt'', ''$gte'', ''$lt'', ''$lte'']"

definition COMPARISON_OPERATORS :: "string list" where
  "COMPARISON_OPERATORS = [''$eq'', ''$ne'', ''$in'', ''$nin'', ''$exists''] @ ORDERED_OPERATORS"

definition LOGICAL_OPERATORS :: "string list" where
  "LOGICAL_OPERATORS = [''$and'', ''$or'', ''$not'']"

definition MAX_DEPTH :: nat where
  "MAX_DEPTH = 32"

fun sdk_stringify :: "pyval \<Rightarrow> string res" where
  "sdk_stringify (PBool b) = Inr (if b then ''true'' else ''false'')"
| "sdk_stringify PNone = Inr []"
| "sdk_stringify (PStr s) = Inr (py_str (PStr s))"
| "sdk_stringify (PInt i) = Inr (py_str (PInt i))"
| "sdk_stringify (PFloat r) = Inr (py_str (PFloat r))"
| "sdk_stringify _ = Inl (ValueError ''filter operand must be a string, number, boolean, or null'')"

fun engine_stringify :: "pyval \<Rightarrow> string res" where
  "engine_stringify PNone = Inr []"
| "engine_stringify (PBool b) = Inr (py_str (PBool b))"
| "engine_stringify (PInt i) = Inr (py_str (PInt i))"
| "engine_stringify (PFloat r) = Inr (py_str (PFloat r))"
| "engine_stringify (PStr s) = Inr (py_str (PStr s))"
| "engine_stringify _ = Inl (ValueError ''filter operand must be a string, number, boolean, or null'')"

fun is_mapping :: "pyval \<Rightarrow> bool" where
  "is_mapping (PDict _) = True"
| "is_mapping _ = False"

fun is_list_or_tuple :: "pyval \<Rightarrow> bool" where
  "is_list_or_tuple (PList _) = True"
| "is_list_or_tuple (PTuple _) = True"
| "is_list_or_tuple _ = False"

definition scalar :: "(pyval \<Rightarrow> string res) \<Rightarrow> pyval \<Rightarrow> pyval res" where
  "scalar stringify value =
     (if is_mapping value \<or> is_list_or_tuple value
      then Inl (ValueError ''filter operand must be a scalar value'')
      else res_bind (stringify value) (\<lambda>s. Inr (PStr s)))"

text \<open>Items of an operand list; \<open>None\<close> when the operand is not a list or tuple.\<close>

fun list_items :: "pyval \<Rightarrow> pyval list option" where
  "list_items (PList xs) = Some xs"
| "list_items (PTuple xs) = Some xs"
| "list_items _ = None"

definition validate_operand :: "(pyval \<Rightarrow> string res) \<Rightarrow> string \<Rightarrow> pyval \<Rightarrow> pyval res" where
  "validate_operand stringify op operand =
     (if op = ''$exists''
      then (case operand of PBool _ \<Rightarrow> Inr operand
            | _ \<Rightarrow> Inl (ValueError ''$exists requires a boolean''))
      else if op \<in> {''$in'', ''$nin''}
      then (case list_items operand of
              None \<Rightarrow> Inl (ValueError ''operator requires a non-empty list'')
            | Some xs \<Rightarrow>
                (if xs = [] then Inl (ValueError ''operator requires a non-empty list'')
                 else res_bind (res_mapM (scalar stringify) xs) (\<lambda>ys. Inr (PTuple ys))))
      else scalar stringify operand)"

definition walk_operator :: "(pyval \<Rightarrow> string res) \<Rightarrow> pyval \<Rightarrow> pyval \<Rightarrow> pyval res" where
  "walk_operator stringify op operand =
     (case op of
        PStr o' \<Rightarrow>
          (if o' \<notin> set COMPARISON_OPERATORS then Inl (ValueError ''unsupported operator for field'')
           else validate_operand stringify o' operand)
      | _ \<Rightarrow> Inl (ValueError ''unsupported operator for field''))"

definition walk_field :: "(pyval \<Rightarrow> string res) \<Rightarrow> pyval \<Rightarrow> pyval res" where
  "walk_field stringify spec =
     (case spec of
        PDict kvs \<Rightarrow>
          (if kvs = [] then Inl (ValueError ''operator map must be non-empty'')
           else res_bind (dict_build (walk_operator stringify) kvs) (\<lambda>operators. Inr (PDict operators)))
      | _ \<Rightarrow> scalar stringify spec)"

lemma size_dict_value [termination_simp]:
  "(k, v) \<in> set kvs \<Longrightarrow> size v < size (PDict kvs)"
  by (induction kvs) auto

lemma size_list_item [termination_simp]: "x \<in> set xs \<Longrightarrow> size x < size (PList xs)"
  by (induction xs) auto

function (sequential) walk :: "(pyval \<Rightarrow> string res) \<Rightarrow> nat \<Rightarrow> pyval \<Rightarrow> pyval res"
  and walk_logical :: "(pyval \<Rightarrow> string res) \<Rightarrow> nat \<Rightarrow> string \<Rightarrow> pyval \<Rightarrow> pyval res" where
  "walk stringify depth node =
     (if depth > MAX_DEPTH then Inl (ValueError ''filter is nested too deeply'')
      else case node of
        PDict kvs \<Rightarrow>
          (if kvs = [] then Inl (ValueError ''filter must be a non-empty object'')
           else res_bind
             (dict_build (\<lambda>key spec.
                (case key of
                   PStr k \<Rightarrow>
                     (if blank k then Inl (ValueError ''filter keys must be non-blank strings'')
                      else if k \<in> set LOGICAL_OPERATORS then walk_logical stringify depth k spec
                      else if py_startswith k ''$''
                      then Inl (ValueError ''unsupported filter operator at field level'')
                      else walk_field stringify spec)
                 | _ \<Rightarrow> Inl (ValueError ''filter keys must be non-blank strings''))) kvs)
             (\<lambda>r. Inr (PDict r)))
      | _ \<Rightarrow> Inl (ValueError ''filter must be an object''))"
| "walk_logical stringify depth op spec =
     (if op = ''$not'' then walk stringify (depth + 1) spec
      else case spec of
        PList subs \<Rightarrow>
          (if subs = [] then Inl (ValueError ''operator requires a non-empty list of filters'')
           else res_bind (res_mapM (walk stringify (depth + 1)) subs) (\<lambda>ys. Inr (PList ys)))
      | _ \<Rightarrow> Inl (ValueError ''operator requires a non-empty list of filters''))"
  by pat_completeness auto
termination
  by (relation "measure (\<lambda>x. case x of Inl (s, d, n) \<Rightarrow> 2 * size n | Inr (s, d, op, n) \<Rightarrow> 2 * size n + 1)")
    (auto dest!: size_dict_value size_list_item)

declare walk.simps [simp del] walk_logical.simps [simp del]

definition validate_metadata_filter :: "pyval \<Rightarrow> pyval res" where
  "validate_metadata_filter metadata =
     (if \<not> is_mapping metadata \<or> metadata = PDict []
      then Inl (ValueError ''filter.metadata must be a nonempty object'')
      else walk engine_stringify 0 metadata)"

definition coerce_sdk_filter :: "pyval \<Rightarrow> pyval res" where
  "coerce_sdk_filter metadata = walk sdk_stringify 0 metadata"

text \<open>Compilation.\<close>

datatype cmp = Gt | Ge | Lt | Le

definition ORDERED_CMP :: "string \<Rightarrow> cmp res" where
  "ORDERED_CMP op =
     (if op = ''$gt'' then Inr Gt else if op = ''$gte'' then Inr Ge
      else if op = ''$lt'' then Inr Lt else if op = ''$lte'' then Inr Le
      else Inl (KeyError op))"

fun cmp_str :: "cmp \<Rightarrow> string \<Rightarrow> string \<Rightarrow> bool" where
  "cmp_str Gt a b = (a > b)"
| "cmp_str Ge a b = (a \<ge> b)"
| "cmp_str Lt a b = (a < b)"
| "cmp_str Le a b = (a \<le> b)"

fun cmp_float :: "cmp \<Rightarrow> pyfloat \<Rightarrow> pyfloat \<Rightarrow> bool" where
  "cmp_float Gt a b = float_less b a"
| "cmp_float Ge a b = (float_less b a \<or> float_eq a b)"
| "cmp_float Lt a b = float_less a b"
| "cmp_float Le a b = (float_less a b \<or> float_eq a b)"

text \<open>A str compared with a value that is not a str raises.\<close>

definition compare_str :: "cmp \<Rightarrow> string \<Rightarrow> pyval \<Rightarrow> bool res" where
  "compare_str c stored v =
     (case v of PStr t \<Rightarrow> Inr (cmp_str c stored t) | _ \<Rightarrow> Inl (TypeError ''comparison not supported''))"

definition drop_nan :: "pyfloat option \<Rightarrow> pyfloat option" where
  "drop_nan x = (case x of Some Nan \<Rightarrow> None | _ \<Rightarrow> x)"

fun as_number :: "pyval \<Rightarrow> pyfloat option res" where
  "as_number (PStr s) = Inr (drop_nan (py_float s))"
| "as_number (PFloat r) = Inr (drop_nan (py_float r))"
| "as_number (PBool b) = Inr (Some (Finite (if b then 1 else 0)))"
| "as_number (PInt i) =
     (case round64 (of_int i) of
        Finite q \<Rightarrow> Inr (Some (Finite q))
      | _ \<Rightarrow> Inl (OverflowError ''int too large to convert to float''))"
| "as_number _ = Inr None"

definition meta_get :: "meta \<Rightarrow> pyval \<Rightarrow> string option" where
  "meta_get m field = (case field of PStr f \<Rightarrow> map_of m f | _ \<Rightarrow> None)"

text \<open>\<open>value in operand\<close>; the absent key is \<open>None\<close>.\<close>

fun py_in :: "string option \<Rightarrow> pyval \<Rightarrow> bool res" where
  "py_in v (PTuple xs) = Inr (\<exists>s \<in> set_option v. PStr s \<in> set xs)"
| "py_in v (PList xs) = Inr (\<exists>s \<in> set_option v. PStr s \<in> set xs)"
| "py_in v (PDict kvs) = Inr (\<exists>s \<in> set_option v. PStr s \<in> set (dkeys kvs))"
| "py_in (Some s) (PStr t) = Inr (sublist s t)"
| "py_in _ _ = Inl (TypeError ''argument is not iterable'')"

definition compile_ordered :: "pyval \<Rightarrow> string \<Rightarrow> pyval \<Rightarrow> predicate res" where
  "compile_ordered field op operand =
     res_bind (ORDERED_CMP op) (\<lambda>c.
     res_bind (as_number operand) (\<lambda>operand_number.
       (case operand_number of
          None \<Rightarrow> Inr (\<lambda>m. case meta_get m field of None \<Rightarrow> Inr False
                           | Some stored \<Rightarrow> compare_str c stored operand)
        | Some vn \<Rightarrow> Inr (\<lambda>m. case meta_get m field of None \<Rightarrow> Inr False
                           | Some stored \<Rightarrow>
                               res_bind (as_number (PStr stored)) (\<lambda>stored_number.
                                 case stored_number of None \<Rightarrow> compare_str c stored operand
                                 | Some sn \<Rightarrow> Inr (cmp_float c sn vn))))))"

definition get_eq :: "pyval \<Rightarrow> pyval \<Rightarrow> meta \<Rightarrow> bool" where
  "get_eq field v m = (\<exists>s \<in> set_option (meta_get m field). PStr s = v)"

definition compile_operator :: "pyval \<Rightarrow> string \<Rightarrow> pyval \<Rightarrow> predicate res" where
  "compile_operator field op operand =
     (if op = ''$eq'' then Inr (\<lambda>m. Inr (get_eq field operand m))
      else if op = ''$ne'' then Inr (\<lambda>m. Inr (\<not> get_eq field operand m))
      else if op = ''$in'' then Inr (\<lambda>m. py_in (meta_get m field) operand)
      else if op = ''$nin'' then Inr (\<lambda>m. res_bind (py_in (meta_get m field) operand) (\<lambda>b. Inr (\<not> b)))
      else if op = ''$exists''
      then (if py_truthy operand then Inr (\<lambda>m. Inr (meta_get m field \<noteq> None))
            else Inr (\<lambda>m. Inr (meta_get m field = None)))
      else compile_ordered field op operand)"

fun all_loop :: "predicate list \<Rightarrow> predicate" where
  "all_loop [] m = Inr True"
| "all_loop (p # ps) m = res_bind (p m) (\<lambda>b. if \<not> b then Inr False else all_loop ps m)"

fun any_loop :: "predicate list \<Rightarrow> predicate" where
  "any_loop [] m = Inr False"
| "any_loop (p # ps) m = res_bind (p m) (\<lambda>b. if b then Inr True else any_loop ps m)"

definition compile_all :: "predicate list \<Rightarrow> predicate" where
  "compile_all predicates = (if length predicates = 1 then hd predicates else all_loop predicates)"

definition compile_any :: "predicate list \<Rightarrow> predicate" where
  "compile_any predicates = any_loop predicates"

definition op_name :: "pyval \<Rightarrow> string res" where
  "op_name op = (case op of PStr s \<Rightarrow> Inr s | _ \<Rightarrow> Inl (KeyError ''operator''))"

definition compile_field :: "pyval \<Rightarrow> pyval \<Rightarrow> predicate res" where
  "compile_field field spec =
     (case spec of
        PDict kvs \<Rightarrow>
          res_bind (res_mapM (\<lambda>(op, operand).
              res_bind (op_name op) (\<lambda>o'. compile_operator field o' operand)) kvs)
            (\<lambda>ps. Inr (compile_all ps))
      | _ \<Rightarrow> Inr (\<lambda>m. Inr (get_eq field spec m)))"

lemma py_iter_size: "py_iter v = Inr xs \<Longrightarrow> x \<in> set xs \<Longrightarrow> size x \<le> size v"
proof (induction v rule: py_iter.induct)
  case (2 ys)
  then show ?case by (induction ys arbitrary: xs) auto
next
  case (3 kvs)
  then show ?case by (induction kvs arbitrary: xs) fastforce+
next
  case (1 ys)
  then show ?case by (induction ys arbitrary: xs) auto
qed auto

function (sequential) compile_node :: "pyval \<Rightarrow> predicate res" where
  "compile_node (PDict kvs) =
     res_bind (res_mapM (\<lambda>(key, spec).
         if key = PStr ''$and''
         then res_bind (py_iter spec) (\<lambda>subs. res_bind (res_mapM compile_node subs) (\<lambda>ps. Inr (compile_all ps)))
         else if key = PStr ''$or''
         then res_bind (py_iter spec) (\<lambda>subs. res_bind (res_mapM compile_node subs) (\<lambda>ps. Inr (compile_any ps)))
         else if key = PStr ''$not''
         then res_bind (compile_node spec) (\<lambda>inner. Inr (\<lambda>m. res_bind (inner m) (\<lambda>b. Inr (\<not> b))))
         else compile_field key spec) kvs)
       (\<lambda>ps. Inr (compile_all ps))"
| "compile_node _ = Inl (AttributeError ''items'')"
  by pat_completeness auto
termination
proof (relation "measure size")
qed (auto dest!: size_dict_value py_iter_size)

definition compile_metadata_filter :: "pyval \<Rightarrow> predicate res" where
  "compile_metadata_filter metadata_filter = compile_node metadata_filter"

definition matches_metadata_filter :: "meta \<Rightarrow> pyval \<Rightarrow> bool res" where
  "matches_metadata_filter document_metadata metadata_filter =
     res_bind (compile_node metadata_filter) (\<lambda>p. p document_metadata)"

text \<open>
  Reference semantics: the meaning of a validated filter on one document's metadata, with the
  ordered operators comparing as numbers when both sides read as numbers and as strings otherwise.
\<close>

definition ordered_holds :: "cmp \<Rightarrow> string \<Rightarrow> string \<Rightarrow> bool" where
  "ordered_holds c stored v =
     (case (drop_nan (py_float stored), drop_nan (py_float v)) of
        (Some a, Some b) \<Rightarrow> cmp_float c a b
      | _ \<Rightarrow> cmp_str c stored v)"

fun stored_in :: "string option \<Rightarrow> pyval \<Rightarrow> bool" where
  "stored_in (Some s) (PTuple xs) = (PStr s \<in> set xs)"
| "stored_in _ _ = False"

fun stored_cmp :: "cmp \<Rightarrow> string option \<Rightarrow> pyval \<Rightarrow> bool" where
  "stored_cmp c (Some s) (PStr v) = ordered_holds c s v"
| "stored_cmp c _ _ = False"

definition sat_operator :: "string option \<Rightarrow> string \<Rightarrow> pyval \<Rightarrow> bool" where
  "sat_operator stored op operand =
     (if op = ''$eq'' then map_option PStr stored = Some operand
      else if op = ''$ne'' then map_option PStr stored \<noteq> Some operand
      else if op = ''$in'' then stored_in stored operand
      else if op = ''$nin'' then \<not> stored_in stored operand
      else if op = ''$exists'' then (stored \<noteq> None) = (operand = PBool True)
      else if op = ''$gt'' then stored_cmp Gt stored operand
      else if op = ''$gte'' then stored_cmp Ge stored operand
      else if op = ''$lt'' then stored_cmp Lt stored operand
      else stored_cmp Le stored operand)"

fun key_text :: "pyval \<Rightarrow> string" where
  "key_text (PStr s) = s"
| "key_text _ = []"

definition sat_field :: "string option \<Rightarrow> pyval \<Rightarrow> bool" where
  "sat_field stored spec =
     (case spec of
        PDict kvs \<Rightarrow> list_all (\<lambda>(op, operand). sat_operator stored (key_text op) operand) kvs
      | _ \<Rightarrow> map_option PStr stored = Some spec)"

function (sequential) sat :: "meta \<Rightarrow> pyval \<Rightarrow> bool" and sat_entry :: "meta \<Rightarrow> string \<Rightarrow> pyval \<Rightarrow> bool" where
  "sat m (PDict kvs) = list_all (\<lambda>(key, spec). sat_entry m (key_text key) spec) kvs"
| "sat m _ = False"
| "sat_entry m k spec =
     (if k = ''$not'' then \<not> sat m spec
      else case spec of
        PList subs \<Rightarrow> (if k = ''$and'' then list_all (sat m) subs else list_ex (sat m) subs)
      | _ \<Rightarrow> sat_field (map_of m k) spec)"
  by pat_completeness auto
termination
  by (relation "measure (\<lambda>x. case x of Inl (m, n) \<Rightarrow> 2 * size n | Inr (m, k, n) \<Rightarrow> 2 * size n + 1)")
    (auto dest: size_dict_value size_list_item simp del: pyval.size)

declare sat_entry.simps [simp del]

text \<open>The grammar a validated filter is in.\<close>

definition canon_operand :: "string \<Rightarrow> pyval \<Rightarrow> bool" where
  "canon_operand op operand =
     (if op = ''$exists'' then operand \<in> {PBool True, PBool False}
      else if op \<in> {''$in'', ''$nin''}
      then (case operand of PTuple xs \<Rightarrow> xs \<noteq> [] \<and> list_all py_is_str xs | _ \<Rightarrow> False)
      else py_is_str operand)"

definition canon_field :: "pyval \<Rightarrow> bool" where
  "canon_field spec =
     (case spec of
        PDict kvs \<Rightarrow> kvs \<noteq> [] \<and> dict_ok kvs \<and>
          list_all (\<lambda>(op, operand). py_is_str op \<and> key_text op \<in> set COMPARISON_OPERATORS
                      \<and> canon_operand (key_text op) operand) kvs
      | _ \<Rightarrow> py_is_str spec)"

function (sequential) canon :: "nat \<Rightarrow> pyval \<Rightarrow> bool" and canon_logical :: "nat \<Rightarrow> string \<Rightarrow> pyval \<Rightarrow> bool" where
  "canon d (PDict kvs) =
     (d \<le> MAX_DEPTH \<and> kvs \<noteq> [] \<and> dict_ok kvs \<and>
      list_all (\<lambda>(key, spec). py_is_str key \<and> \<not> blank (key_text key) \<and>
        (if key_text key \<in> set LOGICAL_OPERATORS then canon_logical d (key_text key) spec
         else \<not> py_startswith (key_text key) ''$'' \<and> canon_field spec)) kvs)"
| "canon d _ = False"
| "canon_logical d op spec =
     (if op = ''$not'' then canon (d + 1) spec
      else case spec of PList subs \<Rightarrow> subs \<noteq> [] \<and> list_all (canon (d + 1)) subs | _ \<Rightarrow> False)"
  by pat_completeness auto
termination
  by (relation "measure (\<lambda>x. case x of Inl (d, n) \<Rightarrow> 2 * size n | Inr (d, op, n) \<Rightarrow> 2 * size n + 1)")
    (auto dest: size_dict_value size_list_item simp del: pyval.size)

declare canon_logical.simps [simp del]

section \<open>Validated filters are in the grammar\<close>

lemma scalar_Inr: "scalar s v = Inr r \<Longrightarrow> \<exists>t. r = PStr t"
  by (auto simp: scalar_def split: if_splits)

lemma scalar_fixed: "(\<And>x. s (PStr x) = Inr x) \<Longrightarrow> scalar s (PStr t) = Inr (PStr t)"
  by (simp add: scalar_def)

lemma py_is_str_iff: "py_is_str v \<longleftrightarrow> (\<exists>t. v = PStr t)"
  by (cases v) auto

lemma scalars_canon:
  assumes "res_mapM (scalar s) xs = Inr ys" and "xs \<noteq> []"
  shows "ys \<noteq> [] \<and> list_all py_is_str ys"
proof -
  have "py_is_str y" if "y \<in> set ys" for y
    using res_mapM_setD [OF assms(1) that] scalar_Inr by (fastforce simp: py_is_str_iff)
  moreover have "ys \<noteq> []" using res_mapM_length [OF assms(1)] assms(2) by auto
  ultimately show ?thesis by (simp add: list_all_iff)
qed

lemma validate_operand_canon:
  assumes "validate_operand s op v = Inr r"
  shows "canon_operand op r"
proof -
  consider (exists) "op = ''$exists''" | (mem) "op \<in> {''$in'', ''$nin''}"
    | (other) "op \<noteq> ''$exists''" "op \<notin> {''$in'', ''$nin''}" by blast
  then show ?thesis
  proof cases
    case exists
    with assms show ?thesis by (cases v) (auto simp: validate_operand_def canon_operand_def)
  next
    case mem
    with assms obtain xs ys where "res_mapM (scalar s) xs = Inr ys" "xs \<noteq> []" "r = PTuple ys"
      by (cases "list_items v") (auto simp: validate_operand_def split: if_splits)
    with scalars_canon mem show ?thesis by (auto simp: canon_operand_def)
  next
    case other
    with assms scalar_Inr [of s v r] show ?thesis
      by (auto simp: validate_operand_def canon_operand_def)
  qed
qed

lemma validate_operand_fixed:
  assumes "canon_operand op v" and "\<And>x. s (PStr x) = Inr x"
  shows "validate_operand s op v = Inr v"
proof -
  have "res_mapM (scalar s) xs = Inr xs" if "list_all py_is_str xs" for xs
    using that by (intro res_mapM_id) (auto simp: list_all_iff py_is_str_iff scalar_fixed [OF assms(2)])
  with assms(1) scalar_fixed [OF assms(2)] show ?thesis
    by (auto simp: validate_operand_def canon_operand_def py_is_str_iff split: if_splits pyval.splits)
qed

lemma walk_field_canon:
  assumes "walk_field s spec = Inr r"
  shows "canon_field r"
proof (cases "is_mapping spec")
  case True
  then obtain kvs where spec: "spec = PDict kvs" by (cases spec) auto
  with assms obtain ops where ops: "dict_build (walk_operator s) kvs = Inr ops" "kvs \<noteq> []" "r = PDict ops"
    by (auto simp: walk_field_def split: if_splits)
  have "py_is_str k \<and> key_text k \<in> set COMPARISON_OPERATORS \<and> canon_operand (key_text k) w"
    if "(k, w) \<in> set ops" for k w
    using dict_build_Inr(3) [OF ops(1) that] validate_operand_canon
    by (fastforce simp: walk_operator_def split: pyval.splits if_splits)
  with dict_build_Inr(1, 2) [OF ops(1)] ops(2, 3) show ?thesis
    by (auto simp: canon_field_def list_all_iff)
next
  case False
  with assms have "scalar s spec = Inr r" by (cases spec) (auto simp: walk_field_def)
  with scalar_Inr show ?thesis by (fastforce simp: canon_field_def)
qed

lemma walk_field_fixed:
  assumes "canon_field r" and "\<And>x. s (PStr x) = Inr x"
  shows "walk_field s r = Inr r"
proof (cases r)
  case (PDict kvs)
  with assms(1) have "walk_operator s k v = Inr v" if "(k, v) \<in> set kvs" for k v
    using that validate_operand_fixed [OF _ assms(2)]
    by (fastforce simp: canon_field_def walk_operator_def list_all_iff py_is_str_iff)
  with PDict assms(1) show ?thesis
    by (simp add: walk_field_def canon_field_def dict_build_fixed)
qed (use assms in \<open>auto simp: walk_field_def canon_field_def scalar_fixed\<close>)

lemma walk_canon:
  "walk s d n = Inr r \<Longrightarrow> canon d r"
  "walk_logical s d op spec = Inr q \<Longrightarrow> canon_logical d op q"
proof (induction s d n and s d op spec arbitrary: r and q rule: walk_walk_logical.induct)
  case (1 s d n)
  from 1(2) obtain kvs where n: "n = PDict kvs" and d: "\<not> d > MAX_DEPTH" and ne: "kvs \<noteq> []"
    by (auto simp: walk.simps split: if_splits pyval.splits)
  let ?g = "\<lambda>key spec. case key of
       PStr k \<Rightarrow>
         (if blank k then Inl (ValueError ''filter keys must be non-blank strings'')
          else if k \<in> set LOGICAL_OPERATORS then walk_logical s d k spec
          else if py_startswith k ''$''
          then Inl (ValueError ''unsupported filter operator at field level'')
          else walk_field s spec)
     | _ \<Rightarrow> Inl (ValueError ''filter keys must be non-blank strings'')"
  from 1(2) n d ne obtain ops where ops: "dict_build ?g kvs = Inr ops" and r: "r = PDict ops"
    by (auto simp: walk.simps)
  have item: "py_is_str k \<and> \<not> blank (key_text k) \<and>
      (if key_text k \<in> set LOGICAL_OPERATORS then canon_logical d (key_text k) w
       else \<not> py_startswith (key_text k) ''$'' \<and> canon_field w)" if "(k, w) \<in> set ops" for k w
  proof -
    from dict_build_Inr(3) [OF ops that] obtain v where v: "(k, v) \<in> set kvs" and g: "?g k v = Inr w"
      by blast
    then obtain t where t: "k = PStr t" by (cases k) auto
    show ?thesis
      using g 1(1) [OF d n ne v t] walk_field_canon [of s v w]
      by (auto simp: t split: if_splits)
  qed
  with dict_build_Inr(1, 2) [OF ops] ne d show ?case by (auto simp: r list_all_iff)
next
  case (2 s d op spec)
  show ?case
  proof (cases "op = ''$not''")
    case True
    with 2 show ?thesis by (simp add: walk_logical.simps canon_logical.simps)
  next
    case False
    with 2(3) obtain subs ys where spec: "spec = PList subs" "subs \<noteq> []"
      and ys: "res_mapM (walk s (d + 1)) subs = Inr ys" and q: "q = PList ys"
      by (auto simp: walk_logical.simps split: pyval.splits if_splits)
    have "canon (d + 1) y" if "y \<in> set ys" for y
      using res_mapM_setD [OF ys that] 2(2) [OF False spec] by blast
    moreover have "ys \<noteq> []" using res_mapM_length [OF ys] spec(2) by auto
    ultimately show ?thesis by (simp add: q False canon_logical.simps list_all_iff)
  qed
qed

lemma canon_item:
  "canon d (PDict kvs) \<Longrightarrow> (PStr t, v) \<in> set kvs \<Longrightarrow>
     \<not> blank t \<and> (if t \<in> set LOGICAL_OPERATORS then canon_logical d t v
                  else \<not> py_startswith t ''$'' \<and> canon_field v)"
  by (fastforce simp: list_all_iff)

lemma walk_fixed:
  "canon d r \<Longrightarrow> (\<And>x. s (PStr x) = Inr x) \<Longrightarrow> walk s d r = Inr r"
  "canon_logical d op q \<Longrightarrow> (\<And>x. s (PStr x) = Inr x) \<Longrightarrow> walk_logical s d op q = Inr q"
proof (induction d r and d op q rule: canon_canon_logical.induct)
  case (1 d kvs)
  let ?g = "\<lambda>key spec. case key of
       PStr k \<Rightarrow>
         (if blank k then Inl (ValueError ''filter keys must be non-blank strings'')
          else if k \<in> set LOGICAL_OPERATORS then walk_logical s d k spec
          else if py_startswith k ''$''
          then Inl (ValueError ''unsupported filter operator at field level'')
          else walk_field s spec)
     | _ \<Rightarrow> Inl (ValueError ''filter keys must be non-blank strings'')"
  have "?g k v = Inr v" if kv: "(k, v) \<in> set kvs" for k v
  proof -
    from 1(2) kv obtain t where t: "k = PStr t" by (auto simp: list_all_iff py_is_str_iff)
    show ?thesis
      using 1(1) [OF kv refl] canon_item [OF 1(2) kv [unfolded t]] 1(3) walk_field_fixed [of v s]
      by (auto simp: t)
  qed
  with 1(2) have "dict_build ?g kvs = Inr kvs" by (intro dict_build_fixed) auto
  with 1(2) show ?case by (auto simp: walk.simps)
next
  case (3 d op spec)
  show ?case
  proof (cases "op = ''$not''")
    case True
    with 3 show ?thesis by (simp add: walk_logical.simps canon_logical.simps)
  next
    case False
    with 3(3) obtain subs where spec: "spec = PList subs" "subs \<noteq> []" "list_all (canon (d + 1)) subs"
      by (auto simp: canon_logical.simps split: pyval.splits if_splits)
    have "res_mapM (walk s (d + 1)) subs = Inr subs"
      using 3(2) [OF False spec(1) _ _ 3(4)] spec(3) by (intro res_mapM_id) (auto simp: list_all_iff)
    with spec False show ?thesis by (simp add: walk_logical.simps)
  qed
qed simp_all

section \<open>The compiled predicate\<close>

abbreviation computes :: "predicate \<Rightarrow> (meta \<Rightarrow> bool) \<Rightarrow> bool" where
  "computes p \<phi> \<equiv> (\<forall>m. p m = Inr (\<phi> m))"

lemma all_loop_computes:
  "list_all2 computes ps \<phi>s \<Longrightarrow> all_loop ps m = Inr (list_all (\<lambda>\<phi>. \<phi> m) \<phi>s)"
  by (induction rule: list_all2_induct) auto

lemma any_loop_computes:
  "list_all2 computes ps \<phi>s \<Longrightarrow> any_loop ps m = Inr (list_ex (\<lambda>\<phi>. \<phi> m) \<phi>s)"
  by (induction rule: list_all2_induct) auto

lemma compile_all_computes:
  assumes "list_all2 computes ps \<phi>s"
  shows "compile_all ps m = Inr (list_all (\<lambda>\<phi>. \<phi> m) \<phi>s)"
proof (cases "length ps = 1")
  case True
  then obtain p where "ps = [p]" by (auto simp: length_Suc_conv)
  with assms show ?thesis by (auto simp: compile_all_def list_all2_Cons1)
next
  case False
  with all_loop_computes [OF assms] show ?thesis by (simp add: compile_all_def)
qed

text \<open>Compiling each entry of a list gives a predicate for each of them.\<close>

lemma mapM_computes:
  assumes "\<And>x. x \<in> set xs \<Longrightarrow> \<exists>p. f x = Inr p \<and> computes p (\<phi> x)"
  shows "\<exists>ps. res_mapM f xs = Inr ps \<and> list_all2 computes ps (map \<phi> xs)"
  using assms
proof (induction xs)
  case (Cons x xs)
  from Cons.prems obtain p where "f x = Inr p" "computes p (\<phi> x)" by (meson list.set_intros(1))
  moreover from Cons obtain ps where "res_mapM f xs = Inr ps" "list_all2 computes ps (map \<phi> xs)"
    by (meson list.set_intros(2))
  ultimately show ?case by auto
qed simp

lemma compile_ordered_computes:
  assumes "ORDERED_CMP op = Inr c"
  shows "\<exists>p. compile_ordered (PStr f) op (PStr v) = Inr p
      \<and> computes p (\<lambda>m. stored_cmp c (map_of m f) (PStr v))"
proof (cases "drop_nan (py_float v)")
  case None
  then have "ordered_holds c s v = cmp_str c s v" for s
    by (simp add: ordered_holds_def split: option.split)
  with None assms show ?thesis
    by (auto simp: compile_ordered_def meta_get_def compare_str_def split: option.split)
next
  case (Some b)
  then have "ordered_holds c s v = (case drop_nan (py_float s) of None \<Rightarrow> cmp_str c s v | Some a \<Rightarrow> cmp_float c a b)"
    for s by (simp add: ordered_holds_def split: option.split)
  with Some assms show ?thesis
    by (auto simp: compile_ordered_def meta_get_def compare_str_def split: option.split)
qed

lemma get_eq_iff: "get_eq (PStr f) v m \<longleftrightarrow> map_option PStr (map_of m f) = Some v"
  by (cases "map_of m f") (auto simp: get_eq_def meta_get_def)

lemma py_in_tuple: "py_in stored (PTuple xs) = Inr (stored_in stored (PTuple xs))"
  by (cases stored) auto

lemma compile_operator_computes:
  assumes "op \<in> set COMPARISON_OPERATORS" and "canon_operand op v"
  shows "\<exists>p. compile_operator (PStr f) op v = Inr p \<and> computes p (\<lambda>m. sat_operator (map_of m f) op v)"
proof -
  have ord: "\<exists>p. compile_operator (PStr f) op v = Inr p \<and> computes p (\<lambda>m. sat_operator (map_of m f) op v)"
    if "op \<in> set ORDERED_OPERATORS"
  proof -
    from that assms(2) obtain t where v: "v = PStr t"
      by (auto simp: canon_operand_def ORDERED_OPERATORS_def py_is_str_iff)
    from that have "\<exists>c. ORDERED_CMP op = Inr c \<and> (\<forall>st. sat_operator st op v = stored_cmp c st v)
        \<and> compile_operator (PStr f) op v = compile_ordered (PStr f) op v"
      by (auto simp: ORDERED_OPERATORS_def ORDERED_CMP_def sat_operator_def compile_operator_def)
    with compile_ordered_computes [of op _ f t] v show ?thesis by auto
  qed
  have mem: "\<exists>xs. v = PTuple xs" if "op \<in> {''$in'', ''$nin''}"
    using that assms(2) by (auto simp: canon_operand_def split: pyval.splits)
  have ex: "v = PBool True \<or> v = PBool False" if "op = ''$exists''"
    using that assms(2) by (simp add: canon_operand_def)
  consider "op \<in> set ORDERED_OPERATORS" | "op \<in> {''$eq'', ''$ne''}" | "op \<in> {''$in'', ''$nin''}" | "op = ''$exists''"
    using assms(1) by (auto simp: COMPARISON_OPERATORS_def)
  then show ?thesis
  proof cases
    case 2
    then show ?thesis by (auto simp: compile_operator_def sat_operator_def get_eq_iff)
  next
    case 3
    with mem obtain xs where "v = PTuple xs" by blast
    with 3 show ?thesis
      by (auto simp: compile_operator_def sat_operator_def meta_get_def py_in_tuple simp del: py_in.simps)
  next
    case 4
    with ex show ?thesis by (auto simp: compile_operator_def sat_operator_def meta_get_def)
  qed (rule ord)
qed

lemma compile_field_computes:
  assumes "canon_field spec"
  shows "\<exists>p. compile_field (PStr f) spec = Inr p \<and> computes p (\<lambda>m. sat_field (map_of m f) spec)"
proof (cases spec)
  case (PDict kvs)
  let ?f = "\<lambda>(op, operand). res_bind (op_name op) (\<lambda>o'. compile_operator (PStr f) o' operand)"
  let ?p = "\<lambda>(op, operand) m. sat_operator (map_of m f) (key_text op) operand"
  have "\<exists>p. ?f x = Inr p \<and> computes p (?p x)" if "x \<in> set kvs" for x
  proof -
    obtain k v where x: "x = (k, v)" by (cases x)
    from assms PDict have "\<forall>(op, operand) \<in> set kvs. py_is_str op \<and> key_text op \<in> set COMPARISON_OPERATORS
        \<and> canon_operand (key_text op) operand"
      by (simp add: canon_field_def list_all_iff)
    with that x have "py_is_str k" "key_text k \<in> set COMPARISON_OPERATORS" "canon_operand (key_text k) v"
      by auto
    with compile_operator_computes [of "key_text k" v f] show ?thesis
      by (auto simp: x op_name_def py_is_str_iff)
  qed
  from mapM_computes [of kvs ?f ?p, OF this] obtain ps
    where "res_mapM ?f kvs = Inr ps" "list_all2 computes ps (map ?p kvs)" by blast
  moreover have "list_all (\<lambda>\<phi>. \<phi> m) (map ?p kvs) = sat_field (map_of m f) spec" for m
    by (simp add: PDict sat_field_def list.pred_map o_def case_prod_beta')
  ultimately show ?thesis
    using compile_all_computes [of ps "map ?p kvs"] by (simp add: PDict compile_field_def)
qed (use assms in \<open>auto simp: canon_field_def compile_field_def sat_field_def get_eq_iff\<close>)

text \<open>One entry of a node, as the loop of \<open>_compile_node\<close> treats it.\<close>

definition compile_entry :: "pyval \<times> pyval \<Rightarrow> predicate res" where
  "compile_entry = (\<lambda>(key, spec).
     if key = PStr ''$and''
     then res_bind (py_iter spec) (\<lambda>subs. res_bind (res_mapM compile_node subs) (\<lambda>ps. Inr (compile_all ps)))
     else if key = PStr ''$or''
     then res_bind (py_iter spec) (\<lambda>subs. res_bind (res_mapM compile_node subs) (\<lambda>ps. Inr (compile_any ps)))
     else if key = PStr ''$not''
     then res_bind (compile_node spec) (\<lambda>inner. Inr (\<lambda>m. res_bind (inner m) (\<lambda>b. Inr (\<not> b))))
     else compile_field key spec)"

lemma compile_node_dict:
  "compile_node (PDict kvs) = res_bind (res_mapM compile_entry kvs) (\<lambda>ps. Inr (compile_all ps))"
  by (simp add: compile_entry_def)

lemma compile_subs_computes:
  assumes "\<And>x. x \<in> set subs \<Longrightarrow> \<exists>p. compile_node x = Inr p \<and> computes p (\<lambda>m. sat m x)"
    and "op \<in> {''$and'', ''$or''}"
  shows "\<exists>p. compile_entry (PStr op, PList subs) = Inr p \<and> computes p (\<lambda>m. sat_entry m op (PList subs))"
proof -
  from mapM_computes [of subs compile_node "\<lambda>x m. sat m x", OF assms(1)] obtain ps
    where ps: "res_mapM compile_node subs = Inr ps" "list_all2 computes ps (map (\<lambda>x m. sat m x) subs)"
    by blast
  have "compile_all ps m = Inr (list_all (sat m) subs)" "compile_any ps m = Inr (list_ex (sat m) subs)" for m
    using compile_all_computes [OF ps(2)] any_loop_computes [OF ps(2)]
    by (simp_all add: compile_any_def list.pred_map list_ex_iff list_all_iff)
  with assms(2) ps(1) show ?thesis by (auto simp: compile_entry_def sat_entry.simps)
qed

lemma compile_node_computes:
  "canon d r \<Longrightarrow> \<exists>p. compile_node r = Inr p \<and> computes p (\<lambda>m. sat m r)"
  "canon_logical d op q \<Longrightarrow> op \<in> set LOGICAL_OPERATORS \<Longrightarrow>
     \<exists>p. compile_entry (PStr op, q) = Inr p \<and> computes p (\<lambda>m. sat_entry m op q)"
proof (induction d r and d op q rule: canon_canon_logical.induct)
  case (1 d kvs)
  let ?p = "\<lambda>(key, spec) m. sat_entry m (key_text key) spec"
  have "\<exists>p. compile_entry x = Inr p \<and> computes p (?p x)" if x: "x \<in> set kvs" for x
  proof -
    from 1(2) x obtain t v where tv: "x = (PStr t, v)"
      by (cases x) (fastforce simp: list_all_iff py_is_str_iff)
    with x have kv: "(PStr t, v) \<in> set kvs" by simp
    show ?thesis
    proof (cases "t \<in> set LOGICAL_OPERATORS")
      case True
      with 1(1) [OF kv refl] canon_item [OF 1(2) kv] show ?thesis by (simp add: tv)
    next
      case False
      then have "t \<noteq> ''$and''" "t \<noteq> ''$or''" "t \<noteq> ''$not''" by (auto simp: LOGICAL_OPERATORS_def)
      moreover have c: "canon_field v" using canon_item [OF 1(2) kv] False by simp
      moreover have "\<nexists>subs. v = PList subs" using c by (auto simp: canon_field_def)
      ultimately show ?thesis
        using compile_field_computes [OF c, of t]
        by (cases v) (simp_all add: tv compile_entry_def sat_entry.simps)
    qed
  qed
  from mapM_computes [of kvs compile_entry ?p, OF this] obtain ps
    where "res_mapM compile_entry kvs = Inr ps" "list_all2 computes ps (map ?p kvs)" by blast
  moreover have "list_all (\<lambda>\<phi>. \<phi> m) (map ?p kvs) = sat m (PDict kvs)" for m
    by (simp add: list.pred_map o_def case_prod_beta')
  ultimately show ?case
    using compile_all_computes [of ps "map ?p kvs"] by (simp add: compile_node_dict del: compile_node.simps)
next
  case (3 d op spec)
  show ?case
  proof (cases "op = ''$not''")
    case True
    with 3 obtain p where "compile_node spec = Inr p" "computes p (\<lambda>m. sat m spec)"
      by (auto simp: canon_logical.simps)
    with True show ?thesis by (simp add: compile_entry_def sat_entry.simps)
  next
    case False
    with 3(3, 4) obtain subs where spec: "spec = PList subs" "list_all (canon (d + 1)) subs"
      and "op \<in> {''$and'', ''$or''}"
      by (auto simp: canon_logical.simps LOGICAL_OPERATORS_def split: pyval.splits if_splits)
    with compile_subs_computes [of subs op] 3(2) [OF False spec(1)] show ?thesis
      by (auto simp: list_all_iff)
  qed
qed simp_all

lemma validate_canon: "validate_metadata_filter f = Inr g \<Longrightarrow> canon 0 g"
  by (auto simp: validate_metadata_filter_def split: if_splits intro: walk_canon)

lemma coerce_canon: "coerce_sdk_filter f = Inr g \<Longrightarrow> canon 0 g"
  by (auto simp: coerce_sdk_filter_def intro: walk_canon)

lemma validate_canon_fixed: "canon 0 g \<Longrightarrow> validate_metadata_filter g = Inr g"
  using walk_fixed(1) [of 0 g engine_stringify]
  by (cases g) (auto simp: validate_metadata_filter_def)

section \<open>Ordered operators\<close>

abbreviation op_filter :: "string \<Rightarrow> string \<Rightarrow> string \<Rightarrow> pyval" where
  "op_filter f op v \<equiv> PDict [(PStr f, PDict [(PStr op, PStr v)])]"

function (sequential) nesting :: "pyval \<Rightarrow> nat" and nesting_entry :: "string \<Rightarrow> pyval \<Rightarrow> nat" where
  "nesting (PDict kvs) = Max (insert 0 ((\<lambda>(k, v). case k of PStr op \<Rightarrow> nesting_entry op v | _ \<Rightarrow> 0) ` set kvs))"
| "nesting _ = 0"
| "nesting_entry op spec =
     (if op = ''$not'' then Suc (nesting spec)
      else if op \<in> set LOGICAL_OPERATORS
      then (case spec of PList subs \<Rightarrow> Suc (Max (insert 0 (nesting ` set subs))) | _ \<Rightarrow> 0)
      else 0)"
  by pat_completeness auto
termination
  by (relation "measure (\<lambda>x. case x of Inl n \<Rightarrow> 2 * size n | Inr (op, n) \<Rightarrow> 2 * size n + 1)")
    (auto dest!: size_dict_value size_list_item)

declare nesting.simps [simp del] nesting_entry.simps [simp del]

lemma drop_nan_not_Nan: "drop_nan x = Some a \<Longrightarrow> a \<noteq> Nan"
  by (auto simp: drop_nan_def split: option.splits pyfloat.splits)

lemma cmp_float_Le: "a \<noteq> Nan \<Longrightarrow> b \<noteq> Nan \<Longrightarrow> cmp_float Le a b \<longleftrightarrow> \<not> cmp_float Gt a b"
  using float_less_linear [of a b] float_less_asym [of b a] by (auto simp: float_eq_iff float_less_irrefl)

lemma cmp_float_Ge: "a \<noteq> Nan \<Longrightarrow> b \<noteq> Nan \<Longrightarrow> cmp_float Ge a b \<longleftrightarrow> \<not> cmp_float Lt a b"
  using float_less_linear [of a b] float_less_asym [of a b] by (auto simp: float_eq_iff float_less_irrefl)

lemma ordered_holds_Le: "ordered_holds Le s v \<longleftrightarrow> \<not> ordered_holds Gt s v"
  using cmp_float_Le drop_nan_not_Nan
  by (auto simp: ordered_holds_def not_less simp del: cmp_float.simps split: option.splits)

lemma ordered_holds_Ge: "ordered_holds Ge s v \<longleftrightarrow> \<not> ordered_holds Lt s v"
  using cmp_float_Ge drop_nan_not_Nan
  by (auto simp: ordered_holds_def not_less simp del: cmp_float.simps split: option.splits)

lemma ordered_holds_asym: "\<not> (ordered_holds Lt s v \<and> ordered_holds Gt s v)"
  by (auto simp: ordered_holds_def dest: float_less_asym split: option.splits)

lemma matches_op_filter:
  assumes "f \<notin> set LOGICAL_OPERATORS" and "ORDERED_CMP op = Inr c"
  shows "matches_metadata_filter m (op_filter f op v) = Inr (stored_cmp c (map_of m f) (PStr v))"
proof -
  have f: "f \<noteq> ''$and''" "f \<noteq> ''$or''" "f \<noteq> ''$not''" using assms(1) by (auto simp: LOGICAL_OPERATORS_def)
  have "compile_operator (PStr f) op (PStr v) = compile_ordered (PStr f) op (PStr v)"
    using assms(2) by (auto simp: compile_operator_def ORDERED_CMP_def split: if_splits)
  moreover obtain p where "compile_ordered (PStr f) op (PStr v) = Inr p"
    "\<forall>m. p m = Inr (stored_cmp c (map_of m f) (PStr v))"
    using compile_ordered_computes [OF assms(2)] by blast
  ultimately show ?thesis
    using f by (simp add: matches_metadata_filter_def compile_field_def op_name_def compile_all_def)
qed

lemma ordered_holds_nat:
  assumes "m < 2 ^ 53" and "n < 2 ^ 53"
  shows "ordered_holds Lt (nat_dec m) (nat_dec n) \<longleftrightarrow> m < n"
    and "ordered_holds Gt (nat_dec m) (nat_dec n) \<longleftrightarrow> n < m"
  using assms by (simp_all add: ordered_holds_def py_float_nat_dec drop_nan_def)

abbreviation too_deep :: "'a res" where
  "too_deep \<equiv> Inl (ValueError ''filter is nested too deeply'')"

lemma dict_build_switch:
  assumes "dict_build g d = Inr r" and "\<And>k v w. (k, v) \<in> set d \<Longrightarrow> g k v = Inr w \<Longrightarrow> g' k v = (if P k v then Inr w else Inl e)"
  shows "dict_build g' d = (if \<forall>(k, v) \<in> set d. P k v then Inr r else Inl e)"
proof -
  have "dict_build_from g d acc = Inr r \<Longrightarrow> dict_build_from g' d acc = (if \<forall>(k, v) \<in> set d. P k v then Inr r else Inl e)" for acc
    using assms(2)
  proof (induction d arbitrary: acc)
    case (Cons p d)
    obtain k v where p: "p = (k, v)" by (cases p)
    from Cons.prems(1) obtain w where w: "g k v = Inr w" "dict_build_from g d (AList.update k w acc) = Inr r" by (auto simp: p res_bind_Inr_iff)
    have "g' k v = (if P k v then Inr w else Inl e)" using Cons.prems(2) [OF _ w(1)] by (simp add: p)
    moreover have "dict_build_from g' d (AList.update k w acc) = (if \<forall>(k, v) \<in> set d. P k v then Inr r else Inl e)"
      by (rule Cons.IH [OF w(2)]) (use Cons.prems(2) in auto)
    ultimately show ?case by (simp add: p)
  qed simp
  with assms(1) show ?thesis by (simp add: dict_build_def)
qed

lemma res_mapM_switch:
  assumes "res_mapM g xs = Inr ys" and "\<And>x y. x \<in> set xs \<Longrightarrow> g x = Inr y \<Longrightarrow> g' x = (if P x then Inr y else Inl e)"
  shows "res_mapM g' xs = (if \<forall>x \<in> set xs. P x then Inr ys else Inl e)"
  using assms
proof (induction xs arbitrary: ys)
  case (Cons x xs)
  from Cons.prems(1) obtain y zs where y: "g x = Inr y" "res_mapM g xs = Inr zs" "ys = y # zs" by (auto simp: res_bind_Inr_iff)
  have "g' x = (if P x then Inr y else Inl e)" using Cons.prems(2) [OF _ y(1)] by simp
  moreover have "res_mapM g' xs = (if \<forall>x \<in> set xs. P x then Inr zs else Inl e)"
    by (rule Cons.IH [OF y(2)]) (use Cons.prems(2) in auto)
  ultimately show ?case by (simp add: y(3))
qed simp

text \<open>The depth decides only whether the limit is met; it changes nothing else of an accepted filter.\<close>

lemma walk_depth:
  "walk s d n = Inr r \<Longrightarrow> walk s d' n = (if nesting n + d' \<le> MAX_DEPTH then Inr r else too_deep)"
  "walk_logical s d op spec = Inr q \<Longrightarrow> op \<in> set LOGICAL_OPERATORS \<Longrightarrow>
     walk_logical s d' op spec = (if nesting_entry op spec + d' \<le> MAX_DEPTH then Inr q else too_deep)"
proof (induction s d n and s d op spec arbitrary: r d' and q d' rule: walk_walk_logical.induct)
  case (1 s d n)
  from 1(2) obtain kvs where n: "n = PDict kvs" and d: "\<not> d > MAX_DEPTH" and ne: "kvs \<noteq> []"
    by (auto simp: walk.simps split: if_splits pyval.splits)
  let ?g = "\<lambda>d key spec. case key of
       PStr k \<Rightarrow>
         (if blank k then Inl (ValueError ''filter keys must be non-blank strings'')
          else if k \<in> set LOGICAL_OPERATORS then walk_logical s d k spec
          else if py_startswith k ''$''
          then Inl (ValueError ''unsupported filter operator at field level'')
          else walk_field s spec)
     | _ \<Rightarrow> Inl (ValueError ''filter keys must be non-blank strings'')"
  let ?e = "\<lambda>k v. case k of PStr op \<Rightarrow> nesting_entry op v | _ \<Rightarrow> 0"
  from 1(2) n d ne obtain ops where ops: "dict_build (?g d) kvs = Inr ops" and r: "r = PDict ops"
    by (auto simp: walk.simps)
  show ?case
  proof (cases "d' \<le> MAX_DEPTH")
    case True
    have "?g d' k v = (if ?e k v + d' \<le> MAX_DEPTH then Inr w else too_deep)" if kv: "(k, v) \<in> set kvs" and g: "?g d k v = Inr w" for k v w
    proof -
      from g obtain t where t: "k = PStr t" by (cases k) auto
      show ?thesis
      proof (cases "t \<in> set LOGICAL_OPERATORS")
        case True
        then show ?thesis using g 1(1) [OF d n ne kv t, of w d'] by (auto simp: t split: if_splits)
      next
        case False
        then have "nesting_entry t v = 0" by (auto simp: nesting_entry.simps LOGICAL_OPERATORS_def)
        with False g \<open>d' \<le> MAX_DEPTH\<close> show ?thesis by (auto simp: t split: if_splits)
      qed
    qed
    note b = dict_build_switch [OF ops this]
    have "(\<forall>(k, v) \<in> set kvs. ?e k v + d' \<le> MAX_DEPTH) \<longleftrightarrow> nesting n + d' \<le> MAX_DEPTH"
    proof -
      have "finite ((\<lambda>(k, v). ?e k v) ` set kvs)" by simp
      then have "nesting n \<le> MAX_DEPTH - d' \<longleftrightarrow> (\<forall>(k, v) \<in> set kvs. ?e k v \<le> MAX_DEPTH - d')"
        by (simp add: n nesting.simps case_prod_unfold)
      then show ?thesis using True by (simp add: le_diff_conv2)
    qed
    with b True ne show ?thesis unfolding walk.simps [of s d'] n by (simp add: r)
  qed (simp add: walk.simps)
next
  case (2 s d op spec)
  show ?case
  proof (cases "op = ''$not''")
    case True
    with 2(1) [of q "d' + 1"] 2(3) show ?thesis by (simp add: walk_logical.simps nesting_entry.simps)
  next
    case False
    with 2(3) obtain subs ys where spec: "spec = PList subs" "subs \<noteq> []"
      and ys: "res_mapM (walk s (d + 1)) subs = Inr ys" and q: "q = PList ys"
      by (auto simp: walk_logical.simps split: pyval.splits if_splits)
    have "walk s (d' + 1) x = (if nesting x + (d' + 1) \<le> MAX_DEPTH then Inr y else too_deep)"
      if "x \<in> set subs" "walk s (d + 1) x = Inr y" for x y
      using 2(2) [OF False spec that(1), of y "d' + 1"] that(2) by simp
    note m = res_mapM_switch [OF ys this]
    have "(\<forall>x \<in> set subs. nesting x + (d' + 1) \<le> MAX_DEPTH) \<longleftrightarrow> nesting_entry op spec + d' \<le> MAX_DEPTH"
    proof -
      obtain x where "x \<in> set subs" using spec(2) by (cases subs) auto
      then have "Suc (Max (insert 0 (nesting ` set subs))) + d' \<le> MAX_DEPTH \<longleftrightarrow> (\<forall>x \<in> set subs. nesting x + (d' + 1) \<le> MAX_DEPTH)"
        using Max_le_iff [of "insert 0 (nesting ` set subs)" "MAX_DEPTH - Suc d'"] by (cases "Suc d' \<le> MAX_DEPTH") (auto simp: le_diff_conv2)
      then show ?thesis using False 2(4) by (simp add: nesting_entry.simps spec)
    qed
    with m False show ?thesis by (simp add: walk_logical.simps spec q)
  qed
qed

section \<open>Properties\<close>

text \<open>
  C24. Whatever filter the SDK coercion accepts, the engine's own validation accepts the coerced
  filter and returns it unchanged, so the two passes of the query path agree.
\<close>

theorem coerced_filter_revalidates:
  assumes "coerce_sdk_filter f = Inr g"
  shows "validate_metadata_filter g = Inr g"
  using assms by (intro validate_canon_fixed coerce_canon)

theorem coerced_filter_revalidates_witness:
  "validate_metadata_filter
     (PDict [(PStr ''lang'', PStr ''en''), (PStr ''$or'', PList [PDict [(PStr ''n'', PDict [(PStr ''$in'', PTuple [PStr ''1'', PStr ''true''])])]])])
   = Inr (PDict [(PStr ''lang'', PStr ''en''), (PStr ''$or'', PList [PDict [(PStr ''n'', PDict [(PStr ''$in'', PTuple [PStr ''1'', PStr ''true''])])]])])"
  by (rule coerced_filter_revalidates
      [of "PDict [(PStr ''lang'', PStr ''en''), (PStr ''$or'', PList [PDict [(PStr ''n'', PDict [(PStr ''$in'', PList [PInt 1, PBool True])])]])]"])
    code_simp

text \<open>
  C4. A filter accepted by validation compiles, and the compiled predicate returns on every
  document, without raising, the truth value the reference semantics gives.
\<close>

theorem compiled_filter_correct:
  assumes "validate_metadata_filter f = Inr g"
  shows "\<exists>p. compile_metadata_filter g = Inr p \<and> (\<forall>m. p m = Inr (sat m g))"
  using compile_node_computes(1) [OF validate_canon [OF assms]] by (simp add: compile_metadata_filter_def)

theorem compiled_filter_correct_witness:
  "\<exists>p. compile_metadata_filter
      (PDict [(PStr ''$not'', PDict [(PStr ''age'', PDict [(PStr ''$gte'', PStr ''18'')])])]) = Inr p
    \<and> (\<forall>m. p m = Inr (sat m (PDict [(PStr ''$not'', PDict [(PStr ''age'', PDict [(PStr ''$gte'', PStr ''18'')])])])))"
  by (rule compiled_filter_correct
      [of "PDict [(PStr ''$not'', PDict [(PStr ''age'', PDict [(PStr ''$gte'', PInt 18)])])]"]) code_simp

text \<open>
  C28. The ordered operators are total on any two texts, numeric or not, including texts that read
  as NaN: \<open>$lte\<close> is the negation of \<open>$gt\<close>, \<open>$gte\<close> of \<open>$lt\<close>, the two strict ones exclude
  each other, and none of the four matches a document that lacks the field.
\<close>

theorem ordered_operators_total:
  assumes "f \<notin> set LOGICAL_OPERATORS"
  shows "\<exists>lt gt. matches_metadata_filter m (op_filter f ''$lt'' v) = Inr (map_of m f \<noteq> None \<and> lt)
      \<and> matches_metadata_filter m (op_filter f ''$gt'' v) = Inr (map_of m f \<noteq> None \<and> gt)
      \<and> matches_metadata_filter m (op_filter f ''$lte'' v) = Inr (map_of m f \<noteq> None \<and> \<not> gt)
      \<and> matches_metadata_filter m (op_filter f ''$gte'' v) = Inr (map_of m f \<noteq> None \<and> \<not> lt)
      \<and> \<not> (lt \<and> gt)"
proof (cases "map_of m f")
  case (Some s)
  have cs: "ORDERED_CMP ''$lt'' = Inr Lt" "ORDERED_CMP ''$gt'' = Inr Gt"
    "ORDERED_CMP ''$lte'' = Inr Le" "ORDERED_CMP ''$gte'' = Inr Ge" by (simp_all add: ORDERED_CMP_def)
  show ?thesis
    using Some ordered_holds_asym [of s v]
    by (intro exI [of _ "ordered_holds Lt s v"] exI [of _ "ordered_holds Gt s v"])
      (simp add: cs [THEN matches_op_filter [OF assms]] ordered_holds_Le ordered_holds_Ge)
qed (auto simp: matches_op_filter [OF assms] ORDERED_CMP_def)

theorem ordered_operators_total_witness:
  "\<exists>lt gt. matches_metadata_filter [(''v'', ''nan'')] (op_filter ''v'' ''$lt'' ''7'') = Inr (map_of [(''v'', ''nan'')] ''v'' \<noteq> None \<and> lt)
      \<and> matches_metadata_filter [(''v'', ''nan'')] (op_filter ''v'' ''$gt'' ''7'') = Inr (map_of [(''v'', ''nan'')] ''v'' \<noteq> None \<and> gt)
      \<and> matches_metadata_filter [(''v'', ''nan'')] (op_filter ''v'' ''$lte'' ''7'') = Inr (map_of [(''v'', ''nan'')] ''v'' \<noteq> None \<and> \<not> gt)
      \<and> matches_metadata_filter [(''v'', ''nan'')] (op_filter ''v'' ''$gte'' ''7'') = Inr (map_of [(''v'', ''nan'')] ''v'' \<noteq> None \<and> \<not> lt)
      \<and> \<not> (lt \<and> gt)"
  by (rule ordered_operators_total) code_simp

text \<open>
  Integers below 2^53 stored as decimal text compare as numbers, not as strings (\<open>10\<close> is
  above \<open>9\<close>), through the whole path of float reading and binary64 rounding.
\<close>

theorem integers_compare_as_numbers:
  assumes "f \<notin> set LOGICAL_OPERATORS" and "a < 2 ^ 53" and "b < 2 ^ 53"
  shows "matches_metadata_filter [(f, nat_dec a)] (op_filter f ''$lt'' (nat_dec b)) = Inr (a < b)
    \<and> matches_metadata_filter [(f, nat_dec a)] (op_filter f ''$gt'' (nat_dec b)) = Inr (b < a)"
  using assms by (simp add: matches_op_filter ORDERED_CMP_def ordered_holds_nat)

theorem integers_compare_as_numbers_witness:
  "matches_metadata_filter [(''n'', nat_dec 10)] (op_filter ''n'' ''$lt'' (nat_dec 9)) = Inr ((10::nat) < 9)
    \<and> matches_metadata_filter [(''n'', nat_dec 10)] (op_filter ''n'' ''$gt'' (nat_dec 9)) = Inr ((9::nat) < 10)"
  by (rule integers_compare_as_numbers) (code_simp, simp_all)

text \<open>
  C29. Validation fails closed on nesting, at exactly the documented limit.  The nesting of a filter
  counts the \<open>$and\<close>, \<open>$or\<close> and \<open>$not\<close> levels on its deepest path.  An accepted filter has at most 32 of
  them; a conjunction or disjunction of accepted filters, and the negation of one, is accepted with
  the same result inside if that keeps the limit, and refused as nested too deeply if not.
\<close>

theorem nesting_limit_exact:
  assumes "list_all2 (\<lambda>f f'. validate_metadata_filter f = Inr f') fs fs'" and "fs \<noteq> []" and "op \<in> {''$and'', ''$or''}"
  shows "list_all (\<lambda>f. nesting f \<le> 32) fs
    \<and> validate_metadata_filter (PDict [(PStr op, PList fs)])
      = (if list_all (\<lambda>f. nesting f < 32) fs then Inr (PDict [(PStr op, PList fs')]) else too_deep)
    \<and> validate_metadata_filter (PDict [(PStr ''$not'', hd fs)])
      = (if nesting (hd fs) < 32 then Inr (PDict [(PStr ''$not'', hd fs')]) else too_deep)"
proof -
  have w: "walk engine_stringify d f = (if nesting f + d \<le> MAX_DEPTH then Inr f' else too_deep)" if "validate_metadata_filter f = Inr f'" for f f' d
    using that walk_depth(1) [of engine_stringify 0 f f' d] by (auto simp: validate_metadata_filter_def split: if_splits)
  have "list_all (\<lambda>f. nesting f \<le> 32) fs"
  proof (clarsimp simp: list_all_iff)
    fix f assume "f \<in> set fs"
    then obtain f' where v: "validate_metadata_filter f = Inr f'" using assms(1) by (auto simp: list_all2_conv_all_nth in_set_conv_nth)
    then have "walk engine_stringify 0 f = Inr f'" by (auto simp: validate_metadata_filter_def split: if_splits)
    then show "nesting f \<le> 32" using w [OF v, of 0] by (auto simp: MAX_DEPTH_def split: if_splits)
  qed
  moreover have "res_mapM (walk engine_stringify 1) fs = (if list_all (\<lambda>f. nesting f < 32) fs then Inr fs' else too_deep)"
  proof -
    have "res_mapM validate_metadata_filter fs = Inr fs'" using assms(1) by (simp add: res_mapM_Inr_iff)
    from res_mapM_switch [OF this, of "walk engine_stringify 1" "\<lambda>f. nesting f + 1 \<le> MAX_DEPTH"] w
    show ?thesis by (simp add: MAX_DEPTH_def list_all_iff Suc_le_eq)
  qed
  moreover have "walk engine_stringify 1 (hd fs) = (if nesting (hd fs) < 32 then Inr (hd fs') else too_deep)"
    using assms(1, 2) w [of "hd fs" "hd fs'" 1] by (cases fs; cases fs') (auto simp: MAX_DEPTH_def Suc_le_eq)
  moreover have "\<not> blank ''$not''" "\<not> blank ''$and''" "\<not> blank ''$or''" by code_simp+
  ultimately show ?thesis
    using assms(2, 3) by (auto simp: validate_metadata_filter_def walk.simps [of _ 0] walk_logical.simps dict_build_def LOGICAL_OPERATORS_def)
qed

definition or_tower :: "nat \<Rightarrow> pyval" where
  "or_tower k = ((\<lambda>f. PDict [(PStr ''$or'', PList [f])]) ^^ k) (PDict [(PStr ''a'', PStr ''b'')])"

theorem nesting_limit_exact_witness:
  "validate_metadata_filter (or_tower 32) = Inr (or_tower 32) \<and> nesting (or_tower 32) = 32
    \<and> validate_metadata_filter (PDict [(PStr ''$and'', PList [or_tower 0, or_tower 31])])
      = Inr (PDict [(PStr ''$and'', PList [or_tower 0, or_tower 31])])
    \<and> validate_metadata_filter (PDict [(PStr ''$and'', PList [or_tower 0, or_tower 32])]) = too_deep
    \<and> validate_metadata_filter (PDict [(PStr ''$not'', or_tower 32)]) = too_deep"
proof -
  have v: "validate_metadata_filter (or_tower 0) = Inr (or_tower 0)" "validate_metadata_filter (or_tower 31) = Inr (or_tower 31)"
    "validate_metadata_filter (or_tower 32) = Inr (or_tower 32)" by code_simp+
  have n: "nesting (or_tower 0) = 0" "nesting (or_tower 31) = 31" "nesting (or_tower 32) = 32" by code_simp+
  have l: "list_all2 (\<lambda>f f'. validate_metadata_filter f = Inr f') [or_tower 0, or_tower 31] [or_tower 0, or_tower 31]"
    "list_all2 (\<lambda>f f'. validate_metadata_filter f = Inr f') [or_tower 0, or_tower 32] [or_tower 0, or_tower 32]"
    "list_all2 (\<lambda>f f'. validate_metadata_filter f = Inr f') [or_tower 32] [or_tower 32]" using v by simp_all
  show ?thesis
    using v n nesting_limit_exact [OF l(1), of "''$and''"] nesting_limit_exact [OF l(2), of "''$and''"]
      nesting_limit_exact [OF l(3), of "''$and''"] by simp
qed

end
