(* ===== verification/Effects.thy ===== *)
theory Effects
  imports PyNumber
begin

text \<open>
  Computations that change a state and may raise.  An exception does not undo the changes made
  before it, so a computation returns its outcome together with the state it leaves behind in
  either case.  \<open>bnd\<close> is sequencing, \<open>lift\<close> a pure computation that may raise, \<open>zoom\<close> runs a
  computation on a part of the state, \<open>wrap\<close> is \<open>try ... except Exception as exc: ...; raise e from exc\<close>,
  and \<open>each\<close> a loop whose body may raise.
\<close>

type_synonym ('s, 'a) act = "'s \<Rightarrow> 'a res \<times> 's"

definition ret :: "'a \<Rightarrow> ('s, 'a) act" where
  "ret x s = (Inr x, s)"

definition lift :: "'a res \<Rightarrow> ('s, 'a) act" where
  "lift r s = (r, s)"

definition bnd :: "('s, 'a) act \<Rightarrow> ('a \<Rightarrow> ('s, 'b) act) \<Rightarrow> ('s, 'b) act" where
  "bnd m f s = (case m s of (Inl e, t) \<Rightarrow> (Inl e, t) | (Inr x, t) \<Rightarrow> f x t)"

definition guard :: "bool \<Rightarrow> error \<Rightarrow> ('s, unit) act" where
  "guard b e = lift (raise_if b e)"

definition gets :: "('s \<Rightarrow> 'a) \<Rightarrow> ('s, 'a) act" where
  "gets f s = (Inr (f s), s)"

definition modify :: "('s \<Rightarrow> 's) \<Rightarrow> ('s, unit) act" where
  "modify f s = (Inr (), f s)"

definition zoom :: "('s \<Rightarrow> 't) \<Rightarrow> ('t \<Rightarrow> 's \<Rightarrow> 's) \<Rightarrow> ('t, 'a) act \<Rightarrow> ('s, 'a) act" where
  "zoom sel put m s = (case m (sel s) of (r, t) \<Rightarrow> (r, put t s))"

definition wrap :: "('s \<Rightarrow> 's) \<Rightarrow> error \<Rightarrow> ('s, 'a) act \<Rightarrow> ('s, 'a) act" where
  "wrap note_failure e m s = (case m s of (Inl _, t) \<Rightarrow> (Inl e, note_failure t) | (Inr x, t) \<Rightarrow> (Inr x, t))"

fun each :: "('a \<Rightarrow> ('s, 'b) act) \<Rightarrow> 'a list \<Rightarrow> ('s, 'b list) act" where
  "each f [] = ret []"
| "each f (x # xs) = bnd (f x) (\<lambda>y. bnd (each f xs) (\<lambda>ys. ret (y # ys)))"

section \<open>Laws\<close>

named_theorems act_simps "evaluation of effectful computations"

lemma ret_app [simp, act_simps]: "ret x s = (Inr x, s)" by (simp add: ret_def)

lemma lift_app [simp, act_simps]: "lift r s = (r, s)" by (simp add: lift_def)

lemma gets_app [simp, act_simps]: "gets f s = (Inr (f s), s)" by (simp add: gets_def)

lemma modify_app [simp, act_simps]: "modify f s = (Inr (), f s)" by (simp add: modify_def)

lemma guard_app [simp, act_simps]: "guard b e s = (if b then Inl e else Inr (), s)"
  by (simp add: guard_def raise_if_def)

lemma bnd_app [act_simps]: "bnd m f s = (case fst (m s) of Inl e \<Rightarrow> (Inl e, snd (m s)) | Inr x \<Rightarrow> f x (snd (m s)))"
  by (auto simp: bnd_def split: prod.split sum.split)

lemma bnd_Inr:
  "bnd m f s = (Inr y, t) \<longleftrightarrow> (\<exists>x u. m s = (Inr x, u) \<and> f x u = (Inr y, t))"
  by (auto simp: bnd_def split: prod.split sum.split)

lemma bnd_InrE [elim]:
  assumes "bnd m f s = (Inr y, t)"
  obtains x u where "m s = (Inr x, u)" and "f x u = (Inr y, t)"
  using assms by (auto simp: bnd_Inr)

lemma bnd_simps [simp]:
  "m s = (Inr x, t) \<Longrightarrow> bnd m f s = f x t"
  "m s = (Inl e, t) \<Longrightarrow> bnd m f s = (Inl e, t)"
  by (simp_all add: bnd_def)

lemma bnd_ret [simp]: "bnd (ret x) f = f x"
  by (rule ext) (simp add: bnd_def)

lemma bnd_guard [simp]: "bnd (guard b e) f s = (if b then (Inl e, s) else f () s)"
  by (simp add: bnd_def)

lemma bnd_lift_Inr [simp]: "bnd (lift (Inr x)) f = f x" "bnd (lift (Inl e)) f s = (Inl e, s)"
  by (rule ext) (simp_all add: bnd_def)

lemma bnd_gets [simp]: "bnd (gets g) f s = f (g s) s"
  by (simp add: bnd_def)

lemma bnd_modify [simp]: "bnd (modify g) f s = f () (g s)"
  by (simp add: bnd_def)

lemma lift_Inr [simp]: "lift r s = (Inr x, t) \<longleftrightarrow> r = Inr x \<and> t = s"
  by auto

lemma zoom_app [act_simps]: "zoom sel put m s = (fst (m (sel s)), put (snd (m (sel s))) s)"
  by (simp add: zoom_def case_prod_unfold)

lemma zoom_Inr:
  "zoom sel put m s = (Inr x, t) \<longleftrightarrow> (\<exists>u. m (sel s) = (Inr x, u) \<and> t = put u s)"
  by (auto simp: zoom_def split: prod.split)

lemma wrap_Inr [simp]: "wrap g e m s = (Inr x, t) \<longleftrightarrow> m s = (Inr x, t)"
  by (auto simp: wrap_def split: prod.split sum.split)

lemma wrap_Inl: "wrap g e m s = (Inl e', t) \<longleftrightarrow> e' = e \<and> (\<exists>e'' u. m s = (Inl e'', u) \<and> t = g u)"
  by (auto simp: wrap_def split: prod.split sum.split)

text \<open>What every step keeps, a sequence, a loop and a handler keep: also when they raise.\<close>

definition keeps :: "('s \<Rightarrow> 's \<Rightarrow> bool) \<Rightarrow> ('s, 'a) act \<Rightarrow> bool" where
  "keeps R m \<longleftrightarrow> (\<forall>s. R s (snd (m s)))"

lemma keepsD: "keeps R m \<Longrightarrow> R s (snd (m s))"
  by (simp add: keeps_def)

lemma keeps_ret: "reflp R \<Longrightarrow> keeps R (ret x)" and keeps_lift: "reflp R \<Longrightarrow> keeps R (lift r)"
  and keeps_guard: "reflp R \<Longrightarrow> keeps R (guard b e)" and keeps_gets: "reflp R \<Longrightarrow> keeps R (gets f)"
  by (simp_all add: keeps_def reflpD)

lemma keeps_modify: "(\<And>s. R s (f s)) \<Longrightarrow> keeps R (modify f)"
  by (simp add: keeps_def)

lemma keeps_bnd:
  assumes "transp R" and "keeps R m" and "\<And>x. keeps R (f x)"
  shows "keeps R (bnd m f)"
  unfolding keeps_def
proof
  fix s
  have m: "R s (snd (m s))" by (rule keepsD [OF assms(2)])
  show "R s (snd (bnd m f s))"
  proof (cases "fst (m s)")
    case (Inl e)
    then show ?thesis using m by (simp add: bnd_app)
  next
    case (Inr x)
    then show ?thesis using transpD [OF assms(1) m keepsD [OF assms(3)]] by (simp add: bnd_app)
  qed
qed

lemma keeps_each:
  assumes "reflp R" and "transp R" and "\<And>x. keeps R (f x)"
  shows "keeps R (each f xs)"
proof (induction xs)
  case Nil
  show ?case unfolding each.simps by (rule keeps_ret [OF assms(1)])
next
  case (Cons x xs)
  show ?case
    unfolding each.simps by (intro keeps_bnd keeps_ret assms Cons.IH)
qed

lemma keeps_wrap:
  assumes "transp R" and "keeps R m" and "\<And>s. R s (g s)"
  shows "keeps R (wrap g e m)"
  unfolding keeps_def
proof
  fix s
  show "R s (snd (wrap g e m s))"
    using keepsD [OF assms(2), of s] transpD [OF assms(1) keepsD [OF assms(2)] assms(3), of s]
    by (cases "m s"; cases "fst (m s)") (auto simp: wrap_def)
qed

lemma keeps_if: "(b \<Longrightarrow> keeps R m) \<Longrightarrow> (\<not> b \<Longrightarrow> keeps R m') \<Longrightarrow> keeps R (if b then m else m')"
  by simp

text \<open>A loop that returns ran its body on every item.\<close>

lemma each_inv:
  assumes "each f xs s = (Inr ys, t)" and "P s"
    and "\<And>x u y v. x \<in> set xs \<Longrightarrow> P u \<Longrightarrow> f x u = (Inr y, v) \<Longrightarrow> P v"
  shows "P t"
  using assms
proof (induction xs arbitrary: s ys)
  case (Cons x xs)
  from Cons.prems(1) obtain y u zs where "f x s = (Inr y, u)" "each f xs u = (Inr zs, t)"
    by (auto simp: bnd_Inr)
  then show ?case using Cons by (metis list.set_intros)
qed simp

end
