(* ===== verification/LodeSdk.thy ===== *)
theory LodeSdk
  imports EngineCore MetaFilter Effects
begin

text \<open>
  The local SDK handle \<open>LodeDB\<close> of \<open>local/db.py\<close>: the checks it makes on the caller's arguments,
  the calls it makes on the compiled engine, and how it reports their failure.  The compiled engine,
  the embedding backend, the random tokens of generated ids and NumPy's row norms are code outside
  the Python sources: they are the fields of the record \<open>runtime\<close>, an argument of every operation that
  uses them.  The engine's state is the type variable \<open>'n\<close>, a prepared text upsert the type variable
  \<open>'p\<close>.  A response of the engine is the JSON object the binding returns.

  A handle is used under its lock, so operations do not interleave.  Opening a handle, image
  embedding and the counters of \<open>stats\<close> are not modelled.
\<close>

section \<open>Definitions\<close>

subsection \<open>The handle and what it calls\<close>

record engine_document =
  ed_id :: string
  ed_text :: string
  ed_metadata :: meta

record engine_vector_document =
  vd_id :: string
  vd_vector :: vector
  vd_metadata :: meta
  vd_text :: "string option"

type_synonym json_obj = "(pyval, pyval) dict"
type_synonym sidecar = "string \<times> meta \<times> string option"

record ('n, 'p) runtime =
  upsert_vectors :: "engine_vector_document list \<Rightarrow> ('n, unit) act"
  upsert_vectors_matrix :: "vector list \<Rightarrow> sidecar list \<Rightarrow> ('n, unit) act"
  prepare_text_upsert :: "engine_document list \<Rightarrow> bool \<Rightarrow> bool \<Rightarrow> int \<Rightarrow> ('n, 'p) act"
  chunks_to_embed :: "'p \<Rightarrow> string list"
  apply_text_upsert :: "'p \<Rightarrow> vector list \<Rightarrow> ('n, unit) act"
  delete_documents :: "string list \<Rightarrow> ('n, json_obj) act"
  update_document_payload :: "string \<Rightarrow> meta option \<Rightarrow> string option \<Rightarrow> bool \<Rightarrow> ('n, unit) act"
  engine_persist :: "('n, unit) act"
  query_vector :: "vector \<Rightarrow> int \<Rightarrow> pyval option \<Rightarrow> ('n, json_obj) act"
  query_vectors_batch :: "vector list \<Rightarrow> int \<Rightarrow> pyval option \<Rightarrow> ('n, json_obj list) act"
  query_vectors_batch_arrays ::
    "(vector list \<Rightarrow> int \<Rightarrow> pyval option \<Rightarrow> ('n, (vector \<times> string list \<times> json_obj list \<times> nat) option) act) option"
  search_text :: "string \<Rightarrow> string \<Rightarrow> vector option \<Rightarrow> int \<Rightarrow> pyval option \<Rightarrow> ('n, json_obj) act"
  search_text_batch :: "string list \<Rightarrow> string \<Rightarrow> vector list option \<Rightarrow> int \<Rightarrow> pyval option \<Rightarrow> ('n, json_obj list) act"
  get_document_text :: "string \<Rightarrow> ('n, string option) act"
  get_document_texts :: "string list \<Rightarrow> ('n, (string, string) dict) act"
  engine_get_document :: "string \<Rightarrow> ('n, json_obj option) act"
  engine_list_documents :: "pyval option \<Rightarrow> string option \<Rightarrow> int option \<Rightarrow> ('n, json_obj list) act"
  engine_stats :: "('n, json_obj) act"
  embed_documents :: "(string list \<Rightarrow> vector list res) option"
  embed_query :: "string \<Rightarrow> vector res"
  token_hex :: "nat \<Rightarrow> string"
  row_norm :: "vector \<Rightarrow> pyfloat"
  wide_norm :: "vector \<Rightarrow> pyfloat"

record 'n lodedb =
  read_only :: bool
  vector_only :: bool
  store_text :: bool
  index_text :: bool
  vector_dim :: nat
  chunk_character_limit :: int
  write_through :: bool
  generation_mode :: bool
  vector_mutable :: bool
  auto_id_counter :: nat
  fallback_reason :: "string option"
  engine :: 'n

abbreviation on_engine :: "('n, 'a) act \<Rightarrow> ('n lodedb, 'a) act" where
  "on_engine \<equiv> zoom engine (\<lambda>n h. h \<lparr> engine := n \<rparr>)"

text \<open>\<open>except Exception\<close>: note the reason and raise \<open>RuntimeError\<close>.\<close>

definition fail_closed :: "string \<Rightarrow> string \<Rightarrow> ('n lodedb, 'a) act \<Rightarrow> ('n lodedb, 'a) act" where
  "fail_closed reason message m = wrap (\<lambda>h. h \<lparr> fallback_reason := Some reason \<rparr>) (RuntimeError message) m"

definition require_writable :: "('n lodedb, unit) act" where
  "require_writable = bnd (gets read_only) (\<lambda>b. guard b (ReadOnlyError ''this LodeDB handle is read-only''))"

definition require_text_capable :: "('n lodedb, unit) act" where
  "require_text_capable = bnd (gets vector_only) (\<lambda>b. guard b (VectorOnlyIndexError ''this index is vector-only''))"

definition next_auto_id :: "('n, 'p) runtime \<Rightarrow> ('n lodedb, string) act" where
  "next_auto_id rt =
     bnd (modify (\<lambda>h. h \<lparr> auto_id_counter := auto_id_counter h + 1 \<rparr>)) (\<lambda>_.
     gets (\<lambda>h. ''doc-'' @ token_hex rt (auto_id_counter h) @ ''-'' @ nat_dec (auto_id_counter h)))"

definition should_persist_after_mutation :: "'n lodedb \<Rightarrow> bool" where
  "should_persist_after_mutation h = (write_through h \<and> generation_mode h)"

definition persist_after_mutation :: "('n, 'p) runtime \<Rightarrow> ('n lodedb, unit) act" where
  "persist_after_mutation rt =
     bnd (gets should_persist_after_mutation) (\<lambda>b. if b then on_engine (engine_persist rt) else ret ())"

subsection \<open>Arguments\<close>

definition metadata_text :: "pyval \<Rightarrow> string res" where
  "metadata_text value = (case value of
       PBool b \<Rightarrow> Inr (if b then ''true'' else ''false'')
     | PStr _ \<Rightarrow> Inr (py_str value)
     | PInt _ \<Rightarrow> Inr (py_str value)
     | PFloat _ \<Rightarrow> Inr (py_str value)
     | _ \<Rightarrow> Inl (ValueError ''metadata value must be a string, number, or bool''))"

definition coerce_metadata :: "json_obj option \<Rightarrow> meta res" where
  "coerce_metadata metadata = (case metadata of
       None \<Rightarrow> Inr []
     | Some d \<Rightarrow> res_fold (\<lambda>(key, value) coerced. case key of
           PStr k \<Rightarrow> res_bind (metadata_text value) (\<lambda>t. Inr (AList.update k t coerced))
         | _ \<Rightarrow> Inl (ValueError ''metadata keys must be strings'')) d [])"

definition structured_keys :: "pyval list" where
  "structured_keys = [PStr ''metadata'', PStr ''document_ids'']"

definition normalize_filter :: "pyval option \<Rightarrow> pyval option res" where
  "normalize_filter flt = (case flt of
       None \<Rightarrow> Inr None
     | Some (PDict d) \<Rightarrow>
         (if set (dkeys d) \<subseteq> set structured_keys \<and> d \<noteq> []
          then res_bind (case map_of d (PStr ''metadata'') of
                   None \<Rightarrow> Inr []
                 | Some m \<Rightarrow> res_bind (coerce_sdk_filter m) (\<lambda>c. Inr [(PStr ''metadata'', c)])) (\<lambda>out.
               res_bind (case map_of d (PStr ''document_ids'') of
                   None \<Rightarrow> Inr out
                 | Some ids \<Rightarrow> res_bind (py_iter ids) (\<lambda>xs. Inr (out @ [(PStr ''document_ids'', PList xs)]))) (\<lambda>out.
                 Inr (Some (PDict out))))
          else res_bind (coerce_sdk_filter (PDict d)) (\<lambda>c. Inr (Some (PDict [(PStr ''metadata'', c)]))))
     | Some _ \<Rightarrow> Inl (ValueError ''filter must be a mapping''))"

definition coerce_optional_text :: "pyval \<Rightarrow> string option res" where
  "coerce_optional_text value = (case value of
       PNone \<Rightarrow> Inr None
     | PStr t \<Rightarrow> Inr (Some t)
     | _ \<Rightarrow> Inl (ValueError ''vector document text must be a string when provided''))"

definition SEARCH_MODES :: "string list" where
  "SEARCH_MODES = [''vector'', ''hybrid'', ''lexical'']"

definition resolve_mode :: "'n lodedb \<Rightarrow> pyval \<Rightarrow> string res" where
  "resolve_mode h mode =
     (let lexical_source = (index_text h \<or> store_text h);
          gated = (\<lambda>value.
            if vector_only h \<and> value \<in> {''vector'', ''hybrid''}
            then Inl (VectorOnlyIndexError ''mode needs to encode the query text'')
            else if value \<in> {''hybrid'', ''lexical''} \<and> \<not> lexical_source
            then Inl (ValueError ''mode requires a lexical source'')
            else Inr value)
      in case mode of
           PNone \<Rightarrow> (if vector_only h then gated ''lexical''
                     else if lexical_source then Inr ''hybrid'' else Inr ''vector'')
         | PStr m \<Rightarrow>
             (let stripped = py_lower (py_strip m); value = (if stripped = [] then ''vector'' else stripped)
              in if value \<notin> set SEARCH_MODES then Inl (ValueError ''mode must be one of'') else gated value)
         | _ \<Rightarrow> Inl (ValueError ''mode must be a string''))"

subsection \<open>Vectors\<close>

fun is_finite :: "pyfloat \<Rightarrow> bool" where
  "is_finite (Finite _) = True"
| "is_finite _ = False"

fun float_div :: "pyfloat \<Rightarrow> pyfloat \<Rightarrow> pyfloat" where
  "float_div (Finite a) (Finite b) = (if b = 0 then Nan else round64 (a / b))"
| "float_div (Finite a) PosInf = Finite 0"
| "float_div _ _ = Nan"

definition float_abs :: "pyfloat \<Rightarrow> pyfloat" where
  "float_abs x = (case x of Finite q \<Rightarrow> Finite \<bar>q\<bar> | NegInf \<Rightarrow> PosInf | _ \<Rightarrow> x)"

definition float_max :: "pyfloat \<Rightarrow> pyfloat \<Rightarrow> pyfloat" where
  "float_max x y = (if float_less x y then y else x)"

definition max_abs :: "vector \<Rightarrow> pyfloat" where
  "max_abs row = fold (\<lambda>x m. float_max m (float_abs x)) row (Finite 0)"

definition l2_normalize_wide :: "('n, 'p) runtime \<Rightarrow> vector list \<Rightarrow> vector list res" where
  "l2_normalize_wide rt wide =
     (if \<exists>row \<in> set wide. max_abs row = Finite 0
      then Inl (ValueError ''cannot normalize a zero vector; pass normalize=False to store it as-is'')
      else Inr (map (\<lambda>row. let scaled = map (\<lambda>x. float_div x (max_abs row)) row
                            in map (\<lambda>x. round32 (float_div x (wide_norm rt scaled))) scaled) wide))"

definition prepare_vector_matrix :: "('n, 'p) runtime \<Rightarrow> vector list \<Rightarrow> nat \<Rightarrow> bool \<Rightarrow> vector list res" where
  "prepare_vector_matrix rt vectors width unit_norm =
     (let matrix = map (map round32) vectors
      in if \<exists>row \<in> set vectors. length row \<noteq> length (hd vectors)
         then Inl (ValueError ''vectors must be sequences of numbers'')
         else if concat matrix = [] then Inl (ValueError ''vectors must be a non-empty batch'')
         else if length (hd matrix) \<noteq> width then Inl (ValueError ''each vector must have dimension'')
         else if \<not> list_all (list_all is_finite) matrix
         then (if \<not> list_all (list_all is_finite) vectors
               then Inl (ValueError ''vector must contain only finite values'')
               else if unit_norm then l2_normalize_wide rt vectors else Inr matrix)
         else if unit_norm
         then (if \<exists>row \<in> set matrix. row_norm rt row = Finite 0 then l2_normalize_wide rt vectors
               else Inr (map (\<lambda>row. map (\<lambda>x. round32 (float_div x (row_norm rt row))) row) matrix))
         else Inr matrix)"

subsection \<open>Mutations\<close>

text \<open>Items of the batch calls: a missing key and a \<open>None\<close> value are the same to \<open>item.get\<close>.\<close>

record text_item =
  ti_text :: pyval
  ti_id :: "string option"
  ti_metadata :: "json_obj option"

record vector_item =
  vi_vector :: "vector option"
  vi_id :: "string option"
  vi_metadata :: "json_obj option"
  vi_text :: pyval

definition text_missing :: "pyval \<Rightarrow> bool" where
  "text_missing text = (case text of PStr t \<Rightarrow> blank t | _ \<Rightarrow> True)"

definition document_id_or_auto :: "('n, 'p) runtime \<Rightarrow> string option \<Rightarrow> ('n lodedb, string) act" where
  "document_id_or_auto rt i = (case i of Some d \<Rightarrow> ret d | None \<Rightarrow> next_auto_id rt)"

definition native_upsert_vectors :: "('n, 'p) runtime \<Rightarrow> engine_vector_document list \<Rightarrow> ('n lodedb, unit) act" where
  "native_upsert_vectors rt documents =
     (if documents = [] then ret ()
      else fail_closed ''native_core_upsert_failed'' ''native core vector upsert failed''
        (bnd (on_engine (upsert_vectors rt documents)) (\<lambda>_. persist_after_mutation rt)))"

definition native_upsert_vectors_matrix ::
    "('n, 'p) runtime \<Rightarrow> vector list \<Rightarrow> sidecar list \<Rightarrow> ('n lodedb, unit) act" where
  "native_upsert_vectors_matrix rt matrix side =
     (if side = [] then ret ()
      else fail_closed ''native_core_upsert_failed'' ''native core vector upsert failed''
        (bnd (on_engine (upsert_vectors_matrix rt matrix side)) (\<lambda>_. persist_after_mutation rt)))"

definition embed_chunks :: "('n, 'p) runtime \<Rightarrow> (string list \<Rightarrow> vector list res) \<Rightarrow> 'p \<Rightarrow> vector list res" where
  "embed_chunks rt encode plan = (if chunks_to_embed rt plan = [] then Inr [] else encode (chunks_to_embed rt plan))"

definition native_upsert_text_documents :: "('n, 'p) runtime \<Rightarrow> engine_document list \<Rightarrow> ('n lodedb, unit) act" where
  "native_upsert_text_documents rt documents =
     (if documents = [] then ret ()
      else case embed_documents rt of
        None \<Rightarrow> lift (Inl (RuntimeError ''native text upsert requires an embedding backend''))
      | Some encode \<Rightarrow>
          fail_closed ''native_core_text_upsert_failed'' ''native core text upsert failed''
            (bnd (gets (\<lambda>h. (store_text h, index_text h, chunk_character_limit h))) (\<lambda>(st, ix, limit).
             bnd (on_engine (prepare_text_upsert rt documents st ix limit)) (\<lambda>plan.
             bnd (lift (embed_chunks rt encode plan)) (\<lambda>embeddings.
             bnd (on_engine (apply_text_upsert rt plan embeddings)) (\<lambda>_. persist_after_mutation rt))))))"

definition native_delete_documents :: "('n, 'p) runtime \<Rightarrow> string list \<Rightarrow> ('n lodedb, json_obj) act" where
  "native_delete_documents rt ids =
     (if ids = [] then ret [(PStr ''documents_deleted'', PInt 0)]
      else fail_closed ''native_core_delete_failed'' ''native core vector delete failed''
        (bnd (on_engine (delete_documents rt ids)) (\<lambda>response.
         bnd (persist_after_mutation rt) (\<lambda>_. ret response))))"

definition add :: "('n, 'p) runtime \<Rightarrow> pyval \<Rightarrow> string option \<Rightarrow> json_obj option \<Rightarrow> ('n lodedb, string) act" where
  "add rt text i metadata =
     bnd require_writable (\<lambda>_.
     bnd require_text_capable (\<lambda>_.
     bnd (guard (text_missing text) (ValueError ''text must be a non-empty string'')) (\<lambda>_.
     bnd (document_id_or_auto rt i) (\<lambda>document_id.
     bnd (lift (coerce_metadata metadata)) (\<lambda>m.
     bnd (native_upsert_text_documents rt [\<lparr> ed_id = document_id, ed_text = py_str text, ed_metadata = m \<rparr>]) (\<lambda>_.
     ret document_id))))))"

definition text_payload :: "('n, 'p) runtime \<Rightarrow> text_item \<Rightarrow> ('n lodedb, engine_document) act" where
  "text_payload rt item =
     bnd (guard (text_missing (ti_text item)) (ValueError ''each document needs a non-empty text'')) (\<lambda>_.
     bnd (document_id_or_auto rt (ti_id item)) (\<lambda>document_id.
     bnd (lift (coerce_metadata (ti_metadata item))) (\<lambda>m.
     ret \<lparr> ed_id = document_id, ed_text = py_str (ti_text item), ed_metadata = m \<rparr>)))"

definition add_many :: "('n, 'p) runtime \<Rightarrow> text_item list \<Rightarrow> ('n lodedb, string list) act" where
  "add_many rt documents =
     bnd require_writable (\<lambda>_.
     bnd require_text_capable (\<lambda>_.
     bnd (each (text_payload rt) documents) (\<lambda>payload.
     bnd (if payload = [] then ret () else native_upsert_text_documents rt payload) (\<lambda>_.
     ret (map ed_id payload)))))"

definition add_vectors ::
    "('n, 'p) runtime \<Rightarrow> vector \<Rightarrow> string option \<Rightarrow> json_obj option \<Rightarrow> pyval \<Rightarrow> bool \<Rightarrow> ('n lodedb, string) act" where
  "add_vectors rt v i metadata text unit_norm =
     bnd require_writable (\<lambda>_.
     bnd (document_id_or_auto rt i) (\<lambda>document_id.
     bnd (gets vector_dim) (\<lambda>width.
     bnd (lift (prepare_vector_matrix rt [v] width unit_norm)) (\<lambda>matrix.
     bnd (lift (coerce_metadata metadata)) (\<lambda>m.
     bnd (lift (coerce_optional_text text)) (\<lambda>t.
     bnd (native_upsert_vectors rt [\<lparr> vd_id = document_id, vd_vector = hd matrix, vd_metadata = m, vd_text = t \<rparr>]) (\<lambda>_.
     ret document_id)))))))"

definition vector_payload :: "('n, 'p) runtime \<Rightarrow> vector_item \<Rightarrow> ('n lodedb, vector \<times> sidecar) act" where
  "vector_payload rt item = (case vi_vector item of
       None \<Rightarrow> lift (Inl (ValueError ''each document needs a vector''))
     | Some v \<Rightarrow>
         bnd (document_id_or_auto rt (vi_id item)) (\<lambda>document_id.
         bnd (lift (coerce_metadata (vi_metadata item))) (\<lambda>m.
         bnd (lift (coerce_optional_text (vi_text item))) (\<lambda>t.
         ret (v, document_id, m, t)))))"

definition add_vectors_many :: "('n, 'p) runtime \<Rightarrow> vector_item list \<Rightarrow> bool \<Rightarrow> ('n lodedb, string list) act" where
  "add_vectors_many rt documents unit_norm =
     bnd require_writable (\<lambda>_.
     bnd (each (vector_payload rt) documents) (\<lambda>rows.
     if rows = [] then ret []
     else bnd (gets vector_dim) (\<lambda>width.
          bnd (lift (prepare_vector_matrix rt (map fst rows) width unit_norm)) (\<lambda>matrix.
          bnd (native_upsert_vectors_matrix rt matrix (map snd rows)) (\<lambda>_.
          ret (map (fst \<circ> snd) rows))))))"

definition remove_many :: "('n, 'p) runtime \<Rightarrow> pyval list \<Rightarrow> ('n lodedb, int) act" where
  "remove_many rt ids =
     bnd require_writable (\<lambda>_.
     bnd (guard (\<exists>i \<in> set ids. text_missing i) (ValueError ''ids must contain only non-empty strings'')) (\<lambda>_.
     if ids = [] then ret 0
     else bnd (native_delete_documents rt (map py_str ids)) (\<lambda>response.
          lift (py_int (py_or (pget response ''documents_deleted'' (PInt 0)) (PInt 0))))))"

definition remove :: "('n, 'p) runtime \<Rightarrow> pyval \<Rightarrow> ('n lodedb, bool) act" where
  "remove rt i = bnd (remove_many rt [i]) (\<lambda>n. ret (0 < n))"

definition update_payload ::
    "('n, 'p) runtime \<Rightarrow> pyval \<Rightarrow> json_obj option \<Rightarrow> string option \<Rightarrow> bool \<Rightarrow> ('n lodedb, unit) act" where
  "update_payload rt i metadata text clear_text =
     bnd require_writable (\<lambda>_.
     bnd (guard (text_missing i) (ValueError ''id must be a non-empty string'')) (\<lambda>_.
     fail_closed ''native_core_payload_update_failed'' ''native core payload update failed''
       (bnd (lift (case metadata of None \<Rightarrow> Inr None | Some d \<Rightarrow> res_bind (coerce_metadata (Some d)) (\<lambda>m. Inr (Some m)))) (\<lambda>m.
        bnd (on_engine (update_document_payload rt (py_str i) m text clear_text)) (\<lambda>_. persist_after_mutation rt)))))"

definition native_persist :: "('n, 'p) runtime \<Rightarrow> ('n lodedb, unit) act" where
  "native_persist rt = bnd (gets vector_mutable) (\<lambda>b.
     if \<not> b then ret ()
     else fail_closed ''native_core_write_persist_failed'' ''native core persist failed'' (on_engine (engine_persist rt)))"

subsection \<open>Reads\<close>

record search_hit =
  hit_score :: pyfloat
  hit_id :: string
  hit_metadata :: json_obj

definition hit_from_native_row :: "pyval \<Rightarrow> search_hit res" where
  "hit_from_native_row row = (case row of
       PDict d \<Rightarrow>
         res_bind (pitem d ''score'') (\<lambda>s. res_bind (to_float s) (\<lambda>score.
         res_bind (pitem d ''document_id'') (\<lambda>i.
         res_bind (py_dict (pget d ''metadata'' (PDict []))) (\<lambda>m.
           Inr \<lparr> hit_score = score, hit_id = py_str i, hit_metadata = m \<rparr>))))
     | _ \<Rightarrow> Inl (RuntimeError ''invalid native response: hit row must be an object''))"

definition hits_from_native_rows :: "pyval \<Rightarrow> search_hit list res" where
  "hits_from_native_rows rows = (case rows of
       PList xs \<Rightarrow> res_mapM hit_from_native_row xs
     | _ \<Rightarrow> Inl (RuntimeError ''invalid native response: hits must be a list''))"

definition item_at :: "'a list \<Rightarrow> nat \<Rightarrow> 'a res" where
  "item_at xs i = (if i < length xs then Inr (xs ! i) else Inl (IndexError ''list index out of range''))"

definition hits_from_native_arrays ::
    "vector \<Rightarrow> string list \<Rightarrow> json_obj list \<Rightarrow> nat \<Rightarrow> nat \<Rightarrow> search_hit list list res" where
  "hits_from_native_arrays scores ids metadata k query_count =
     (if k = 0 then Inr (replicate query_count [])
      else res_mapM (\<lambda>q. res_mapM (\<lambda>offset.
             res_bind (item_at scores (q * k + offset)) (\<lambda>score.
             res_bind (item_at ids (q * k + offset)) (\<lambda>i.
               Inr \<lparr> hit_score = score, hit_id = i,
                      hit_metadata = (if q * k + offset < length metadata then metadata ! (q * k + offset) else []) \<rparr>)))
             [0..<k]) [0..<query_count])"

definition native_search_by_vector ::
    "('n, 'p) runtime \<Rightarrow> vector \<Rightarrow> int \<Rightarrow> pyval option \<Rightarrow> ('n lodedb, search_hit list) act" where
  "native_search_by_vector rt v k flt =
     bnd (fail_closed ''native_core_query_failed'' ''native core vector query failed'' (on_engine (query_vector rt v k flt))) (\<lambda>payload.
     lift (hits_from_native_rows (pget payload ''hits'' (PList []))))"

definition batch_rows ::
    "('n, 'p) runtime \<Rightarrow> vector list \<Rightarrow> int \<Rightarrow> pyval option \<Rightarrow> ('n lodedb, search_hit list list + json_obj list) act" where
  "batch_rows rt vs k flt =
     bnd (case query_vectors_batch_arrays rt of None \<Rightarrow> ret None | Some q \<Rightarrow> on_engine (q vs k flt)) (\<lambda>arrays.
     case arrays of
       Some (scores, ids, metadata, served) \<Rightarrow>
         bnd (lift (hits_from_native_arrays scores ids metadata served (length vs))) (\<lambda>hits. ret (Inl hits))
     | None \<Rightarrow> bnd (on_engine (query_vectors_batch rt vs k flt)) (\<lambda>batches. ret (Inr batches)))"

definition native_search_many_by_vector ::
    "('n, 'p) runtime \<Rightarrow> vector list \<Rightarrow> int \<Rightarrow> pyval option \<Rightarrow> ('n lodedb, search_hit list list) act" where
  "native_search_many_by_vector rt vs k flt =
     bnd (fail_closed ''native_core_batch_query_failed'' ''native core vector batch query failed'' (batch_rows rt vs k flt)) (\<lambda>r.
     case r of
       Inl hits \<Rightarrow> ret hits
     | Inr batches \<Rightarrow> lift (res_mapM (\<lambda>batch. hits_from_native_rows (pget batch ''hits'' (PList []))) batches))"

definition query_embedding :: "('n, 'p) runtime \<Rightarrow> string \<Rightarrow> string \<Rightarrow> vector option res" where
  "query_embedding rt query mode =
     (if mode \<in> {''vector'', ''hybrid''}
      then (if embed_documents rt = None then Inl (RuntimeError ''native text query requires an embedding backend'')
            else res_bind (embed_query rt query) (\<lambda>v. Inr (Some v)))
      else Inr None)"

definition native_search_text ::
    "('n, 'p) runtime \<Rightarrow> string \<Rightarrow> int \<Rightarrow> pyval option \<Rightarrow> string \<Rightarrow> ('n lodedb, search_hit list) act" where
  "native_search_text rt query k flt mode =
     bnd (fail_closed ''native_core_text_query_failed'' ''native core text query failed''
       (bnd (lift (query_embedding rt query mode)) (\<lambda>v. on_engine (search_text rt query mode v k flt)))) (\<lambda>payload.
     lift (hits_from_native_rows (pget payload ''hits'' (PList []))))"

definition query_embeddings :: "('n, 'p) runtime \<Rightarrow> string list \<Rightarrow> string \<Rightarrow> vector list option res" where
  "query_embeddings rt queries mode =
     (if mode \<in> {''vector'', ''hybrid''}
      then (if embed_documents rt = None then Inl (RuntimeError ''native text query requires an embedding backend'')
            else res_bind (res_mapM (embed_query rt) queries) (\<lambda>vs. Inr (Some vs)))
      else Inr None)"

definition native_search_text_batch ::
    "('n, 'p) runtime \<Rightarrow> string list \<Rightarrow> int \<Rightarrow> pyval option \<Rightarrow> string \<Rightarrow> ('n lodedb, search_hit list list) act" where
  "native_search_text_batch rt queries k flt mode =
     bnd (fail_closed ''native_core_text_batch_query_failed'' ''native core text batch query failed''
       (bnd (lift (query_embeddings rt queries mode)) (\<lambda>vs. on_engine (search_text_batch rt queries mode vs k flt)))) (\<lambda>payloads.
     lift (res_mapM (\<lambda>payload. hits_from_native_rows (pget payload ''hits'' (PList []))) payloads))"

definition search :: "('n, 'p) runtime \<Rightarrow> pyval \<Rightarrow> int \<Rightarrow> pyval option \<Rightarrow> pyval \<Rightarrow> ('n lodedb, search_hit list) act" where
  "search rt query k flt mode =
     bnd (guard (text_missing query) (ValueError ''query must be a non-empty string'')) (\<lambda>_.
     bnd (guard (k \<le> 0) (ValueError ''k must be positive'')) (\<lambda>_.
     bnd (gets (\<lambda>h. resolve_mode h mode)) (\<lambda>r.
     bnd (lift r) (\<lambda>resolved.
     bnd (lift (normalize_filter flt)) (\<lambda>f.
     native_search_text rt (py_str query) k f resolved)))))"

definition search_many ::
    "('n, 'p) runtime \<Rightarrow> pyval list \<Rightarrow> int \<Rightarrow> pyval option \<Rightarrow> pyval \<Rightarrow> ('n lodedb, search_hit list list) act" where
  "search_many rt queries k flt mode =
     bnd (guard (queries = []) (ValueError ''queries must be a non-empty list of strings'')) (\<lambda>_.
     bnd (guard (\<exists>q \<in> set queries. text_missing q) (ValueError ''each query must be a non-empty string'')) (\<lambda>_.
     bnd (guard (k \<le> 0) (ValueError ''k must be positive'')) (\<lambda>_.
     bnd (gets (\<lambda>h. resolve_mode h mode)) (\<lambda>r.
     bnd (lift r) (\<lambda>resolved.
     bnd (lift (normalize_filter flt)) (\<lambda>f.
     native_search_text_batch rt (map py_str queries) k f resolved))))))"

definition search_by_vector ::
    "('n, 'p) runtime \<Rightarrow> vector \<Rightarrow> int \<Rightarrow> pyval option \<Rightarrow> bool \<Rightarrow> ('n lodedb, search_hit list) act" where
  "search_by_vector rt v k flt unit_norm =
     bnd (guard (k \<le> 0) (ValueError ''k must be positive'')) (\<lambda>_.
     bnd (gets vector_dim) (\<lambda>width.
     bnd (lift (prepare_vector_matrix rt [v] width unit_norm)) (\<lambda>matrix.
     bnd (lift (normalize_filter flt)) (\<lambda>f.
     native_search_by_vector rt (hd matrix) k f))))"

definition search_many_by_vector ::
    "('n, 'p) runtime \<Rightarrow> vector list \<Rightarrow> int \<Rightarrow> pyval option \<Rightarrow> bool \<Rightarrow> ('n lodedb, search_hit list list) act" where
  "search_many_by_vector rt vs k flt unit_norm =
     bnd (guard (k \<le> 0) (ValueError ''k must be positive'')) (\<lambda>_.
     bnd (gets vector_dim) (\<lambda>width.
     bnd (lift (prepare_vector_matrix rt vs width unit_norm)) (\<lambda>matrix.
     bnd (lift (normalize_filter flt)) (\<lambda>f.
     native_search_many_by_vector rt matrix k f))))"

definition get_text :: "('n, 'p) runtime \<Rightarrow> pyval \<Rightarrow> ('n lodedb, string option) act" where
  "get_text rt i =
     bnd (guard (text_missing i) (ValueError ''id must be a non-empty string'')) (\<lambda>_.
     bnd (gets store_text) (\<lambda>st.
     bnd (guard (\<not> st) (ValueError ''raw text retrieval requires opening LodeDB with store_text=True'')) (\<lambda>_.
     fail_closed ''native_core_get_text_failed'' ''native core document read failed''
       (on_engine (get_document_text rt (py_str i))))))"

definition get_texts :: "('n, 'p) runtime \<Rightarrow> pyval list \<Rightarrow> ('n lodedb, (string, string) dict) act" where
  "get_texts rt ids =
     bnd (guard (\<exists>i \<in> set ids. text_missing i) (ValueError ''each id must be a non-empty string'')) (\<lambda>_.
     bnd (gets store_text) (\<lambda>st.
     bnd (guard (\<not> st) (ValueError ''raw text retrieval requires opening LodeDB with store_text=True'')) (\<lambda>_.
     if ids = [] then ret []
     else fail_closed ''native_core_get_texts_failed'' ''native core document read failed''
            (on_engine (get_document_texts rt (map py_str ids))))))"

record document_record =
  rec_id :: string
  rec_metadata :: json_obj
  rec_chunk_count :: int
  rec_content_hash :: string

definition public_document_record :: "json_obj \<Rightarrow> document_record res" where
  "public_document_record d =
     res_bind (py_int (py_or (pget d ''chunk_count'' (PInt 0)) (PInt 0))) (\<lambda>n.
       Inr \<lparr> rec_id = py_str (pget d ''document_id'' (PStr [])),
              rec_metadata = (case pget d ''metadata'' (PDict []) of PDict m \<Rightarrow> m | _ \<Rightarrow> []),
              rec_chunk_count = n,
              rec_content_hash = py_str (pget d ''content_hash'' (PStr [])) \<rparr>)"

definition get_document :: "('n, 'p) runtime \<Rightarrow> pyval \<Rightarrow> ('n lodedb, document_record option) act" where
  "get_document rt i =
     bnd (guard (text_missing i) (ValueError ''id must be a non-empty string'')) (\<lambda>_.
     bnd (fail_closed ''native_core_get_document_failed'' ''native core document read failed''
            (on_engine (engine_get_document rt (py_str i)))) (\<lambda>d.
     case d of None \<Rightarrow> ret None | Some r \<Rightarrow> bnd (lift (public_document_record r)) (\<lambda>p. ret (Some p))))"

definition native_list_documents ::
    "('n, 'p) runtime \<Rightarrow> pyval option \<Rightarrow> string option \<Rightarrow> int option \<Rightarrow> ('n lodedb, json_obj list) act" where
  "native_list_documents rt flt after limit =
     fail_closed ''native_core_list_documents_failed'' ''native core document read failed''
       (on_engine (engine_list_documents rt flt after limit))"

definition list_documents ::
    "('n, 'p) runtime \<Rightarrow> pyval option \<Rightarrow> string option \<Rightarrow> int option \<Rightarrow> ('n lodedb, document_record list) act" where
  "list_documents rt flt after limit =
     bnd (lift (normalize_filter flt)) (\<lambda>f.
     bnd (native_list_documents rt f after limit) (\<lambda>records.
     lift (res_mapM public_document_record records)))"

definition native_stats :: "('n, 'p) runtime \<Rightarrow> ('n lodedb, json_obj) act" where
  "native_stats rt = fail_closed ''native_core_stats_failed'' ''native core stats failed'' (on_engine (engine_stats rt))"

definition count_documents :: "('n, 'p) runtime \<Rightarrow> pyval option \<Rightarrow> ('n lodedb, int) act" where
  "count_documents rt flt = (case flt of
       None \<Rightarrow> bnd (native_stats rt) (\<lambda>d. lift (py_int (py_or (pget d ''document_count'' (PInt 0)) (PInt 0))))
     | Some _ \<Rightarrow>
         bnd (lift (normalize_filter flt)) (\<lambda>f.
         bnd (native_list_documents rt f None None) (\<lambda>records. ret (int (length records)))))"

definition persist :: "('n, 'p) runtime \<Rightarrow> ('n lodedb, json_obj) act" where
  "persist rt = bnd (gets read_only) (\<lambda>ro.
     bnd (if ro then ret () else native_persist rt) (\<lambda>_. native_stats rt))"

section \<open>Metadata and filters agree\<close>

lemma dict_build_from_map:
  assumes "dict_ok d" and "set (dkeys acc) \<inter> set (dkeys d) = {}" and "\<And>k v. (k, v) \<in> set d \<Longrightarrow> g k v = Inr (h v)"
  shows "dict_build_from g d acc = Inr (acc @ map (\<lambda>(k, v). (k, h v)) d)"
  using assms
proof (induction d arbitrary: acc)
  case (Cons p d)
  obtain k v where p: "p = (k, v)" by (cases p)
  have "k \<notin> set (dkeys acc)" using Cons.prems(2) p by auto
  then have u: "AList.update k (h v) acc = acc @ [(k, h v)]" by (rule update_new)
  have "dict_build_from g d (acc @ [(k, h v)]) = Inr ((acc @ [(k, h v)]) @ map (\<lambda>(k, v). (k, h v)) d)"
    using Cons.prems p by (intro Cons.IH) auto
  then show ?case using Cons.prems(3) [of k v] p u by simp
qed simp

lemma metadata_text_stringify: "metadata_text v = Inr t \<Longrightarrow> scalar sdk_stringify v = Inr (PStr t) \<and> \<not> is_mapping v"
  by (cases v) (auto simp: metadata_text_def scalar_def)

definition text_of :: "pyval \<Rightarrow> string" where
  "text_of v = projr (metadata_text v)"

lemma map_le_map_of:
  assumes "dict_ok m"
  shows "map_of m \<subseteq>\<^sub>m f \<longleftrightarrow> (\<forall>(k, t) \<in> set m. f k = Some t)"
proof
  assume l: "map_of m \<subseteq>\<^sub>m f"
  show "\<forall>(k, t) \<in> set m. f k = Some t"
  proof clarify
    fix k t assume "(k, t) \<in> set m"
    then have "map_of m k = Some t" using assms by simp
    then show "f k = Some t" using l by (metis domI map_le_def)
  qed
next
  assume "\<forall>(k, t) \<in> set m. f k = Some t"
  then show "map_of m \<subseteq>\<^sub>m f"
    unfolding map_le_def by (metis (mono_tags, lifting) case_prodD domD map_of_SomeD)
qed

lemma coerce_metadata_fold:
  assumes "res_fold (\<lambda>(key, value) coerced. case key of
           PStr k \<Rightarrow> res_bind (metadata_text value) (\<lambda>t. Inr (AList.update k t coerced))
         | _ \<Rightarrow> Inl (ValueError ''metadata keys must be strings'')) d acc = Inr m"
    and "dict_ok d" and "set (map (PStr \<circ> fst) acc) \<inter> set (dkeys d) = {}"
  shows "m = acc @ map (\<lambda>(k, v). (key_text k, text_of v)) d
    \<and> (\<forall>p \<in> set d. fst p = PStr (key_text (fst p)) \<and> metadata_text (snd p) = Inr (text_of (snd p)))"
  using assms
proof (induction d arbitrary: acc)
  case (Cons p d)
  obtain key w where p: "p = (key, w)" by (cases p)
  obtain k t where k: "key = PStr k" and t: "metadata_text w = Inr t"
    and r: "res_fold (\<lambda>(key, value) coerced. case key of
           PStr k \<Rightarrow> res_bind (metadata_text value) (\<lambda>t. Inr (AList.update k t coerced))
         | _ \<Rightarrow> Inl (ValueError ''metadata keys must be strings'')) d (AList.update k t acc) = Inr m"
    using Cons.prems(1) unfolding p by (cases key) auto
  have "k \<notin> set (dkeys acc)" using Cons.prems(3) p k by force
  then have u: "AList.update k t acc = acc @ [(k, t)]" by (rule update_new)
  have "PStr k \<notin> set (dkeys d)" using Cons.prems(2) p k by auto
  then have "set (map (PStr \<circ> fst) (acc @ [(k, t)])) \<inter> set (dkeys d) = {}" using Cons.prems(3) by auto
  from Cons.IH [OF r [unfolded u] _ this] Cons.prems(2) show ?case
    by (simp add: p k t text_of_def)
qed simp

lemma coerce_metadata_Inr:
  assumes "coerce_metadata (Some d) = Inr m" and "dict_ok d"
  shows "m = map (\<lambda>(k, v). (key_text k, text_of v)) d"
    and "\<And>k v. (k, v) \<in> set d \<Longrightarrow> k = PStr (key_text k) \<and> metadata_text v = Inr (text_of v)"
  using coerce_metadata_fold [of d "[]" m] assms by (force simp: coerce_metadata_def)+

definition plain_key :: "pyval \<Rightarrow> bool" where
  "plain_key k = (case k of PStr s \<Rightarrow> \<not> blank s \<and> \<not> py_startswith s ''$'' | _ \<Rightarrow> False)"

lemma logical_starts: "k \<in> set LOGICAL_OPERATORS \<Longrightarrow> py_startswith k ''$''"
  by (auto simp: LOGICAL_OPERATORS_def py_startswith_def)

lemma coerce_flat:
  assumes "d \<noteq> []" and "dict_ok d" and "list_all (\<lambda>(k, v). plain_key k \<and> metadata_text v = Inr (text_of v)) d"
  shows "coerce_sdk_filter (PDict d) = Inr (PDict (map (\<lambda>(k, v). (k, PStr (text_of v))) d))"
proof -
  have f: "walk_field sdk_stringify v = Inr (PStr (text_of v))" if "metadata_text v = Inr (text_of v)" for v
    using metadata_text_stringify [OF that] by (cases v) (auto simp: walk_field_def)
  define g where "g key spec = (case key of
       PStr k \<Rightarrow>
         (if blank k then Inl (ValueError ''filter keys must be non-blank strings'')
          else if k \<in> set LOGICAL_OPERATORS then walk_logical sdk_stringify 0 k spec
          else if py_startswith k ''$'' then Inl (ValueError ''unsupported filter operator at field level'')
          else walk_field sdk_stringify spec)
     | _ \<Rightarrow> Inl (ValueError ''filter keys must be non-blank strings''))" for key spec
  have "g k v = Inr (PStr (text_of v))" if "(k, v) \<in> set d" for k v
  proof -
    have "plain_key k" "metadata_text v = Inr (text_of v)" using assms(3) that by (auto simp: list_all_iff)
    then show ?thesis using logical_starts by (cases k) (auto simp: g_def plain_key_def f)
  qed
  then have "dict_build g d = Inr (map (\<lambda>(k, v). (k, PStr (text_of v))) d)"
    unfolding dict_build_def using dict_build_from_map [OF assms(2), of "[]" g "\<lambda>v. PStr (text_of v)"] by simp
  then show ?thesis
    using assms(1) unfolding coerce_sdk_filter_def walk.simps [of _ 0] g_def by (simp add: MAX_DEPTH_def)
qed

lemma sat_flat:
  assumes "list_all (\<lambda>(k, v). plain_key k) d"
  shows "sat m' (PDict (map (\<lambda>(k, v). (k, PStr (h v))) d))
     \<longleftrightarrow> (\<forall>(k, v) \<in> set d. map_of m' (key_text k) = Some (h v))"
proof -
  have "sat_entry m' (key_text k) (PStr t) \<longleftrightarrow> map_of m' (key_text k) = Some t" if "plain_key k" for k t
    using that logical_starts [of "key_text k"]
    by (cases k) (auto simp: plain_key_def sat_entry.simps sat_field_def LOGICAL_OPERATORS_def)
  then show ?thesis using assms by (induction d) (simp_all add: sat.simps case_prod_unfold)
qed



section \<open>Which vectors are accepted\<close>

definition zero_row :: "vector \<Rightarrow> bool" where
  "zero_row row = list_all (\<lambda>x. x = Finite 0) row"

lemma round32_zero [simp]: "round32 (Finite 0) = Finite 0"
  by (simp add: round32_def)

lemma round32_row_zero: "zero_row row \<Longrightarrow> zero_row (map round32 row)"
  by (auto simp: zero_row_def list_all_iff)

lemma max_abs_fold:
  assumes "list_all is_finite row" and "0 \<le> q"
  shows "\<exists>r. fold (\<lambda>x m. float_max m (float_abs x)) row (Finite q) = Finite r \<and> q \<le> r
    \<and> (r = 0 \<longleftrightarrow> q = 0 \<and> zero_row row)"
  using assms
proof (induction row arbitrary: q)
  case (Cons x row)
  then obtain a where x: "x = Finite a" by (cases x) auto
  obtain r where r: "fold (\<lambda>x m. float_max m (float_abs x)) row (Finite (max q \<bar>a\<bar>)) = Finite r" "max q \<bar>a\<bar> \<le> r"
    "r = 0 \<longleftrightarrow> max q \<bar>a\<bar> = 0 \<and> zero_row row"
    using Cons.IH [of "max q \<bar>a\<bar>"] Cons.prems by (metis abs_ge_zero list.pred_inject(2) max.coboundedI2)
  have "float_max (Finite q) (float_abs x) = Finite (max q \<bar>a\<bar>)"
    by (auto simp: x float_max_def float_abs_def max_def)
  moreover have "max q \<bar>a\<bar> = 0 \<longleftrightarrow> q = 0 \<and> a = 0" using Cons.prems(2) by (auto simp: max_def split: if_splits)
  ultimately show ?case using r by (auto simp: x zero_row_def)
qed (auto simp: zero_row_def)

lemma max_abs_zero: "list_all is_finite row \<Longrightarrow> max_abs row = Finite 0 \<longleftrightarrow> zero_row row"
  using max_abs_fold [of row 0] by (auto simp: max_abs_def)

lemma l2_normalize_wide_cases:
  assumes "list_all (list_all is_finite) wide"
  shows "case l2_normalize_wide rt wide of
       Inr matrix \<Rightarrow> \<not> list_ex zero_row wide \<and> map length matrix = map length wide
     | Inl e \<Rightarrow> list_ex zero_row wide \<and> (\<exists>msg. e = ValueError msg)"
  using assms max_abs_zero by (auto simp: l2_normalize_wide_def list_all_iff list_ex_iff Let_def)

lemma round32_finite: "is_finite (round32 x) \<Longrightarrow> is_finite x"
  by (cases x) (auto simp: round32_def)

definition acceptable :: "nat \<Rightarrow> bool \<Rightarrow> vector list \<Rightarrow> bool" where
  "acceptable width unit_norm vectors \<longleftrightarrow>
     vectors \<noteq> [] \<and> 0 < width \<and> list_all (\<lambda>row. length row = width \<and> list_all is_finite row) vectors
     \<and> (unit_norm \<longrightarrow> \<not> list_ex zero_row vectors)"

text \<open>
  C21. What \<open>add_vectors\<close>, \<open>add_vectors_many\<close> and the vector searches accept.  The only fact used of
  NumPy is that the norm of a zero row is zero.  A batch is accepted exactly when it is not empty,
  every row has the index's (positive) dimension, every component is finite, and, when it is to be
  normalized, no row is zero: components too large or too small for single precision are not
  refused.  An accepted batch keeps its shape; every refusal is a \<open>ValueError\<close>.
\<close>

theorem vector_batch_accepted_iff:
  assumes norm: "\<And>row. zero_row row \<Longrightarrow> row_norm rt row = Finite 0"
  shows "case prepare_vector_matrix rt vectors width unit_norm of
       Inr matrix \<Rightarrow> acceptable width unit_norm vectors \<and> map length matrix = map length vectors
     | Inl e \<Rightarrow> \<not> acceptable width unit_norm vectors \<and> (\<exists>msg. e = ValueError msg)"
proof -
  let ?m = "map (map round32) vectors" and ?r = "prepare_vector_matrix rt vectors width unit_norm"
  have wide: "case l2_normalize_wide rt vectors of
       Inr matrix \<Rightarrow> \<not> list_ex zero_row vectors \<and> map length matrix = map length vectors
     | Inl e \<Rightarrow> list_ex zero_row vectors \<and> (\<exists>msg. e = ValueError msg)" if "list_all (list_all is_finite) vectors"
    by (rule l2_normalize_wide_cases [OF that])
  consider (ragged) "\<exists>row \<in> set vectors. length row \<noteq> length (hd vectors)"
    | (empty) "\<forall>row \<in> set vectors. length row = length (hd vectors)" "concat ?m = []"
    | (shape) "\<forall>row \<in> set vectors. length row = length (hd vectors)" "concat ?m \<noteq> []" "length (hd vectors) \<noteq> width"
    | (fits) "\<forall>row \<in> set vectors. length row = width" "vectors \<noteq> []" "0 < width" "concat ?m \<noteq> []" "length (hd vectors) = width"
  proof (cases "\<exists>row \<in> set vectors. length row \<noteq> length (hd vectors)")
    case False
    then show ?thesis using that by (cases vectors) (auto, fastforce+)
  qed (rule that(1))
  then show ?thesis
  proof cases
    case ragged
    then obtain row where "row \<in> set vectors" "length row \<noteq> length (hd vectors)" by blast
    moreover from this have "hd vectors \<in> set vectors" by (cases vectors) auto
    ultimately have "\<not> acceptable width unit_norm vectors" by (auto simp: acceptable_def list_all_iff)
    then show ?thesis using ragged by (simp add: prepare_vector_matrix_def Let_def)
  next
    case empty
    then have "\<not> acceptable width unit_norm vectors" by (cases vectors) (auto simp: acceptable_def)
    then show ?thesis using empty by (simp add: prepare_vector_matrix_def Let_def)
  next
    case shape
    have "vectors \<noteq> []" using shape(2) by auto
    then have h: "length (hd ?m) = length (hd vectors)" and "hd vectors \<in> set vectors" by (simp_all add: hd_map)
    then have "\<not> acceptable width unit_norm vectors" using shape(3) by (auto simp: acceptable_def list_all_iff)
    then show ?thesis using shape h by (simp add: prepare_vector_matrix_def Let_def)
  next
    case fits
    have h: "hd ?m = map round32 (hd vectors)" using fits(2) by (simp add: hd_map)
    have acc: "acceptable width unit_norm vectors \<longleftrightarrow>
        list_all (list_all is_finite) vectors \<and> (unit_norm \<longrightarrow> \<not> list_ex zero_row vectors)"
      using fits by (auto simp: acceptable_def list_all_iff)
    show ?thesis
    proof (cases "list_all (list_all is_finite) vectors")
      case False
      then have "\<not> list_all (list_all is_finite) ?m" using round32_finite by (auto simp: list_all_iff)
      then show ?thesis using False fits h acc by (simp add: prepare_vector_matrix_def Let_def)
    next
      case True
      have z: "\<exists>row \<in> set ?m. row_norm rt row = Finite 0" if "list_ex zero_row vectors"
        using that norm round32_row_zero by (auto simp: list_ex_iff)
      have len: "map length ?m = map length vectors" by (simp add: comp_def)
      have r: "?r = (if \<not> unit_norm then Inr ?m
          else if \<not> list_all (list_all is_finite) ?m \<or> (\<exists>row \<in> set ?m. row_norm rt row = Finite 0)
          then l2_normalize_wide rt vectors
          else Inr (map (\<lambda>row. map (\<lambda>x. round32 (float_div x (row_norm rt row))) row) ?m))"
        using True fits h unfolding prepare_vector_matrix_def Let_def by (simp del: concat_eq_Nil_conv)
      show ?thesis
      proof (cases "\<not> unit_norm")
        case True
        then show ?thesis unfolding r using acc len \<open>list_all (list_all is_finite) vectors\<close> by simp
      next
        case False
        then show ?thesis unfolding r using acc len z wide [OF True] True by (auto simp: comp_def split: sum.split)
      qed
    qed
  qed
qed

end
