(* ===== verification/Topology.thy ===== *)
theory Topology
  imports JsonCodec "HOL-Library.Multiset"
begin

text \<open>
  The SQLite topology store of a knowledge graph (\<open>graph/_store.py\<close>): nodes, typed edges and
  retained node vectors.  A table is an association list from the primary key to the other
  columns, in the order of its row ids: an upsert keeps the place of an existing row and puts a new
  row last.  A property column holds the text \<open>json.dumps\<close> wrote.

  The order in which SQLite returns the rows of a statement without \<open>ORDER BY\<close> is not
  specified, nor is the order in which Python iterates a set.  Both are functions of the record
  \<open>plan\<close>, which every reading operation takes; \<open>plan_ok\<close> says they only rearrange.  A vector blob is
  the list of its single-precision values (a negative zero is not told from zero).  The store is
  used from one thread, and a statement that fails rolls its transaction back.
\<close>

section \<open>Definitions\<close>

subsection \<open>Rows and tables\<close>

record node =
  node_id :: string
  node_type :: string
  node_label :: string
  node_properties :: pyval

record edge =
  edge_id :: string
  src :: string
  relation :: string
  dst :: string
  edge_properties :: pyval

type_synonym node_row = "string \<times> string \<times> string \<times> string"
type_synonym edge_row = "string \<times> string \<times> string \<times> string \<times> string"

record topology =
  nodes :: "(string, string \<times> string \<times> string) dict"
  edges :: "(string, string \<times> string \<times> string \<times> string) dict"
  node_vectors :: "(string, vector) dict"

record plan =
  node_scan :: "string list \<Rightarrow> node_row list \<Rightarrow> node_row list"
  edge_scan :: "string \<Rightarrow> string list \<Rightarrow> edge_row list \<Rightarrow> edge_row list"
  vector_scan :: "(string \<times> vector) list \<Rightarrow> (string \<times> vector) list"
  set_iter :: "string list \<Rightarrow> string list"

definition plan_ok :: "plan \<Rightarrow> bool" where
  "plan_ok pl \<longleftrightarrow> (\<forall>q rs. mset (node_scan pl q rs) = mset rs) \<and> (\<forall>d q rs. mset (edge_scan pl d q rs) = mset rs)
     \<and> (\<forall>rs. mset (vector_scan pl rs) = mset rs) \<and> (\<forall>xs. mset (set_iter pl xs) = mset xs)"

definition topology_init :: topology where
  "topology_init = \<lparr> nodes = [], edges = [], node_vectors = [] \<rparr>"

definition node_from_row :: "node_row \<Rightarrow> node res" where
  "node_from_row row = (case row of (i, t, l, p) \<Rightarrow>
     res_bind (json_loads p) (\<lambda>props.
       Inr \<lparr> node_id = i, node_type = t, node_label = l, node_properties = props \<rparr>))"

definition edge_from_row :: "edge_row \<Rightarrow> edge res" where
  "edge_from_row row = (case row of (i, a, r, b, p) \<Rightarrow>
     res_bind (json_loads p) (\<lambda>props.
       Inr \<lparr> edge_id = i, src = a, relation = r, dst = b, edge_properties = props \<rparr>))"

text \<open>\<open>for v in vs: d[f(v)] = v\<close>.\<close>

definition index_by :: "('v \<Rightarrow> 'k) \<Rightarrow> 'v list \<Rightarrow> ('k, 'v) dict \<Rightarrow> ('k, 'v) dict" where
  "index_by f vs d = fold (\<lambda>v. AList.update (f v) v) vs d"

text \<open>\<open>executemany\<close> of an upsert: one row after the other.\<close>

definition upsert_rows :: "('k \<times> 'c) list \<Rightarrow> ('k, 'c) dict \<Rightarrow> ('k, 'c) dict" where
  "upsert_rows rows table = fold (\<lambda>(i, c). AList.update i c) rows table"

subsection \<open>Nodes\<close>

definition upsert_nodes :: "topology \<Rightarrow> node list \<Rightarrow> topology res" where
  "upsert_nodes s ns =
     res_bind (res_mapM (\<lambda>n. res_bind (json_dumps plain_style (node_properties n)) (\<lambda>p.
                 Inr (node_id n, node_type n, node_label n, p))) ns) (\<lambda>rows.
       if rows = [] then Inr s else Inr (s \<lparr> nodes := upsert_rows rows (nodes s) \<rparr>))"

definition upsert_node :: "topology \<Rightarrow> node \<Rightarrow> topology res" where
  "upsert_node s n = upsert_nodes s [n]"

definition get_node :: "topology \<Rightarrow> string \<Rightarrow> node option res" where
  "get_node s i = (case map_of (nodes s) i of
       None \<Rightarrow> Inr None
     | Some c \<Rightarrow> res_bind (node_from_row (i, c)) (\<lambda>n. Inr (Some n)))"

definition IN_CHUNK :: nat where
  "IN_CHUNK = 400"

definition batches :: "string list \<Rightarrow> string list list" where
  "batches ids = map (\<lambda>b. take IN_CHUNK (drop (b * IN_CHUNK) ids)) [0..<(length ids + IN_CHUNK - 1) div IN_CHUNK]"

definition get_nodes :: "plan \<Rightarrow> topology \<Rightarrow> string list \<Rightarrow> node list res" where
  "get_nodes pl s ids =
     res_fold (\<lambda>batch found.
       res_bind (res_mapM node_from_row (node_scan pl batch (filter (\<lambda>row. fst row \<in> set batch) (nodes s)))) (\<lambda>ns.
         Inr (found @ ns))) (batches ids) []"

text \<open>A vector refers to a node: inserting one for an unknown node fails and rolls the statement back.\<close>

definition set_node_vectors :: "topology \<Rightarrow> (string \<times> vector) list \<Rightarrow> topology res" where
  "set_node_vectors s items =
     (let rows = map (\<lambda>(i, v). (i, map round32 v)) items
      in if rows = [] then Inr s
         else res_bind (raise_if (\<exists>r \<in> set rows. fst r \<notin> set (dkeys (nodes s))) (IntegrityError ''FOREIGN KEY constraint failed'')) (\<lambda>_.
           Inr (s \<lparr> node_vectors := upsert_rows rows (node_vectors s) \<rparr>)))"

definition get_node_vector :: "topology \<Rightarrow> string \<Rightarrow> vector option" where
  "get_node_vector s i = map_of (node_vectors s) i"

definition iter_node_vectors :: "plan \<Rightarrow> topology \<Rightarrow> (string \<times> vector) list" where
  "iter_node_vectors pl s = vector_scan pl (node_vectors s)"

definition remove_node_vector :: "topology \<Rightarrow> string \<Rightarrow> topology" where
  "remove_node_vector s i = s \<lparr> node_vectors := AList.delete i (node_vectors s) \<rparr>"

text \<open>Deleting the node row deletes its vector row too (\<open>ON DELETE CASCADE\<close>).\<close>

definition store_remove_node :: "plan \<Rightarrow> topology \<Rightarrow> string \<Rightarrow> topology \<times> bool \<times> string list" where
  "store_remove_node pl s i =
     (let touches = (\<lambda>(_, a, _, b, _). a = i \<or> b = i);
          incident = map fst (edge_scan pl ''both'' [i, i] (filter touches (edges s)))
      in (\<lparr> nodes = AList.delete i (nodes s), edges = filter (\<lambda>row. \<not> touches row) (edges s),
            node_vectors = AList.delete i (node_vectors s) \<rparr>,
          i \<in> set (dkeys (nodes s)), incident))"

definition all_node_ids :: "plan \<Rightarrow> topology \<Rightarrow> string list" where
  "all_node_ids pl s = map fst (node_scan pl [] (nodes s))"

definition iter_nodes :: "plan \<Rightarrow> topology \<Rightarrow> node list res" where
  "iter_nodes pl s = res_mapM node_from_row (node_scan pl [] (nodes s))"

definition node_count :: "topology \<Rightarrow> nat" where
  "node_count s = length (nodes s)"

subsection \<open>Edges\<close>

definition upsert_edges :: "topology \<Rightarrow> edge list \<Rightarrow> topology res" where
  "upsert_edges s es =
     res_bind (res_mapM (\<lambda>e. res_bind (json_dumps plain_style (edge_properties e)) (\<lambda>p.
                 Inr (edge_id e, src e, relation e, dst e, p))) es) (\<lambda>rows.
       if rows = [] then Inr s else Inr (s \<lparr> edges := upsert_rows rows (edges s) \<rparr>))"

definition upsert_edge :: "topology \<Rightarrow> edge \<Rightarrow> topology res" where
  "upsert_edge s e = upsert_edges s [e]"

definition get_edge :: "topology \<Rightarrow> string \<Rightarrow> edge option res" where
  "get_edge s i = (case map_of (edges s) i of
       None \<Rightarrow> Inr None
     | Some c \<Rightarrow> res_bind (edge_from_row (i, c)) (\<lambda>e. Inr (Some e)))"

definition store_remove_edge :: "topology \<Rightarrow> string \<Rightarrow> topology \<times> bool" where
  "store_remove_edge s i = (s \<lparr> edges := AList.delete i (edges s) \<rparr>, i \<in> set (dkeys (edges s)))"

definition iter_edges :: "plan \<Rightarrow> topology \<Rightarrow> edge list res" where
  "iter_edges pl s = res_mapM edge_from_row (edge_scan pl [] [] (edges s))"

definition edge_count :: "topology \<Rightarrow> nat" where
  "edge_count s = length (edges s)"

subsection \<open>Traversal\<close>

definition DIRECTIONS :: "string list" where
  "DIRECTIONS = [''out'', ''in'', ''both'']"

text \<open>The \<open>WHERE\<close> clause of a batch, and the values it binds.\<close>

definition edge_where :: "string \<Rightarrow> string option \<Rightarrow> string list \<Rightarrow> edge_row \<Rightarrow> bool" where
  "edge_where direction rel batch row = (case row of (_, a, r, b, _) \<Rightarrow>
     (if direction = ''out'' then a \<in> set batch
      else if direction = ''in'' then b \<in> set batch
      else a \<in> set batch \<or> b \<in> set batch)
     \<and> (case rel of None \<Rightarrow> True | Some r' \<Rightarrow> r = r'))"

definition edge_params :: "string \<Rightarrow> string option \<Rightarrow> string list \<Rightarrow> string list" where
  "edge_params direction rel batch =
     (if direction = ''out'' \<or> direction = ''in'' then batch else batch @ batch)
     @ (case rel of None \<Rightarrow> [] | Some r \<Rightarrow> [r])"

definition edges_for :: "plan \<Rightarrow> topology \<Rightarrow> string list \<Rightarrow> string \<Rightarrow> string option \<Rightarrow> edge list res" where
  "edges_for pl s ids direction rel =
     res_bind (raise_if (direction \<notin> set DIRECTIONS) (ValueError ''direction must be one of'')) (\<lambda>_.
     if ids = [] then Inr []
     else res_bind (res_fold (\<lambda>batch found.
            res_bind (res_mapM edge_from_row
                (edge_scan pl direction (edge_params direction rel batch) (filter (edge_where direction rel batch) (edges s)))) (\<lambda>es.
              Inr (index_by edge_id es found))) (batches ids) []) (\<lambda>found.
       Inr (map snd found)))"

definition store_neighbors :: "plan \<Rightarrow> topology \<Rightarrow> string \<Rightarrow> string \<Rightarrow> string option \<Rightarrow> edge list res" where
  "store_neighbors pl s i direction rel = edges_for pl s [i] direction rel"

subsection \<open>Well-formed stores\<close>

definition rows_load :: "topology \<Rightarrow> bool" where
  "rows_load s = (list_all (\<lambda>row. is_ok (node_from_row row)) (nodes s) \<and> list_all (\<lambda>row. is_ok (edge_from_row row)) (edges s))"

text \<open>Keys are unique, every property text is readable, and every vector belongs to a node.\<close>

definition topology_ok :: "topology \<Rightarrow> bool" where
  "topology_ok s = (dict_ok (nodes s) \<and> dict_ok (edges s) \<and> dict_ok (node_vectors s) \<and> rows_load s
     \<and> set (dkeys (node_vectors s)) \<subseteq> set (dkeys (nodes s)))"

text \<open>The mutating operations as data, to speak of sequences of them.\<close>

datatype store_op =
    UpsertNodes "node list"
  | SetNodeVectors "(string \<times> vector) list"
  | RemoveNodeVector string
  | RemoveNode string
  | UpsertEdges "edge list"
  | RemoveEdge string

definition run_op :: "plan \<Rightarrow> store_op \<Rightarrow> topology \<Rightarrow> topology res" where
  "run_op pl x s = (case x of
       UpsertNodes ns \<Rightarrow> upsert_nodes s ns
     | SetNodeVectors items \<Rightarrow> set_node_vectors s items
     | RemoveNodeVector i \<Rightarrow> Inr (remove_node_vector s i)
     | RemoveNode i \<Rightarrow> Inr (fst (store_remove_node pl s i))
     | UpsertEdges es \<Rightarrow> upsert_edges s es
     | RemoveEdge i \<Rightarrow> Inr (fst (store_remove_edge s i)))"

definition op_typed :: "store_op \<Rightarrow> bool" where
  "op_typed x = (case x of
       UpsertNodes ns \<Rightarrow> list_all (\<lambda>n. json_ok (node_properties n)) ns
     | UpsertEdges es \<Rightarrow> list_all (\<lambda>e. json_ok (edge_properties e)) es
     | _ \<Rightarrow> True)"

section \<open>Batches\<close>

lemma batches_Suc:
  assumes "ids \<noteq> []"
  shows "batches ids = take IN_CHUNK ids # batches (drop IN_CHUNK ids)"
proof -
  let ?n = "length ids" and ?c = IN_CHUNK
  have c: "0 < ?c" by (simp add: IN_CHUNK_def)
  have "(?n + ?c - 1) div ?c = Suc ((?n - ?c + ?c - 1) div ?c)"
  proof (cases "?c \<le> ?n")
    case True
    then have "?n + ?c - 1 = (?n - ?c + ?c - 1) + ?c" using c by simp
    then show ?thesis using c by (metis div_add_self2 not_gr_zero Suc_eq_plus1)
  next
    case False
    with assms c have "(?n + ?c - 1) div ?c = 1" by (intro div_nat_eqI) (cases ids; simp)+
    with False c show ?thesis by simp
  qed
  then show ?thesis
    by (simp add: batches_def upt_conv_Cons map_Suc_upt [symmetric] add.commute del: upt_Suc)
qed

lemma batches_Nil [simp]: "batches [] = []"
  by (simp add: batches_def IN_CHUNK_def)

lemma concat_batches [simp]: "concat (batches ids) = ids"
proof (induction ids rule: length_induct)
  case (1 ids)
  show ?case
  proof (cases "ids = []")
    case False
    then have "length (drop IN_CHUNK ids) < length ids" by (simp add: IN_CHUNK_def)
    with 1 False show ?thesis by (simp add: batches_Suc)
  qed simp
qed

lemma batch_length: "b \<in> set (batches ids) \<Longrightarrow> length b \<le> IN_CHUNK"
  by (auto simp: batches_def)

lemma set_batches: "(\<Union>b \<in> set (batches ids). set b) = set ids"
  by (metis concat_batches set_concat)

section \<open>Dicts built from rows\<close>

definition keyed :: "('v \<Rightarrow> 'k) \<Rightarrow> 'v set \<Rightarrow> ('k, 'v) dict \<Rightarrow> bool" where
  "keyed f A d \<longleftrightarrow> inj_on f A \<and> dict_ok d \<and> (\<forall>p \<in> set d. fst p = f (snd p) \<and> snd p \<in> A)"

lemma keyed_Nil [simp]: "keyed f A [] \<longleftrightarrow> inj_on f A"
  by (simp add: keyed_def)

lemma keyed_update:
  assumes d: "keyed f A d" and v: "v \<in> A"
  shows "keyed f A (AList.update (f v) v d) \<and> set (map snd (AList.update (f v) v d)) = insert v (set (map snd d))"
proof -
  have inj: "inj_on f A" and ok: "dict_ok d" and e: "\<And>p. p \<in> set d \<Longrightarrow> fst p = f (snd p) \<and> snd p \<in> A"
    using d by (auto simp: keyed_def)
  show ?thesis
  proof (cases "f v \<in> set (dkeys d)")
    case True
    then obtain p where p: "p \<in> set d" "fst p = f v" by auto
    with e [OF p(1)] inj v have "snd p = v" by (metis inj_onD)
    with p have m: "(f v, v) \<in> set d" by (metis prod.collapse)
    moreover from this ok have "map_of d (f v) = Some v" by simp
    ultimately have "AList.update (f v) v d = d" and "v \<in> set (map snd d)"
      by (auto simp: update_triv simp del: map_of_eq_Some_iff intro: rev_image_eqI)
    then show ?thesis using d by auto
  next
    case False
    then show ?thesis using d v by (auto simp: update_new keyed_def)
  qed
qed

lemma index_by_keyed:
  assumes "keyed f A d" and "set vs \<subseteq> A"
  shows "keyed f A (index_by f vs d) \<and> set (map snd (index_by f vs d)) = set (map snd d) \<union> set vs"
  using assms
proof (induction vs arbitrary: d)
  case (Cons v vs)
  note u = keyed_update [OF Cons.prems(1), of v]
  have "keyed f A (index_by f vs (AList.update (f v) v d))
      \<and> set (map snd (index_by f vs (AList.update (f v) v d))) = set (map snd (AList.update (f v) v d)) \<union> set vs"
    using Cons.prems u by (intro Cons.IH) auto
  then show ?case using u Cons.prems(2) by (auto simp: index_by_def)
qed (simp add: index_by_def)

lemma keyed_distinct:
  assumes "keyed f A d"
  shows "distinct (map f (map snd d))"
proof -
  have "map f (map snd d) = dkeys d" using assms by (auto simp: keyed_def)
  moreover have "dict_ok d" using assms by (simp add: keyed_def)
  ultimately show ?thesis by metis
qed

section \<open>Reading rows\<close>

lemma plan_sets:
  assumes "plan_ok pl"
  shows "set (node_scan pl q rs) = set rs" "set (edge_scan pl d q es) = set es"
    "set (vector_scan pl vs) = set vs" "set (set_iter pl xs) = set xs"
  using assms unfolding plan_ok_def by (metis set_mset_mset)+

lemma mset_distinct_map: "mset xs = mset ys \<Longrightarrow> distinct (map h ys) \<Longrightarrow> distinct (map h xs)"
  by (metis mset_eq_imp_distinct_iff mset_map)

lemma plan_keys:
  assumes "plan_ok pl"
  shows "dict_ok rs \<Longrightarrow> dict_ok (node_scan pl q rs)" and "dict_ok es \<Longrightarrow> dict_ok (edge_scan pl d q es)"
    and "dict_ok vs \<Longrightarrow> dict_ok (vector_scan pl vs)"
  using assms by (auto simp: plan_ok_def elim!: mset_distinct_map [rotated])

definition stored_nodes :: "topology \<Rightarrow> node set" where
  "stored_nodes s = {n. \<exists>row \<in> set (nodes s). node_from_row row = Inr n}"

definition stored_edges :: "topology \<Rightarrow> edge set" where
  "stored_edges s = {e. \<exists>row \<in> set (edges s). edge_from_row row = Inr e}"

definition incident :: "string \<Rightarrow> string option \<Rightarrow> string set \<Rightarrow> edge \<Rightarrow> bool" where
  "incident direction rel U e \<longleftrightarrow>
     (direction \<noteq> ''in'' \<and> src e \<in> U \<or> direction \<noteq> ''out'' \<and> dst e \<in> U) \<and> (\<forall>r. rel = Some r \<longrightarrow> relation e = r)"

lemma node_row_id: "node_from_row row = Inr n \<Longrightarrow> node_id n = fst row"
  by (auto simp: node_from_row_def split: prod.splits)

lemma edge_row_id: "edge_from_row row = Inr e \<Longrightarrow> edge_id e = fst row"
  by (auto simp: edge_from_row_def split: prod.splits)

lemma edge_where_incident:
  assumes "edge_from_row row = Inr e" and "direction \<in> set DIRECTIONS"
  shows "edge_where direction rel b row \<longleftrightarrow> incident direction rel (set b) e"
proof -
  obtain i a r c p where row: "row = (i, a, r, c, p)" by (metis prod_cases5)
  have e: "src e = a" "relation e = r" "dst e = c"
    using assms(1) by (auto simp: edge_from_row_def row)
  show ?thesis
    using assms(2) by (cases rel) (auto simp: edge_where_def incident_def DIRECTIONS_def row e)
qed

lemma inj_rows:
  assumes "dict_ok d" and "\<And>row x. f row = Inr x \<Longrightarrow> g x = fst row"
  shows "inj_on g {x. \<exists>row \<in> set d. f row = Inr x}"
proof (rule inj_onI)
  fix x y assume x: "x \<in> {x. \<exists>row \<in> set d. f row = Inr x}" and y: "y \<in> {x. \<exists>row \<in> set d. f row = Inr x}" and xy: "g x = g y"
  obtain p where p: "p \<in> set d" "f p = Inr x" using x by blast
  obtain q where q: "q \<in> set d" "f q = Inr y" using y by blast
  have k: "fst p = fst q" using xy unfolding assms(2) [OF p(2)] assms(2) [OF q(2)] .
  have "snd p = snd q"
    by (rule eq_key_imp_eq_value [OF assms(1), of "fst p"]) (simp add: p(1), simp add: k q(1))
  with k have "p = q" by (rule prod_eqI)
  with p q show "x = y" by simp
qed

lemma inj_stored:
  assumes "topology_ok s"
  shows "inj_on node_id (stored_nodes s)" and "inj_on edge_id (stored_edges s)"
  using assms unfolding stored_nodes_def stored_edges_def topology_ok_def
  by (auto intro!: inj_rows node_row_id edge_row_id simp del: split_paired_Ex)

lemma mapM_rows:
  assumes "\<And>x. x \<in> set xs \<Longrightarrow> is_ok (f x)"
  obtains ys where "res_mapM f xs = Inr ys" and "set ys = {y. \<exists>x \<in> set xs. f x = Inr y}"
proof -
  define g where "g x = projr (f x)" for x
  have g: "f x = Inr (g x)" if "x \<in> set xs" for x using assms [OF that] by (auto simp: is_ok_iff g_def)
  then have "res_mapM f xs = Inr (map g xs)" by (rule res_mapM_ok)
  moreover have "set (map g xs) = {y. \<exists>x \<in> set xs. f x = Inr y}" using g by force
  ultimately show ?thesis by (rule that)
qed

lemma mapM_is_ok: "(\<And>x. x \<in> set xs \<Longrightarrow> is_ok (f x)) \<Longrightarrow> is_ok (res_mapM f xs)"
  by (rule mapM_rows [of xs f]) auto

lemma edge_batch:
  assumes pl: "plan_ok pl" and s: "topology_ok s" and dir: "direction \<in> set DIRECTIONS"
  obtains es where "res_mapM edge_from_row (edge_scan pl direction q (filter (edge_where direction rel b) (edges s))) = Inr es"
    and "set es = {e \<in> stored_edges s. incident direction rel (set b) e}"
proof -
  have ok: "is_ok (edge_from_row row)" if "row \<in> set (edges s)" for row
    using s that by (auto simp: topology_ok_def rows_load_def list_all_iff)
  obtain es where es: "res_mapM edge_from_row (edge_scan pl direction q (filter (edge_where direction rel b) (edges s))) = Inr es"
      "set es = {e. \<exists>row \<in> set (edge_scan pl direction q (filter (edge_where direction rel b) (edges s))). edge_from_row row = Inr e}"
    by (rule mapM_rows [of "edge_scan pl direction q (filter (edge_where direction rel b) (edges s))" edge_from_row])
      (auto simp: plan_sets [OF pl] ok)
  have "set es = {e \<in> stored_edges s. incident direction rel (set b) e}"
    unfolding es(2) plan_sets [OF pl] stored_edges_def
    by (auto simp: edge_where_incident [OF _ dir] simp del: split_paired_Ex intro!: bexI)
  with es(1) show ?thesis by (rule that)
qed

lemma edges_for_batches:
  assumes pl: "plan_ok pl" and s: "topology_ok s" and dir: "direction \<in> set DIRECTIONS"
    and d: "keyed edge_id (stored_edges s) d"
  shows "\<exists>d'. res_fold (\<lambda>batch found.
            res_bind (res_mapM edge_from_row
                (edge_scan pl direction (edge_params direction rel batch) (filter (edge_where direction rel batch) (edges s)))) (\<lambda>es.
              Inr (index_by edge_id es found))) bs d = Inr d' \<and> keyed edge_id (stored_edges s) d'
          \<and> set (map snd d') = set (map snd d) \<union> {e \<in> stored_edges s. \<exists>b \<in> set bs. incident direction rel (set b) e}"
  using d
proof (induction bs arbitrary: d)
  case (Cons b bs)
  obtain es where es: "res_mapM edge_from_row (edge_scan pl direction (edge_params direction rel b) (filter (edge_where direction rel b) (edges s))) = Inr es"
    "set es = {e \<in> stored_edges s. incident direction rel (set b) e}"
    by (rule edge_batch [OF pl s dir])
  have k: "keyed edge_id (stored_edges s) (index_by edge_id es d)"
    "set (map snd (index_by edge_id es d)) = set (map snd d) \<union> set es"
    using index_by_keyed [OF Cons.prems, of es] es(2) by auto
  show ?case using Cons.IH [OF k(1)] k(2) es by auto
qed auto

lemma incident_batches:
  "(\<exists>b \<in> set (batches ids). incident direction rel (set b) e) \<longleftrightarrow> incident direction rel (set ids) e"
  unfolding incident_def set_batches [symmetric, of ids] by blast

text \<open>The batched query returns exactly the edges the whole list of ids selects, each once.\<close>

lemma edges_for_spec:
  assumes "plan_ok pl" and "topology_ok s" and "direction \<in> set DIRECTIONS"
  shows "\<exists>es. edges_for pl s ids direction rel = Inr es \<and> distinct (map edge_id es)
          \<and> set es = {e \<in> stored_edges s. incident direction rel (set ids) e}"
proof (cases "ids = []")
  case True
  then show ?thesis using assms(3) by (simp add: edges_for_def incident_def)
next
  case False
  have "keyed edge_id (stored_edges s) []" using inj_stored [OF assms(2)] by simp
  from edges_for_batches [OF assms this, of rel "batches ids"] obtain d where
    d: "edges_for pl s ids direction rel = Inr (map snd d)" "keyed edge_id (stored_edges s) d"
      "set (map snd d) = {e \<in> stored_edges s. \<exists>b \<in> set (batches ids). incident direction rel (set b) e}"
    using False assms(3) by (auto simp: edges_for_def)
  have "distinct (map edge_id (map snd d))" by (rule keyed_distinct [OF d(2)])
  then show ?thesis using d(1,3) unfolding incident_batches by blast
qed

lemma get_nodes_batches:
  assumes pl: "plan_ok pl" and s: "topology_ok s"
  shows "\<exists>ns. res_fold (\<lambda>batch found.
       res_bind (res_mapM node_from_row (node_scan pl batch (filter (\<lambda>row. fst row \<in> set batch) (nodes s)))) (\<lambda>ns.
         Inr (found @ ns))) bs d = Inr (d @ ns) \<and> set ns = {n \<in> stored_nodes s. \<exists>b \<in> set bs. node_id n \<in> set b}"
proof (induction bs arbitrary: d)
  case (Cons b bs)
  let ?rows = "node_scan pl b (filter (\<lambda>row. fst row \<in> set b) (nodes s))"
  have "\<And>row. row \<in> set ?rows \<Longrightarrow> is_ok (node_from_row row)"
    using s by (auto simp: topology_ok_def rows_load_def list_all_iff plan_sets [OF pl])
  then obtain ns where ns: "res_mapM node_from_row ?rows = Inr ns" "set ns = {n. \<exists>row \<in> set ?rows. node_from_row row = Inr n}"
    by (rule mapM_rows)
  have n: "set ns = {n \<in> stored_nodes s. node_id n \<in> set b}"
    unfolding ns(2) plan_sets [OF pl] stored_nodes_def using node_row_id by force
  obtain ms where "res_fold (\<lambda>batch found.
       res_bind (res_mapM node_from_row (node_scan pl batch (filter (\<lambda>row. fst row \<in> set batch) (nodes s)))) (\<lambda>ns.
         Inr (found @ ns))) bs (d @ ns) = Inr ((d @ ns) @ ms)" "set ms = {n \<in> stored_nodes s. \<exists>b \<in> set bs. node_id n \<in> set b}"
    using Cons.IH by blast
  then have "res_fold (\<lambda>batch found.
       res_bind (res_mapM node_from_row (node_scan pl batch (filter (\<lambda>row. fst row \<in> set batch) (nodes s)))) (\<lambda>ns.
         Inr (found @ ns))) (b # bs) d = Inr (d @ ns @ ms)"
    and "set (ns @ ms) = {n \<in> stored_nodes s. \<exists>b' \<in> set (b # bs). node_id n \<in> set b'}"
    using ns(1) n by auto
  then show ?case by blast
qed simp

lemma get_nodes_spec:
  assumes "plan_ok pl" and "topology_ok s"
  shows "\<exists>ns. get_nodes pl s ids = Inr ns \<and> set ns = {n \<in> stored_nodes s. node_id n \<in> set ids}"
  using get_nodes_batches [OF assms, of "batches ids" "[]"]
  unfolding get_nodes_def set_batches [symmetric, of ids] UN_iff by simp

section \<open>Writing rows\<close>

lemma upsert_rows_simps [simp]:
  "upsert_rows [] t = t" "upsert_rows ((i, c) # rows) t = upsert_rows rows (AList.update i c t)"
  by (simp_all add: upsert_rows_def)

lemma dict_ok_upsert_rows: "dict_ok t \<Longrightarrow> dict_ok (upsert_rows rows t)"
proof (induction rows arbitrary: t)
  case (Cons r rows)
  obtain i c where r: "r = (i, c)" by (cases r)
  show ?case using Cons.IH [OF dict_ok_update [OF Cons.prems]] unfolding r by simp
qed simp

lemma dkeys_upsert_rows: "set (dkeys (upsert_rows rows t)) = set (dkeys t) \<union> fst ` set rows"
proof (induction rows arbitrary: t)
  case (Cons r rows)
  obtain i c where r: "r = (i, c)" by (cases r)
  show ?case unfolding r upsert_rows_simps Cons.IH dkeys_update by simp
qed simp

lemma set_update_subset: "set (AList.update k v d) \<subseteq> insert (k, v) (set d)"
  by (induction d) auto

lemma set_upsert_rows: "set (upsert_rows rows t) \<subseteq> set rows \<union> set t"
proof (induction rows arbitrary: t)
  case (Cons r rows)
  obtain i c where r: "r = (i, c)" by (cases r)
  show ?case
    using subset_trans [OF Cons.IH [of "AList.update i c t"] Un_mono [OF subset_refl set_update_subset]] unfolding r by simp
qed simp

lemma map_of_upsert_rows: "map_of (upsert_rows rows t) i = (case map_of (rev rows) i of Some c \<Rightarrow> Some c | None \<Rightarrow> map_of t i)"
proof (induction rows arbitrary: t)
  case (Cons r rows)
  then show ?case by (cases r) (auto simp: map_add_def split: option.splits)
qed simp

lemma set_delete_subset: "set (AList.delete k d) \<subseteq> set d"
  by (auto simp: AList.delete_eq)

lemma keys_delete: "fst ` set (AList.delete k d) = fst ` set d - {k}"
  using dkeys_delete [of k d] by simp

definition node_row :: "node \<Rightarrow> node_row res" where
  "node_row n = res_bind (json_dumps plain_style (node_properties n)) (\<lambda>p.
     Inr (node_id n, node_type n, node_label n, p))"

definition edge_row :: "edge \<Rightarrow> edge_row res" where
  "edge_row e = res_bind (json_dumps plain_style (edge_properties e)) (\<lambda>p.
     Inr (edge_id e, src e, relation e, dst e, p))"

text \<open>A row written from a node is read back as that node.\<close>

lemma node_row_reads:
  assumes "json_ok (node_properties n)"
  shows "\<exists>row. node_row n = Inr row \<and> node_from_row row = Inr n"
proof -
  from json_roundtrip [OF style_oks(1) assms] obtain t where
    "json_dumps plain_style (node_properties n) = Inr t" "json_loads t = Inr (node_properties n)"
    by (auto simp: json_view_def)
  then show ?thesis by (simp add: node_row_def node_from_row_def)
qed

lemma edge_row_reads:
  assumes "json_ok (edge_properties e)"
  shows "\<exists>row. edge_row e = Inr row \<and> edge_from_row row = Inr e"
proof -
  from json_roundtrip [OF style_oks(1) assms] obtain t where
    "json_dumps plain_style (edge_properties e) = Inr t" "json_loads t = Inr (edge_properties e)"
    by (auto simp: json_view_def)
  then show ?thesis by (simp add: edge_row_def edge_from_row_def)
qed

lemma mapM_reads:
  assumes "\<And>x. x \<in> set xs \<Longrightarrow> \<exists>row. f x = Inr row \<and> g row = Inr x"
  shows "\<exists>rows. res_mapM f xs = Inr rows \<and> list_all2 (\<lambda>x row. g row = Inr x) xs rows"
  using assms
proof (induction xs)
  case (Cons x xs)
  obtain row where "f x = Inr row" "g row = Inr x" using Cons.prems by force
  moreover obtain rows where "res_mapM f xs = Inr rows" "list_all2 (\<lambda>x row. g row = Inr x) xs rows"
    using Cons.IH Cons.prems by force
  ultimately show ?case by auto
qed simp

lemma upsert_nodes_rows:
  assumes "list_all (\<lambda>n. json_ok (node_properties n)) ns"
  shows "\<exists>rows. list_all2 (\<lambda>n row. node_from_row row = Inr n) ns rows
          \<and> upsert_nodes s ns = Inr (s \<lparr> nodes := upsert_rows rows (nodes s) \<rparr>)"
proof -
  obtain rows where r: "res_mapM node_row ns = Inr rows" "list_all2 (\<lambda>n row. node_from_row row = Inr n) ns rows"
    using mapM_reads [of ns node_row node_from_row] node_row_reads assms by (auto simp: list_all_iff)
  then have "upsert_nodes s ns = Inr (s \<lparr> nodes := upsert_rows rows (nodes s) \<rparr>)"
    unfolding upsert_nodes_def node_row_def [symmetric] by simp
  with r(2) show ?thesis by blast
qed

lemma upsert_edges_rows:
  assumes "list_all (\<lambda>e. json_ok (edge_properties e)) es"
  shows "\<exists>rows. list_all2 (\<lambda>e row. edge_from_row row = Inr e) es rows
          \<and> upsert_edges s es = Inr (s \<lparr> edges := upsert_rows rows (edges s) \<rparr>)"
proof -
  obtain rows where r: "res_mapM edge_row es = Inr rows" "list_all2 (\<lambda>e row. edge_from_row row = Inr e) es rows"
    using mapM_reads [of es edge_row edge_from_row] edge_row_reads assms by (auto simp: list_all_iff)
  then have "upsert_edges s es = Inr (s \<lparr> edges := upsert_rows rows (edges s) \<rparr>)"
    unfolding upsert_edges_def edge_row_def [symmetric] by simp
  with r(2) show ?thesis by blast
qed

lemma loads_upsert:
  assumes "list_all2 (\<lambda>x row. f row = Inr x) xs rows" and "list_all (\<lambda>row. is_ok (f row)) t"
  shows "list_all (\<lambda>row. is_ok (f row)) (upsert_rows rows t)"
proof -
  have "list_all (\<lambda>row. is_ok (f row)) rows"
    using assms(1) by (auto simp: list_all2_conv_all_nth list_all_length)
  then show ?thesis using assms(2) set_upsert_rows [of rows t] unfolding list_all_iff by blast
qed

section \<open>Every operation keeps the store well formed\<close>

lemmas topology_ok_defs = topology_ok_def rows_load_def

lemma topology_init_ok: "topology_ok topology_init"
  by (simp add: topology_init_def topology_ok_defs)

lemma upsert_nodes_ok:
  assumes "topology_ok s" and "list_all (\<lambda>n. json_ok (node_properties n)) ns"
  shows "\<exists>s'. upsert_nodes s ns = Inr s' \<and> topology_ok s' \<and> edges s' = edges s \<and> node_vectors s' = node_vectors s"
proof -
  obtain rows where r: "list_all2 (\<lambda>n row. node_from_row row = Inr n) ns rows"
    "upsert_nodes s ns = Inr (s \<lparr> nodes := upsert_rows rows (nodes s) \<rparr>)" using upsert_nodes_rows [OF assms(2)] by blast
  have "topology_ok (s \<lparr> nodes := upsert_rows rows (nodes s) \<rparr>)"
    using assms(1) loads_upsert [OF r(1)] dkeys_upsert_rows [of rows "nodes s"] dict_ok_upsert_rows
    unfolding topology_ok_defs by auto
  with r(2) show ?thesis by simp
qed

lemma upsert_edges_ok:
  assumes "topology_ok s" and "list_all (\<lambda>e. json_ok (edge_properties e)) es"
  shows "\<exists>s'. upsert_edges s es = Inr s' \<and> topology_ok s' \<and> nodes s' = nodes s \<and> node_vectors s' = node_vectors s"
proof -
  obtain rows where r: "list_all2 (\<lambda>e row. edge_from_row row = Inr e) es rows"
    "upsert_edges s es = Inr (s \<lparr> edges := upsert_rows rows (edges s) \<rparr>)" using upsert_edges_rows [OF assms(2)] by blast
  have "topology_ok (s \<lparr> edges := upsert_rows rows (edges s) \<rparr>)"
    using assms(1) loads_upsert [OF r(1)] dict_ok_upsert_rows unfolding topology_ok_defs by auto
  with r(2) show ?thesis by simp
qed

lemma set_node_vectors_ok:
  assumes "topology_ok s" and "set_node_vectors s items = Inr s'"
  shows "topology_ok s'"
proof -
  let ?rows = "map (\<lambda>(i, v). (i, map round32 v)) items"
  have "s' = s \<lparr> node_vectors := upsert_rows ?rows (node_vectors s) \<rparr>" and "\<forall>r \<in> set ?rows. fst r \<in> set (dkeys (nodes s))"
    using assms(2) unfolding set_node_vectors_def Let_def by (auto simp: case_prod_unfold split: if_splits) force
  then show ?thesis
    using assms(1) dict_ok_upsert_rows dkeys_upsert_rows [of ?rows "node_vectors s"]
    unfolding topology_ok_defs by auto
qed

lemma remove_node_vector_ok: "topology_ok s \<Longrightarrow> topology_ok (remove_node_vector s i)"
  by (auto simp: remove_node_vector_def topology_ok_defs keys_delete)

lemma store_remove_node_ok:
  assumes "topology_ok s"
  shows "topology_ok (fst (store_remove_node pl s i))"
  using assms set_delete_subset [of i "nodes s"]
  by (auto simp: store_remove_node_def Let_def topology_ok_defs keys_delete list_all_iff distinct_map_filter)

lemma store_remove_edge_ok: "topology_ok s \<Longrightarrow> topology_ok (fst (store_remove_edge s i))"
  using set_delete_subset [of i "edges s"]
  by (auto simp: store_remove_edge_def topology_ok_defs list_all_iff)

lemma run_op_ok:
  assumes s: "topology_ok s" and x: "op_typed x"
  shows "case run_op pl x s of
       Inr s' \<Rightarrow> topology_ok s'
     | Inl e \<Rightarrow> e = IntegrityError ''FOREIGN KEY constraint failed''
         \<and> (\<exists>items. x = SetNodeVectors items \<and> \<not> fst ` set items \<subseteq> set (dkeys (nodes s)))"
proof (cases x)
  case (UpsertNodes ns)
  then show ?thesis using upsert_nodes_ok [OF s, of ns] x by (auto simp: run_op_def op_typed_def)
next
  case (UpsertEdges es)
  then show ?thesis using upsert_edges_ok [OF s, of es] x by (auto simp: run_op_def op_typed_def)
next
  case (SetNodeVectors items)
  show ?thesis
  proof (cases "set_node_vectors s items")
    case (Inr s')
    then show ?thesis using set_node_vectors_ok [OF s] SetNodeVectors by (simp add: run_op_def)
  next
    case (Inl e)
    then have "items \<noteq> [] \<and> (\<exists>r \<in> set items. fst r \<notin> set (dkeys (nodes s))) \<and> e = IntegrityError ''FOREIGN KEY constraint failed''"
      by (auto simp: set_node_vectors_def Let_def case_prod_unfold raise_if_def split: if_splits)
    then show ?thesis using SetNodeVectors Inl by (force simp: run_op_def)
  qed
qed (use s in \<open>simp_all add: run_op_def remove_node_vector_ok store_remove_node_ok store_remove_edge_ok\<close>)

fun run_ops :: "plan \<Rightarrow> store_op list \<Rightarrow> topology \<Rightarrow> topology" where
  "run_ops pl [] s = s"
| "run_ops pl (x # xs) s = run_ops pl xs (case run_op pl x s of Inl _ \<Rightarrow> s | Inr s' \<Rightarrow> s')"

lemma run_ops_ok: "topology_ok s \<Longrightarrow> list_all op_typed xs \<Longrightarrow> topology_ok (run_ops pl xs s)"
proof (induction xs arbitrary: s)
  case (Cons x xs)
  have "topology_ok (case run_op pl x s of Inl _ \<Rightarrow> s | Inr s' \<Rightarrow> s')"
    using run_op_ok [OF Cons.prems(1), of x pl] Cons.prems by (auto split: sum.splits)
  then show ?case using Cons by simp
qed simp

text \<open>
  C17. Typing of the topology store.  After any sequence of operations on a new store, failed ones
  (which roll back) included, the tables are well formed: primary keys are unique, every stored
  property text parses, and every retained vector belongs to a stored node.  A further operation
  whose properties are JSON values raises nothing but the foreign-key error, and that only for
  vectors of unknown nodes; so every read of the store, whatever order SQLite picks, returns.
\<close>

theorem topology_operations_typed:
  assumes "list_all op_typed xs" and "op_typed x" and "plan_ok pl"
    and "s = run_ops pl xs topology_init"
  shows "topology_ok s
    \<and> (case run_op pl x s of
         Inr s' \<Rightarrow> topology_ok s'
       | Inl e \<Rightarrow> e = IntegrityError ''FOREIGN KEY constraint failed''
           \<and> (\<exists>items. x = SetNodeVectors items \<and> \<not> fst ` set items \<subseteq> set (dkeys (nodes s))))
    \<and> is_ok (iter_nodes pl s) \<and> is_ok (iter_edges pl s)
    \<and> is_ok (get_nodes pl s ids) \<and> is_ok (get_node s i) \<and> is_ok (get_edge s j)"
proof -
  have ok: "topology_ok s" using run_ops_ok [OF topology_init_ok assms(1)] assms(4) by simp
  have n: "is_ok (node_from_row row)" if "row \<in> set (nodes s)" for row
    using ok that unfolding topology_ok_defs list_all_iff by blast
  have e: "is_ok (edge_from_row row)" if "row \<in> set (edges s)" for row
    using ok that unfolding topology_ok_defs list_all_iff by blast
  have "is_ok (iter_nodes pl s)" "is_ok (iter_edges pl s)"
    unfolding iter_nodes_def iter_edges_def
    by (rule mapM_is_ok, simp add: n plan_sets [OF assms(3)]) (rule mapM_is_ok, simp add: e plan_sets [OF assms(3)])
  moreover have "is_ok (get_nodes pl s ids)" using get_nodes_spec [OF assms(3) ok, of ids] by (auto simp: is_ok_iff)
  moreover have "is_ok (get_node s i)" "is_ok (get_edge s j)"
    using n [OF map_of_SomeD] e [OF map_of_SomeD]
    by (auto simp: get_node_def get_edge_def res_bind_Inr_iff is_ok_iff split: option.split)
  ultimately show ?thesis using ok run_op_ok [OF ok assms(2), of pl] by blast
qed

text \<open>A sample store: three people, two edges and one retained vector.\<close>

definition insertion_plan :: plan where
  "insertion_plan = \<lparr> node_scan = (\<lambda>_ rs. rs), edge_scan = (\<lambda>_ _ rs. rev rs), vector_scan = (\<lambda>rs. rs), set_iter = rev \<rparr>"

lemma insertion_plan_ok: "plan_ok insertion_plan"
  by (simp add: insertion_plan_def plan_ok_def)

definition sample_node :: "string \<Rightarrow> node" where
  "sample_node i = \<lparr> node_id = i, node_type = ''Person'', node_label = i, node_properties = PDict [(PStr ''age'', PInt 7)] \<rparr>"

definition sample_edge :: "string \<Rightarrow> string \<Rightarrow> edge" where
  "sample_edge a b = \<lparr> edge_id = a @ ''-'' @ b, src = a, relation = ''knows'', dst = b, edge_properties = PDict [] \<rparr>"

definition sample_ops :: "store_op list" where
  "sample_ops = [UpsertNodes [sample_node ''a'', sample_node ''b'', sample_node ''c''],
     UpsertEdges [sample_edge ''a'' ''b'', sample_edge ''b'' ''c''],
     SetNodeVectors [(''a'', [Finite 1, Finite (1 / 3)])], SetNodeVectors [(''z'', [Finite 1])], RemoveEdge ''none'']"

definition sample_store :: topology where
  "sample_store = run_ops insertion_plan sample_ops topology_init"

lemma sample_ops_typed: "list_all op_typed sample_ops"
  by code_simp

lemma sample_store_ok: "topology_ok sample_store"
  unfolding sample_store_def by (rule run_ops_ok [OF topology_init_ok sample_ops_typed])

theorem topology_operations_typed_witness:
  "list_all op_typed sample_ops \<and> op_typed (SetNodeVectors [(''q'', [])])
   \<and> run_op insertion_plan (SetNodeVectors [(''q'', [])]) sample_store = Inl (IntegrityError ''FOREIGN KEY constraint failed'')
   \<and> topology_ok sample_store \<and> is_ok (get_nodes insertion_plan sample_store [''c'', ''a''])
   \<and> set (dkeys (nodes sample_store)) = {''a'', ''b'', ''c''}"
proof -
  have t: "op_typed (SetNodeVectors [(''q'', [])])" by (simp add: op_typed_def)
  have k: "map fst (nodes sample_store) = [''a'', ''b'', ''c'']" by code_simp
  have r: "run_op insertion_plan (SetNodeVectors [(''q'', [])]) sample_store = Inl (IntegrityError ''FOREIGN KEY constraint failed'')"
    by code_simp
  note c = topology_operations_typed [OF sample_ops_typed t insertion_plan_ok sample_store_def, of "[''c'', ''a'']" "[]" "[]"]
  have "set (dkeys (nodes sample_store)) = {''a'', ''b'', ''c''}" unfolding k by auto
  with c r t show ?thesis using sample_ops_typed by blast
qed

text \<open>
  C18. Batched adjacency queries.  \<open>edges_for\<close> reads the edges of a frontier in batches of 400 ids and
  merges them by edge id.  In a well-formed store it returns each edge incident to the whole
  frontier, in the wanted direction and relation, exactly once and nothing else, whatever order
  SQLite returns rows in: batching does not show.  Every statement it issues binds at most 801 values,
  below SQLite's smallest default limit of 999; any other direction is refused.
\<close>

theorem edges_for_ignores_batching:
  assumes "plan_ok pl" and "topology_ok s"
  shows "(direction \<in> set DIRECTIONS \<longrightarrow>
            (\<exists>es. edges_for pl s ids direction rel = Inr es \<and> distinct (map edge_id es)
               \<and> set es = {e \<in> stored_edges s. incident direction rel (set ids) e}))
       \<and> (direction \<notin> set DIRECTIONS \<longrightarrow> edges_for pl s ids direction rel = Inl (ValueError ''direction must be one of''))
       \<and> (\<forall>b \<in> set (batches ids). length (edge_params direction rel b) \<le> 801)"
proof -
  have "length (edge_params direction rel b) \<le> 801" if "b \<in> set (batches ids)" for b
    using batch_length [OF that] by (auto simp: edge_params_def IN_CHUNK_def split: option.split)
  then show ?thesis
    using edges_for_spec [OF assms] by (auto simp: edges_for_def)
qed

theorem edges_for_ignores_batching_witness:
  "plan_ok insertion_plan \<and> topology_ok sample_store
   \<and> edges_for insertion_plan sample_store [''b''] ''both'' None = Inr [sample_edge ''b'' ''c'', sample_edge ''a'' ''b'']
   \<and> {e \<in> stored_edges sample_store. incident ''both'' None {''b''} e} = {sample_edge ''a'' ''b'', sample_edge ''b'' ''c''}"
proof -
  have e: "edges_for insertion_plan sample_store [''b''] ''both'' None = Inr [sample_edge ''b'' ''c'', sample_edge ''a'' ''b'']"
    by code_simp
  have d: "''both'' \<in> set DIRECTIONS" by (simp add: DIRECTIONS_def)
  from edges_for_ignores_batching [OF insertion_plan_ok sample_store_ok, of "''both''" "[''b'']" None] d e
  have "{e \<in> stored_edges sample_store. incident ''both'' None {''b''} e} = {sample_edge ''a'' ''b'', sample_edge ''b'' ''c''}"
    by auto
  with e show ?thesis using insertion_plan_ok sample_store_ok by blast
qed

end
