(* ===== verification/KnowledgeGraph.thy ===== *)
theory KnowledgeGraph
  imports LodeSdk Topology
begin

text \<open>
  The knowledge graph of \<open>graph/knowledge_graph.py\<close>: a topology store that is the source of truth and
  a \<open>LodeDB\<close> index over it.  Every mutation writes the store first and the index after; when the index
  raises, the store keeps what was written.  The state carries both halves, and operations are
  computations of theory Effects, so the state an exception leaves behind is part of the model.
  Random ids draw from the runtime's tokens.  Logging is left out.
\<close>

section \<open>Definitions\<close>

subsection \<open>State\<close>

definition NODE_PREFIX :: string where "NODE_PREFIX = ''n:''"

definition EDGE_PREFIX :: string where "EDGE_PREFIX = ''e:''"

record 'n kg =
  kg_store :: topology
  kg_db :: "'n lodedb"
  index_edges :: bool
  kg_read_only :: bool
  retain_vectors :: bool
  kg_vector_only :: bool
  kg_tokens :: nat

abbreviation on_db :: "('n lodedb, 'a) act \<Rightarrow> ('n kg, 'a) act" where
  "on_db \<equiv> zoom kg_db (\<lambda>d g. g \<lparr> kg_db := d \<rparr>)"

text \<open>A transaction of the store: it commits, or raises and changes nothing.\<close>

definition on_store :: "(topology \<Rightarrow> topology res) \<Rightarrow> ('n kg, unit) act" where
  "on_store f g = (case f (kg_store g) of Inl e \<Rightarrow> (Inl e, g) | Inr s \<Rightarrow> (Inr (), g \<lparr> kg_store := s \<rparr>))"

definition kg_require_writable :: "('n kg, unit) act" where
  "kg_require_writable = bnd (gets kg_read_only) (\<lambda>b. guard b (ReadOnlyError ''this KnowledgeGraph is read-only''))"

definition node_id_or_token :: "('n, 'p) runtime \<Rightarrow> string option \<Rightarrow> ('n kg, string) act" where
  "node_id_or_token rt i = (case i of
       Some n \<Rightarrow> ret n
     | None \<Rightarrow> bnd (modify (\<lambda>g. g \<lparr> kg_tokens := kg_tokens g + 1 \<rparr>)) (\<lambda>_.
               gets (\<lambda>g. ''node-'' @ token_hex rt (kg_tokens g))))"

definition edge_id_or_triple :: "string option \<Rightarrow> string \<Rightarrow> string \<Rightarrow> string \<Rightarrow> string" where
  "edge_id_or_triple i a r b = (case i of Some e \<Rightarrow> e | None \<Rightarrow> a @ '':'' @ r @ '':'' @ b)"

definition properties_or_empty :: "json_obj option \<Rightarrow> pyval" where
  "properties_or_empty p = PDict (case p of None \<Rightarrow> [] | Some d \<Rightarrow> d)"

definition node_metadata :: "node \<Rightarrow> json_obj" where
  "node_metadata n = [(PStr ''kind'', PStr ''node''), (PStr ''type'', PStr (node_type n)), (PStr ''node_id'', PStr (node_id n))]"

definition edge_metadata :: "edge \<Rightarrow> json_obj" where
  "edge_metadata e = [(PStr ''kind'', PStr ''edge''), (PStr ''relation'', PStr (relation e)), (PStr ''src'', PStr (src e)),
     (PStr ''dst'', PStr (dst e)), (PStr ''edge_id'', PStr (edge_id e))]"

subsection \<open>Mutations\<close>

definition index_node :: "('n, 'p) runtime \<Rightarrow> node \<Rightarrow> vector option \<Rightarrow> ('n kg, unit) act" where
  "index_node rt n embedding =
     (let doc_id = NODE_PREFIX @ node_id n; metadata = node_metadata n
      in bnd (gets (\<lambda>g. (retain_vectors g, kg_vector_only g))) (\<lambda>(retain, vec_only).
         case embedding of
           Some v \<Rightarrow>
             bnd (on_db (add_vectors rt v (Some doc_id) (Some metadata) PNone True)) (\<lambda>_.
             if retain then on_store (\<lambda>s. set_node_vectors s [(node_id n, v)]) else ret ())
         | None \<Rightarrow>
             if \<not> vec_only \<and> \<not> blank (node_label n)
             then bnd (on_db (add rt (PStr (node_label n)) (Some doc_id) (Some metadata))) (\<lambda>_.
                  if retain then on_store (\<lambda>s. Inr (remove_node_vector s (node_id n))) else ret ())
             else bnd (on_db (remove rt (PStr doc_id))) (\<lambda>_.
                  if retain then on_store (\<lambda>s. Inr (remove_node_vector s (node_id n))) else ret ())))"

definition index_edge :: "('n, 'p) runtime \<Rightarrow> edge \<Rightarrow> string option \<Rightarrow> vector option \<Rightarrow> ('n kg, unit) act" where
  "index_edge rt e ftext embedding =
     (let doc_id = EDGE_PREFIX @ edge_id e; metadata = edge_metadata e
      in bnd (gets kg_vector_only) (\<lambda>vec_only.
         case embedding of
           Some v \<Rightarrow> bnd (on_db (add_vectors rt v (Some doc_id) (Some metadata) PNone True)) (\<lambda>_. ret ())
         | None \<Rightarrow>
             (case ftext of
                Some f \<Rightarrow>
                  (if \<not> vec_only \<and> \<not> blank f
                   then bnd (on_db (add rt (PStr f) (Some doc_id) (Some metadata))) (\<lambda>_. ret ())
                   else bnd (on_db (remove rt (PStr doc_id))) (\<lambda>_. ret ()))
              | None \<Rightarrow> bnd (on_db (remove rt (PStr doc_id))) (\<lambda>_. ret ()))))"

definition add_node ::
    "('n, 'p) runtime \<Rightarrow> string option \<Rightarrow> string \<Rightarrow> string \<Rightarrow> json_obj option \<Rightarrow> vector option \<Rightarrow> ('n kg, string) act" where
  "add_node rt i typ label properties embedding =
     bnd kg_require_writable (\<lambda>_.
     bnd (node_id_or_token rt i) (\<lambda>nid.
     let n = \<lparr> node_id = nid, node_type = typ, node_label = label, node_properties = properties_or_empty properties \<rparr>
     in bnd (on_store (\<lambda>s. upsert_node s n)) (\<lambda>_.
        bnd (index_node rt n embedding) (\<lambda>_. ret nid))))"

definition add_edge ::
    "('n, 'p) runtime \<Rightarrow> string \<Rightarrow> string \<Rightarrow> string \<Rightarrow> string option \<Rightarrow> json_obj option \<Rightarrow> string option \<Rightarrow> vector option
      \<Rightarrow> ('n kg, string) act" where
  "add_edge rt a r b i properties ftext embedding =
     bnd kg_require_writable (\<lambda>_.
     let eid = edge_id_or_triple i a r b;
         e = \<lparr> edge_id = eid, src = a, relation = r, dst = b, edge_properties = properties_or_empty properties \<rparr>
     in bnd (on_store (\<lambda>s. upsert_edge s e)) (\<lambda>_.
        bnd (gets index_edges) (\<lambda>ie.
        bnd (if ie then index_edge rt e ftext embedding else ret ()) (\<lambda>_. ret eid))))"

record node_item =
  ni_id :: "string option"
  ni_type :: string
  ni_label :: string
  ni_properties :: "json_obj option"
  ni_embedding :: "vector option"

record edge_item =
  ei_src :: string
  ei_relation :: string
  ei_dst :: string
  ei_id :: "string option"
  ei_properties :: "json_obj option"
  ei_fact :: "string option"
  ei_embedding :: "vector option"

text \<open>How an entity is indexed: by a vector, by a text, or not at all.\<close>

datatype index_form = ByVector vector | ByText string | Unindexed

definition node_form :: "bool \<Rightarrow> node \<Rightarrow> vector option \<Rightarrow> index_form" where
  "node_form vec_only n embedding = (case embedding of
       Some v \<Rightarrow> ByVector v
     | None \<Rightarrow> if \<not> vec_only \<and> \<not> blank (node_label n) then ByText (node_label n) else Unindexed)"

definition edge_form :: "bool \<Rightarrow> string option \<Rightarrow> vector option \<Rightarrow> index_form" where
  "edge_form vec_only ftext embedding = (case embedding of
       Some v \<Rightarrow> ByVector v
     | None \<Rightarrow> (case ftext of Some f \<Rightarrow> if \<not> vec_only \<and> \<not> blank f then ByText f else Unindexed | None \<Rightarrow> Unindexed))"

definition vector_docs :: "(string \<times> json_obj \<times> index_form) list \<Rightarrow> vector_item list" where
  "vector_docs xs = concat (map (\<lambda>(d, m, f). case f of
     ByVector v \<Rightarrow> [\<lparr> vi_vector = Some v, vi_id = Some d, vi_metadata = Some m, vi_text = PNone \<rparr>] | _ \<Rightarrow> []) xs)"

definition text_docs :: "(string \<times> json_obj \<times> index_form) list \<Rightarrow> text_item list" where
  "text_docs xs = concat (map (\<lambda>(d, m, f). case f of
     ByText t \<Rightarrow> [\<lparr> ti_text = PStr t, ti_id = Some d, ti_metadata = Some m \<rparr>] | _ \<Rightarrow> []) xs)"

definition stale_docs :: "(string \<times> json_obj \<times> index_form) list \<Rightarrow> string list" where
  "stale_docs xs = concat (map (\<lambda>(d, m, f). case f of Unindexed \<Rightarrow> [d] | _ \<Rightarrow> []) xs)"

definition write_docs :: "('n, 'p) runtime \<Rightarrow> (string \<times> json_obj \<times> index_form) list \<Rightarrow> ('n kg, unit) act" where
  "write_docs rt xs =
     bnd (if text_docs xs = [] then ret [] else on_db (add_many rt (text_docs xs))) (\<lambda>_.
     bnd (if vector_docs xs = [] then ret [] else on_db (add_vectors_many rt (vector_docs xs) True)) (\<lambda>_. ret ()))"

definition drop_docs :: "('n, 'p) runtime \<Rightarrow> string list \<Rightarrow> ('n kg, unit) act" where
  "drop_docs rt ids = bnd (each (\<lambda>d. on_db (remove rt (PStr d))) ids) (\<lambda>_. ret ())"

definition node_of_item :: "('n, 'p) runtime \<Rightarrow> node_item \<Rightarrow> ('n kg, node) act" where
  "node_of_item rt item = bnd (node_id_or_token rt (ni_id item)) (\<lambda>nid.
     ret \<lparr> node_id = nid, node_type = ni_type item, node_label = ni_label item,
            node_properties = properties_or_empty (ni_properties item) \<rparr>)"

definition add_nodes :: "('n, 'p) runtime \<Rightarrow> node_item list \<Rightarrow> ('n kg, string list) act" where
  "add_nodes rt items =
     bnd kg_require_writable (\<lambda>_.
     bnd (each (node_of_item rt) items) (\<lambda>ns.
     bnd (gets (\<lambda>g. (retain_vectors g, kg_vector_only g))) (\<lambda>(retain, vec_only).
     let forms = map2 (\<lambda>n item. node_form vec_only n (ni_embedding item)) ns items;
         docs = map2 (\<lambda>n f. (NODE_PREFIX @ node_id n, node_metadata n, f)) ns forms;
         retained = concat (map2 (\<lambda>n f. case f of ByVector v \<Rightarrow> [(node_id n, v)] | _ \<Rightarrow> []) ns forms);
         stale_vectors = concat (map2 (\<lambda>n f. case f of ByVector _ \<Rightarrow> [] | _ \<Rightarrow> [node_id n]) ns forms)
     in bnd (on_store (\<lambda>s. upsert_nodes s ns)) (\<lambda>_.
        bnd (each (\<lambda>i. on_store (\<lambda>s. Inr (remove_node_vector s i))) (if retain then stale_vectors else [])) (\<lambda>_.
        bnd (if retain \<and> retained \<noteq> [] then on_store (\<lambda>s. set_node_vectors s retained) else ret ()) (\<lambda>_.
        bnd (drop_docs rt (stale_docs docs)) (\<lambda>_.
        bnd (write_docs rt docs) (\<lambda>_. ret (map node_id ns)))))))))"

definition edge_of_item :: "edge_item \<Rightarrow> edge" where
  "edge_of_item item =
     \<lparr> edge_id = edge_id_or_triple (ei_id item) (ei_src item) (ei_relation item) (ei_dst item),
       src = ei_src item, relation = ei_relation item, dst = ei_dst item,
       edge_properties = properties_or_empty (ei_properties item) \<rparr>"

definition add_edges :: "('n, 'p) runtime \<Rightarrow> edge_item list \<Rightarrow> ('n kg, string list) act" where
  "add_edges rt items =
     bnd kg_require_writable (\<lambda>_.
     bnd (gets (\<lambda>g. (index_edges g, kg_vector_only g))) (\<lambda>(ie, vec_only).
     let es = map edge_of_item items;
         docs = (if ie then map2 (\<lambda>e item. (EDGE_PREFIX @ edge_id e, edge_metadata e,
                   edge_form vec_only (ei_fact item) (ei_embedding item))) es items else [])
     in bnd (on_store (\<lambda>s. upsert_edges s es)) (\<lambda>_.
        bnd (drop_docs rt (stale_docs docs)) (\<lambda>_.
        bnd (write_docs rt docs) (\<lambda>_. ret (map edge_id es))))))"

text \<open>The ingest buffer collects items with their ids fixed and flushes each kind once.\<close>

definition buffer_add_node :: "('n, 'p) runtime \<Rightarrow> node_item \<Rightarrow> node_item list \<Rightarrow> ('n kg, node_item list) act" where
  "buffer_add_node rt item buffer =
     bnd (node_id_or_token rt (ni_id item)) (\<lambda>nid. ret (buffer @ [item \<lparr> ni_id := Some nid \<rparr>]))"

definition buffer_add_edge :: "edge_item \<Rightarrow> edge_item list \<Rightarrow> edge_item list" where
  "buffer_add_edge item buffer =
     buffer @ [item \<lparr> ei_id := Some (edge_id_or_triple (ei_id item) (ei_src item) (ei_relation item) (ei_dst item)) \<rparr>]"

definition begin_ingest :: "('n kg, node_item list \<times> edge_item list) act" where
  "begin_ingest = bnd kg_require_writable (\<lambda>_. ret ([], []))"

definition flush_ingest :: "('n, 'p) runtime \<Rightarrow> node_item list \<Rightarrow> edge_item list \<Rightarrow> ('n kg, unit) act" where
  "flush_ingest rt ns es =
     bnd (if ns = [] then ret [] else add_nodes rt ns) (\<lambda>_.
     bnd (if es = [] then ret [] else add_edges rt es) (\<lambda>_. ret ()))"

definition kg_remove_node :: "('n, 'p) runtime \<Rightarrow> plan \<Rightarrow> string \<Rightarrow> ('n kg, bool) act" where
  "kg_remove_node rt pl i =
     bnd kg_require_writable (\<lambda>_.
     bnd (gets (\<lambda>g. store_remove_node pl (kg_store g) i)) (\<lambda>(s, existed, removed_edge_ids).
     bnd (modify (\<lambda>g. g \<lparr> kg_store := s \<rparr>)) (\<lambda>_.
     bnd (on_db (remove rt (PStr (NODE_PREFIX @ i)))) (\<lambda>_.
     bnd (gets index_edges) (\<lambda>ie.
     bnd (drop_docs rt (if ie then map (\<lambda>e. EDGE_PREFIX @ e) removed_edge_ids else [])) (\<lambda>_.
     ret existed))))))"

definition kg_remove_edge :: "('n, 'p) runtime \<Rightarrow> string \<Rightarrow> ('n kg, bool) act" where
  "kg_remove_edge rt i =
     bnd kg_require_writable (\<lambda>_.
     bnd (gets (\<lambda>g. store_remove_edge (kg_store g) i)) (\<lambda>(s, existed).
     bnd (modify (\<lambda>g. g \<lparr> kg_store := s \<rparr>)) (\<lambda>_.
     bnd (gets index_edges) (\<lambda>ie.
     bnd (if ie then on_db (remove rt (PStr (EDGE_PREFIX @ i))) else ret False) (\<lambda>_. ret existed)))))"

subsection \<open>Traversal\<close>

record subgraph =
  sub_nodes :: "(string, node) dict"
  sub_edges :: "edge list"
  sub_seeds :: "(string \<times> pyfloat) list"

record bfs =
  visited :: "string list"
  frontier :: "string list"
  next_frontier :: "string list"
  edges_seen :: "(string, edge) dict"
  truncated :: bool

definition visit :: "int option \<Rightarrow> string \<Rightarrow> bfs \<Rightarrow> bfs" where
  "visit max_nodes endpoint b =
     (if endpoint \<in> set (visited b) then b
      else if (case max_nodes of None \<Rightarrow> False | Some m \<Rightarrow> m \<le> int (length (visited b))) then b \<lparr> truncated := True \<rparr>
      else b \<lparr> visited := visited b @ [endpoint], next_frontier := next_frontier b @ [endpoint] \<rparr>)"

definition absorb_edge :: "int option \<Rightarrow> edge \<Rightarrow> bfs \<Rightarrow> bfs" where
  "absorb_edge max_nodes e b =
     visit max_nodes (dst e) (visit max_nodes (src e) (b \<lparr> edges_seen := AList.update (edge_id e) e (edges_seen b) \<rparr>))"

fun hop_loop ::
    "plan \<Rightarrow> topology \<Rightarrow> string \<Rightarrow> string option \<Rightarrow> int option \<Rightarrow> nat \<Rightarrow> bfs \<Rightarrow> bfs res" where
  "hop_loop pl s direction rel max_nodes 0 b = Inr b"
| "hop_loop pl s direction rel max_nodes (Suc n) b =
     (if frontier b = [] \<or> truncated b then Inr b
      else res_bind (edges_for pl s (set_iter pl (frontier b)) direction rel) (\<lambda>es.
        let b' = fold (absorb_edge max_nodes) es (b \<lparr> next_frontier := [] \<rparr>)
        in hop_loop pl s direction rel max_nodes n (b' \<lparr> frontier := next_frontier b' \<rparr>)))"

definition bfs_init :: "string list \<Rightarrow> bfs" where
  "bfs_init seeds = \<lparr> visited = remdups seeds, frontier = remdups seeds, next_frontier = [], edges_seen = [], truncated = False \<rparr>"

definition k_hop ::
    "plan \<Rightarrow> topology \<Rightarrow> string list \<Rightarrow> int \<Rightarrow> string \<Rightarrow> string option \<Rightarrow> int option \<Rightarrow> subgraph res" where
  "k_hop pl s seeds k direction rel max_nodes =
     res_bind (hop_loop pl s direction rel max_nodes (nat (max 0 k)) (bfs_init seeds)) (\<lambda>b.
     res_bind (get_nodes pl s (set_iter pl (visited b))) (\<lambda>ns.
       Inr \<lparr> sub_nodes = index_by node_id ns [], sub_edges = map snd (edges_seen b), sub_seeds = [] \<rparr>))"

definition kg_get_node :: "'n kg \<Rightarrow> string \<Rightarrow> node option res" where
  "kg_get_node g i = get_node (kg_store g) i"

definition kg_get_edge :: "'n kg \<Rightarrow> string \<Rightarrow> edge option res" where
  "kg_get_edge g i = get_edge (kg_store g) i"

definition neighbors :: "plan \<Rightarrow> 'n kg \<Rightarrow> string \<Rightarrow> string \<Rightarrow> string option \<Rightarrow> edge list res" where
  "neighbors pl g i direction rel = store_neighbors pl (kg_store g) i direction rel"

definition list_nodes :: "plan \<Rightarrow> 'n kg \<Rightarrow> node list res" where
  "list_nodes pl g = iter_nodes pl (kg_store g)"

definition list_edges :: "plan \<Rightarrow> 'n kg \<Rightarrow> edge list res" where
  "list_edges pl g = iter_edges pl (kg_store g)"

subsection \<open>Semantic retrieval\<close>

text \<open>The engine stores metadata as texts, so an entity id read from a hit is a text or missing.\<close>

definition strip_prefix :: "string \<Rightarrow> string \<Rightarrow> string" where
  "strip_prefix v pfx = (if py_startswith v pfx then drop (length pfx) v else v)"

definition scoped_filter :: "string \<Rightarrow> string option \<Rightarrow> json_obj option \<Rightarrow> pyval" where
  "scoped_filter kind entity_type extra =
     (let base = PDict ((PStr ''kind'', PStr kind) # (case entity_type of None \<Rightarrow> [] | Some t \<Rightarrow> [(PStr ''type'', PStr t)]))
      in case extra of
           Some d \<Rightarrow> (if d = [] then base else PDict [(PStr ''$and'', PList [base, PDict d])])
         | None \<Rightarrow> base)"

definition search_index ::
    "('n, 'p) runtime \<Rightarrow> string option \<Rightarrow> vector option \<Rightarrow> int \<Rightarrow> string \<Rightarrow> string option \<Rightarrow> json_obj option \<Rightarrow> pyval
      \<Rightarrow> ('n kg, search_hit list) act" where
  "search_index rt query embedding k kind entity_type extra mode =
     (let search_filter = Some (scoped_filter kind entity_type extra)
      in case embedding of
           Some v \<Rightarrow>
             bnd (guard (mode \<notin> {PNone, PStr ''vector''}) (ValueError ''mode must be vector when searching by embedding'')) (\<lambda>_.
             on_db (search_by_vector rt v k search_filter True))
         | None \<Rightarrow>
             (case query of
                Some q \<Rightarrow>
                  bnd (guard (q = []) (ValueError ''provide a query string or an embedding'')) (\<lambda>_.
                  on_db (search rt (PStr q) k search_filter mode))
              | None \<Rightarrow> lift (Inl (ValueError ''provide a query string or an embedding''))))"

definition hit_entity :: "string \<Rightarrow> string \<Rightarrow> search_hit \<Rightarrow> pyval" where
  "hit_entity key pfx h = py_or (pget (hit_metadata h) key PNone) (PStr (strip_prefix (hit_id h) pfx))"

definition semantic_nodes ::
    "('n, 'p) runtime \<Rightarrow> plan \<Rightarrow> string option \<Rightarrow> vector option \<Rightarrow> int \<Rightarrow> string option \<Rightarrow> json_obj option \<Rightarrow> pyval
      \<Rightarrow> ('n kg, (pyfloat \<times> node) list) act" where
  "semantic_nodes rt pl query embedding k typ flt mode =
     bnd (search_index rt query embedding k ''node'' typ flt mode) (\<lambda>hits.
     bnd (gets kg_store) (\<lambda>s.
     let ids = map (hit_entity ''node_id'' NODE_PREFIX) hits
     in bnd (lift (get_nodes pl s (map py_str ids))) (\<lambda>ns.
        let by_id = index_by node_id ns []
        in ret (concat (map2 (\<lambda>h i. case i of
             PStr nid \<Rightarrow> (case map_of by_id nid of None \<Rightarrow> [] | Some n \<Rightarrow> [(hit_score h, n)])
           | _ \<Rightarrow> []) hits ids)))))"

definition edge_of_hit :: "topology \<Rightarrow> search_hit \<Rightarrow> (pyfloat \<times> edge) list res" where
  "edge_of_hit s h = (case hit_entity ''edge_id'' EDGE_PREFIX h of
       PStr eid \<Rightarrow> res_bind (get_edge s eid) (\<lambda>e. Inr (case e of None \<Rightarrow> [] | Some x \<Rightarrow> [(hit_score h, x)]))
     | _ \<Rightarrow> Inr [])"

definition semantic_edges ::
    "('n, 'p) runtime \<Rightarrow> string option \<Rightarrow> vector option \<Rightarrow> int \<Rightarrow> string option \<Rightarrow> pyval
      \<Rightarrow> ('n kg, (pyfloat \<times> edge) list) act" where
  "semantic_edges rt query embedding k rel mode =
     bnd (gets index_edges) (\<lambda>ie.
     if \<not> ie then ret []
     else bnd (search_index rt query embedding k ''edge'' None
                 (map_option (\<lambda>r. [(PStr ''relation'', PStr r)]) rel) mode) (\<lambda>hits.
          bnd (gets kg_store) (\<lambda>s.
          bnd (lift (res_mapM (edge_of_hit s) hits)) (\<lambda>rows. ret (concat rows)))))"

definition search_subgraph ::
    "('n, 'p) runtime \<Rightarrow> plan \<Rightarrow> string option \<Rightarrow> vector option \<Rightarrow> int \<Rightarrow> int \<Rightarrow> string \<Rightarrow> string option \<Rightarrow> string option
      \<Rightarrow> json_obj option \<Rightarrow> pyval \<Rightarrow> ('n kg, subgraph) act" where
  "search_subgraph rt pl query embedding k hops direction rel typ flt mode =
     bnd (semantic_nodes rt pl query embedding k typ flt mode) (\<lambda>seeds.
     bnd (gets kg_store) (\<lambda>s.
     bnd (lift (k_hop pl s (map (node_id \<circ> snd) seeds) hops direction rel None)) (\<lambda>sub.
     ret (sub \<lparr> sub_seeds := map (\<lambda>(score, n). (node_id n, score)) seeds,
                sub_nodes := fold (\<lambda>(score, n) d. if node_id n \<in> set (dkeys d) then d else d @ [(node_id n, n)])
                  seeds (sub_nodes sub) \<rparr>))))"

subsection \<open>Maintenance\<close>

record reindex_counts =
  reindexed_nodes :: nat
  reindexed_labels :: nat
  reindexed_vectors :: nat
  unrebuildable :: nat
  removed_orphans :: nat

definition orphan_docs :: "string \<Rightarrow> string list \<Rightarrow> document_record list \<Rightarrow> string list" where
  "orphan_docs pfx ids records = filter (\<lambda>d. d \<notin> set (map (\<lambda>i. pfx @ i) ids)) (map rec_id records)"

definition drop_orphans :: "('n, 'p) runtime \<Rightarrow> string \<Rightarrow> string \<Rightarrow> string list \<Rightarrow> ('n kg, nat) act" where
  "drop_orphans rt kind pfx ids =
     bnd (on_db (list_documents rt (Some (PDict [(PStr ''kind'', PStr kind)])) None None)) (\<lambda>records.
     let orphans = orphan_docs pfx ids records
     in bnd (drop_docs rt orphans) (\<lambda>_. ret (length orphans)))"

definition rebuild_nodes :: "('n, 'p) runtime \<Rightarrow> plan \<Rightarrow> ('n kg, nat \<times> nat \<times> nat) act" where
  "rebuild_nodes rt pl =
     bnd (gets (\<lambda>g. (kg_store g, retain_vectors g, kg_vector_only g))) (\<lambda>(s, retain, vec_only).
     bnd (lift (iter_nodes pl s)) (\<lambda>ns.
     let retained = (if retain then iter_node_vectors pl s else []);
         docs = map (\<lambda>n. (NODE_PREFIX @ node_id n, node_metadata n, node_form vec_only n (map_of retained (node_id n)))) ns
     in bnd (write_docs rt docs) (\<lambda>_.
        ret (length (text_docs docs), length (vector_docs docs), length (stale_docs docs)))))"

definition reindex :: "('n, 'p) runtime \<Rightarrow> plan \<Rightarrow> ('n kg, reindex_counts) act" where
  "reindex rt pl =
     bnd kg_require_writable (\<lambda>_.
     bnd (gets (\<lambda>g. all_node_ids pl (kg_store g))) (\<lambda>node_ids.
     bnd (drop_orphans rt ''node'' NODE_PREFIX node_ids) (\<lambda>removed.
     bnd (rebuild_nodes rt pl) (\<lambda>(labels, vectors, lost).
     bnd (gets (\<lambda>g. (index_edges g, kg_store g))) (\<lambda>(ie, s).
     bnd (if ie then bnd (lift (iter_edges pl s)) (\<lambda>es. drop_orphans rt ''edge'' EDGE_PREFIX (map edge_id es)) else ret 0) (\<lambda>removed_edges.
     ret \<lparr> reindexed_nodes = labels + vectors, reindexed_labels = labels, reindexed_vectors = vectors, unrebuildable = lost,
            removed_orphans = removed + removed_edges \<rparr>))))))"

definition kg_stats :: "('n, 'p) runtime \<Rightarrow> ('n kg, nat \<times> nat \<times> int \<times> bool) act" where
  "kg_stats rt = bnd (gets kg_store) (\<lambda>s.
     bnd (on_db (count_documents rt None)) (\<lambda>n.
     gets (\<lambda>g. (node_count s, edge_count s, n, index_edges g))))"

definition kg_persist :: "('n, 'p) runtime \<Rightarrow> ('n kg, unit) act" where
  "kg_persist rt = bnd (on_db (persist rt)) (\<lambda>_. ret ())"

end
