(* ===== verification/GraphTraversal.thy ===== *)
theory GraphTraversal
  imports KnowledgeGraph
begin

text \<open>
  What the breadth-first expansion \<open>k_hop\<close> returns: the nodes within \<open>k\<close> hops of the seeds and the
  edges it crossed, for every order in which SQLite returns rows and Python iterates sets.
\<close>

section \<open>Reachability in a store\<close>

definition linked :: "topology \<Rightarrow> string \<Rightarrow> string option \<Rightarrow> (string \<times> string) set" where
  "linked s direction rel = {(a, b). \<exists>e \<in> stored_edges s. incident direction rel {a} e \<and> b \<in> {src e, dst e}}"

definition reached :: "topology \<Rightarrow> string \<Rightarrow> string option \<Rightarrow> nat \<Rightarrow> string set \<Rightarrow> string set" where
  "reached s direction rel n U = {b. \<exists>a \<in> U. \<exists>i \<le> n. (a, b) \<in> linked s direction rel ^^ i}"

definition crossed :: "topology \<Rightarrow> string \<Rightarrow> string option \<Rightarrow> nat \<Rightarrow> string set \<Rightarrow> edge set" where
  "crossed s direction rel n U = {e \<in> stored_edges s. \<exists>i < n. incident direction rel (reached s direction rel i U) e}"

definition endpoints :: "edge set \<Rightarrow> string set" where
  "endpoints E = src ` E \<union> dst ` E"

lemma incident_Un: "incident d r (A \<union> B) e \<longleftrightarrow> incident d r A e \<or> incident d r B e"
  by (auto simp: incident_def)

lemma incident_singleton: "incident d r A e \<longleftrightarrow> (\<exists>a \<in> A. incident d r {a} e)"
  by (auto simp: incident_def)

lemma incident_mono: "A \<subseteq> B \<Longrightarrow> incident d r A e \<Longrightarrow> incident d r B e"
  by (auto simp: incident_def)

lemma linked_Image: "linked s d r `` A = endpoints {e \<in> stored_edges s. incident d r A e}"
proof
  show "linked s d r `` A \<subseteq> endpoints {e \<in> stored_edges s. incident d r A e}"
    unfolding linked_def endpoints_def using incident_singleton [of d r A] by blast
  show "endpoints {e \<in> stored_edges s. incident d r A e} \<subseteq> linked s d r `` A"
    unfolding linked_def endpoints_def using incident_singleton [of d r A] by blast
qed

lemma reached_0 [simp]: "reached s d r 0 U = U"
  by (auto simp: reached_def)

lemma reached_mono: "m \<le> n \<Longrightarrow> reached s d r m U \<subseteq> reached s d r n U"
  unfolding reached_def by (auto intro: le_trans)

lemma reached_Suc: "reached s d r (Suc n) U = reached s d r n U \<union> linked s d r `` reached s d r n U"
proof (rule set_eqI)
  fix b
  show "b \<in> reached s d r (Suc n) U \<longleftrightarrow> b \<in> reached s d r n U \<union> linked s d r `` reached s d r n U"
  proof
    assume "b \<in> reached s d r (Suc n) U"
    then obtain a i where a: "a \<in> U" "i \<le> Suc n" "(a, b) \<in> linked s d r ^^ i" by (auto simp: reached_def)
    show "b \<in> reached s d r n U \<union> linked s d r `` reached s d r n U"
    proof (cases "i \<le> n")
      case True
      then show ?thesis using a by (auto simp: reached_def)
    next
      case False
      with a have "(a, b) \<in> linked s d r ^^ Suc n" by (metis le_antisym not_less_eq_eq)
      then obtain c where "(a, c) \<in> linked s d r ^^ n" "(c, b) \<in> linked s d r" by (rule relpow_Suc_E)
      moreover from this a(1) have "c \<in> reached s d r n U" unfolding reached_def by blast
      ultimately show ?thesis by blast
    qed
  next
    assume "b \<in> reached s d r n U \<union> linked s d r `` reached s d r n U"
    then show "b \<in> reached s d r (Suc n) U"
    proof
      assume "b \<in> linked s d r `` reached s d r n U"
      then obtain a c i where "a \<in> U" "i \<le> n" "(a, c) \<in> linked s d r ^^ i" "(c, b) \<in> linked s d r"
        by (auto simp: reached_def)
      then show ?thesis unfolding reached_def by (metis (mono_tags, lifting) Suc_le_mono mem_Collect_eq relpow_Suc_I)
    qed (use reached_mono [of n "Suc n" s d r U] in auto)
  qed
qed

lemma crossed_Suc: "crossed s d r (Suc n) U = {e \<in> stored_edges s. incident d r (reached s d r n U) e}"
  unfolding crossed_def using incident_mono [OF reached_mono] by (auto simp: less_Suc_eq_le)

lemma crossed_0 [simp]: "crossed s d r 0 U = {}"
  by (simp add: crossed_def)

text \<open>Once a level adds nothing, no later level does.\<close>

lemma reached_stable:
  assumes "reached s d r (Suc n) U = reached s d r n U"
  shows "reached s d r (n + k) U = reached s d r n U"
proof (induction k)
  case (Suc k)
  have "reached s d r (n + Suc k) U = reached s d r (n + k) U \<union> linked s d r `` reached s d r (n + k) U"
    using reached_Suc [of s d r "n + k" U] by simp
  also have "\<dots> = reached s d r (Suc n) U" unfolding Suc.IH reached_Suc ..
  finally show ?case using assms by simp
qed simp

section \<open>One level\<close>

definition edges_of :: "bfs \<Rightarrow> edge set" where
  "edges_of b = set (map snd (edges_seen b))"

lemma visit_unbounded:
  "set (visited (visit None v b)) = insert v (set (visited b))"
  "set (next_frontier (visit None v b)) \<subseteq> insert v (set (next_frontier b))"
  "set (next_frontier (visit None v b)) = set (next_frontier b) \<union> ({v} - set (visited b))"
  "edges_seen (visit m v b) = edges_seen b" "frontier (visit m v b) = frontier b"
  "truncated (visit None v b) = truncated b"
  by (auto simp: visit_def)

lemma absorb_unbounded:
  "set (visited (absorb_edge None e b)) = set (visited b) \<union> {src e, dst e}"
  "set (next_frontier (absorb_edge None e b)) = set (next_frontier b) \<union> ({src e, dst e} - set (visited b))"
  "edges_seen (absorb_edge m e b) = AList.update (edge_id e) e (edges_seen b)"
  "truncated (absorb_edge None e b) = truncated b"
  by (auto simp: absorb_edge_def visit_unbounded)

lemma absorb_edges_unbounded:
  "set (visited (fold (absorb_edge None) es b)) = set (visited b) \<union> endpoints (set es)
   \<and> set (next_frontier (fold (absorb_edge None) es b)) = set (next_frontier b) \<union> (endpoints (set es) - set (visited b))
   \<and> truncated (fold (absorb_edge None) es b) = truncated b"
proof (induction es arbitrary: b)
  case (Cons e es)
  then show ?case by (auto simp: absorb_unbounded endpoints_def)
qed (simp add: endpoints_def)

lemma absorb_edges_seen: "edges_seen (fold (absorb_edge m) es b) = index_by edge_id es (edges_seen b)"
  by (induction es arbitrary: b) (simp_all add: absorb_unbounded index_by_def)

section \<open>All levels\<close>

lemma endpoints_Un: "endpoints (A \<union> B) = endpoints A \<union> endpoints B"
  by (auto simp: endpoints_def)

lemma endpoints_crossed: "endpoints (crossed s d r n U) \<subseteq> reached s d r n U"
proof (cases n)
  case (Suc m)
  then show ?thesis by (simp add: crossed_Suc linked_Image [symmetric] reached_Suc)
qed (simp add: endpoints_def)

definition level :: "topology \<Rightarrow> string \<Rightarrow> string option \<Rightarrow> string set \<Rightarrow> nat \<Rightarrow> bfs \<Rightarrow> bool" where
  "level s d r U n b \<longleftrightarrow> set (visited b) = reached s d r n U \<and> keyed edge_id (stored_edges s) (edges_seen b)
     \<and> edges_of b = crossed s d r n U \<and> \<not> truncated b
     \<and> {e \<in> stored_edges s. incident d r (reached s d r n U) e}
         = crossed s d r n U \<union> {e \<in> stored_edges s. incident d r (set (frontier b)) e}"

lemma level_init: "topology_ok s \<Longrightarrow> level s d r (set seeds) 0 (bfs_init seeds)"
  using inj_stored by (simp add: level_def bfs_init_def edges_of_def)

lemma level_step:
  assumes l: "level s d r U n b" and es: "set es = {e \<in> stored_edges s. incident d r (set (frontier b)) e}"
    and b': "b' = fold (absorb_edge None) es (b \<lparr> next_frontier := [] \<rparr>)"
  shows "level s d r U (Suc n) (b' \<lparr> frontier := next_frontier b' \<rparr>)"
proof -
  let ?R = "reached s d r n U" and ?C = "crossed s d r n U"
  have v: "set (visited b) = ?R" and k: "keyed edge_id (stored_edges s) (edges_seen b)" and e: "edges_of b = ?C"
    and t: "\<not> truncated b" and i: "{e \<in> stored_edges s. incident d r ?R e} = ?C \<union> set es"
    using l es by (simp_all add: level_def)
  have a: "set (visited b') = ?R \<union> endpoints (set es)" "set (next_frontier b') = endpoints (set es) - ?R" "\<not> truncated b'"
    using absorb_edges_unbounded [of es "b \<lparr> next_frontier := [] \<rparr>"] v t unfolding b' by simp_all
  have seen: "edges_seen b' = index_by edge_id es (edges_seen b)" unfolding b' absorb_edges_seen by simp
  have c: "crossed s d r (Suc n) U = ?C \<union> set es" unfolding crossed_Suc i ..
  have "endpoints (?C \<union> set es) = linked s d r `` ?R" unfolding linked_Image i ..
  then have R': "reached s d r (Suc n) U = ?R \<union> endpoints (set es)"
    using endpoints_crossed [of s d r n U] by (auto simp: reached_Suc endpoints_Un)
  have new: "keyed edge_id (stored_edges s) (edges_seen b')" "edges_of b' = ?C \<union> set es"
    using index_by_keyed [OF k, of es] es e unfolding seen edges_of_def by auto
  have "reached s d r (Suc n) U = ?R \<union> set (next_frontier b')" using a R' by blast
  then have "{e \<in> stored_edges s. incident d r (reached s d r (Suc n) U) e}
      = (?C \<union> set es) \<union> {e \<in> stored_edges s. incident d r (set (next_frontier b')) e}"
    unfolding i [symmetric] by (auto simp: incident_Un)
  then show ?thesis using a new c R' unfolding level_def edges_of_def by simp
qed

lemma level_done:
  assumes l: "level s d r U n b" and f: "frontier b = []"
  shows "set (visited b) = reached s d r (n + k) U \<and> edges_of b = crossed s d r (n + k) U"
proof -
  have i: "{e \<in> stored_edges s. incident d r (reached s d r n U) e} = crossed s d r n U"
    using l f by (auto simp: level_def incident_def)
  have "linked s d r `` reached s d r n U \<subseteq> reached s d r n U"
    unfolding linked_Image i by (rule endpoints_crossed)
  then have "reached s d r (Suc n) U = reached s d r n U" by (auto simp: reached_Suc)
  note st = reached_stable [OF this]
  have "crossed s d r (n + k) U = crossed s d r n U"
  proof (cases k)
    case (Suc j)
    then show ?thesis using i st [of j] by (simp add: crossed_Suc)
  qed simp
  then show ?thesis using l st [of k] by (simp add: level_def)
qed

lemma hop_loop_unbounded:
  assumes pl: "plan_ok pl" and s: "topology_ok s" and d: "d \<in> set DIRECTIONS" and l: "level s d r U n b"
  shows "\<exists>b'. hop_loop pl s d r None k b = Inr b' \<and> set (visited b') = reached s d r (n + k) U
    \<and> keyed edge_id (stored_edges s) (edges_seen b') \<and> edges_of b' = crossed s d r (n + k) U"
  using l
proof (induction k arbitrary: n b)
  case 0
  then show ?case by (simp add: level_def)
next
  case (Suc k)
  have t: "\<not> truncated b" and kd: "keyed edge_id (stored_edges s) (edges_seen b)" using Suc.prems by (simp_all add: level_def)
  show ?case
  proof (cases "frontier b = []")
    case True
    then show ?thesis using level_done [OF Suc.prems True, of "Suc k"] kd by simp
  next
    case False
    obtain es where es: "edges_for pl s (set_iter pl (frontier b)) d r = Inr es"
      "set es = {e \<in> stored_edges s. incident d r (set (frontier b)) e}"
      using edges_for_spec [OF pl s d, of "set_iter pl (frontier b)" r] plan_sets(4) [OF pl] by auto
    let ?b = "fold (absorb_edge None) es (b \<lparr> next_frontier := [] \<rparr>)"
    have "level s d r U (Suc n) (?b \<lparr> frontier := next_frontier ?b \<rparr>)" by (rule level_step [OF Suc.prems es(2) refl])
    from Suc.IH [OF this] show ?thesis using False t es(1) by (simp add: Let_def)
  qed
qed

lemma index_by_nodes:
  assumes "topology_ok s" and "set ns = {n \<in> stored_nodes s. node_id n \<in> A}"
  shows "dict_ok (index_by node_id ns []) \<and> (\<forall>i n. map_of (index_by node_id ns []) i = Some n \<longleftrightarrow> n \<in> stored_nodes s \<and> node_id n = i \<and> i \<in> A)"
proof -
  have "keyed node_id (stored_nodes s) []" using inj_stored [OF assms(1)] by simp
  from index_by_keyed [OF this, of ns] assms(2)
  have k: "keyed node_id (stored_nodes s) (index_by node_id ns [])" and v: "snd ` set (index_by node_id ns []) = set ns" by auto
  have ok: "dict_ok (index_by node_id ns [])" using k by (simp add: keyed_def)
  moreover have "map_of (index_by node_id ns []) i = Some n \<longleftrightarrow> n \<in> stored_nodes s \<and> node_id n = i \<and> i \<in> A" for i n
  proof
    assume "map_of (index_by node_id ns []) i = Some n"
    then have m: "(i, n) \<in> set (index_by node_id ns [])" by (rule map_of_SomeD)
    then have "i = node_id n" "n \<in> stored_nodes s" using k unfolding keyed_def by fastforce+
    moreover have "n \<in> set ns" using m v by (metis image_eqI snd_conv)
    ultimately show "n \<in> stored_nodes s \<and> node_id n = i \<and> i \<in> A" using assms(2) by auto
  next
    assume n: "n \<in> stored_nodes s \<and> node_id n = i \<and> i \<in> A"
    then have "n \<in> set ns" using assms(2) by auto
    then obtain p where p: "p \<in> set (index_by node_id ns [])" "snd p = n" using v by (metis imageE)
    then have "p = (i, n)" using k n unfolding keyed_def by (metis prod.collapse)
    then show "map_of (index_by node_id ns []) i = Some n" using p ok by simp
  qed
  ultimately show ?thesis by blast
qed

section \<open>A budget of nodes\<close>

definition budgeted :: "topology \<Rightarrow> string \<Rightarrow> string option \<Rightarrow> string set \<Rightarrow> nat \<Rightarrow> nat \<Rightarrow> bfs \<Rightarrow> bool" where
  "budgeted s d r U bound n b \<longleftrightarrow> set (visited b) \<subseteq> reached s d r n U \<and> set (frontier b) \<subseteq> set (visited b)
     \<and> edges_of b \<subseteq> crossed s d r n U \<and> keyed edge_id (stored_edges s) (edges_seen b)
     \<and> distinct (visited b) \<and> length (visited b) \<le> bound"

lemma visit_budget:
  assumes "nat m \<le> bound" and "length (visited b) \<le> bound" and "distinct (visited b)" and "set (next_frontier b) \<subseteq> set (visited b)"
  shows "length (visited (visit (Some m) v b)) \<le> bound \<and> distinct (visited (visit (Some m) v b))
    \<and> set (next_frontier (visit (Some m) v b)) \<subseteq> set (visited (visit (Some m) v b))
    \<and> set (visited (visit (Some m) v b)) \<subseteq> insert v (set (visited b))"
  using assms by (auto simp: visit_def)

lemma absorb_edges_budget:
  assumes "nat m \<le> bound" and "length (visited b) \<le> bound" and "distinct (visited b)" and "set (next_frontier b) \<subseteq> set (visited b)"
  shows "let b' = fold (absorb_edge (Some m)) es b
    in length (visited b') \<le> bound \<and> distinct (visited b') \<and> set (next_frontier b') \<subseteq> set (visited b')
       \<and> set (visited b') \<subseteq> set (visited b) \<union> endpoints (set es)"
  using assms
proof (induction es arbitrary: b)
  case (Cons e es)
  let ?b = "b \<lparr> edges_seen := AList.update (edge_id e) e (edges_seen b) \<rparr>"
  let ?c = "visit (Some m) (src e) ?b"
  let ?f = "visit (Some m) (dst e) ?c"
  have c: "length (visited ?c) \<le> bound \<and> distinct (visited ?c) \<and> set (next_frontier ?c) \<subseteq> set (visited ?c)
      \<and> set (visited ?c) \<subseteq> insert (src e) (set (visited ?b))"
    using Cons.prems by (intro visit_budget) simp_all
  have f: "length (visited ?f) \<le> bound \<and> distinct (visited ?f) \<and> set (next_frontier ?f) \<subseteq> set (visited ?f)
      \<and> set (visited ?f) \<subseteq> insert (dst e) (set (visited ?c))"
    using Cons.prems(1) c by (intro visit_budget) simp_all
  have "set (visited ?f) \<subseteq> set (visited b) \<union> {src e, dst e}" using c f by auto
  moreover have "let b' = fold (absorb_edge (Some m)) es ?f
    in length (visited b') \<le> bound \<and> distinct (visited b') \<and> set (next_frontier b') \<subseteq> set (visited b')
       \<and> set (visited b') \<subseteq> set (visited ?f) \<union> endpoints (set es)"
    using Cons.prems(1) f by (intro Cons.IH) simp_all
  moreover have "endpoints (set (e # es)) = {src e, dst e} \<union> endpoints (set es)" by (auto simp: endpoints_def)
  moreover have "fold (absorb_edge (Some m)) (e # es) b = fold (absorb_edge (Some m)) es ?f" by (simp add: absorb_edge_def)
  ultimately show ?case unfolding Let_def by (simp only:) blast
qed (simp add: endpoints_def)

lemma crossed_mono: "n \<le> n' \<Longrightarrow> crossed s d r n U \<subseteq> crossed s d r n' U"
  unfolding crossed_def using less_le_trans by blast

lemma budgeted_mono: "budgeted s d r U bound n b \<Longrightarrow> n \<le> n' \<Longrightarrow> budgeted s d r U bound n' b"
  unfolding budgeted_def using reached_mono [of n n' s d r U] crossed_mono [of n n' s d r U] by blast

lemma budgeted_step:
  assumes l: "budgeted s d r U bound n b" and m: "nat m \<le> bound"
    and es: "set es = {e \<in> stored_edges s. incident d r (set (frontier b)) e}"
    and b': "b' = fold (absorb_edge (Some m)) es (b \<lparr> next_frontier := [] \<rparr>)"
  shows "budgeted s d r U bound (Suc n) (b' \<lparr> frontier := next_frontier b' \<rparr>)"
proof -
  let ?R = "reached s d r n U"
  have v: "set (visited b) \<subseteq> ?R" and f: "set (frontier b) \<subseteq> ?R" and e: "edges_of b \<subseteq> crossed s d r n U"
    and k: "keyed edge_id (stored_edges s) (edges_seen b)" and dl: "distinct (visited b)" "length (visited b) \<le> bound"
    using l by (auto simp: budgeted_def)
  have sub: "set es \<subseteq> {e \<in> stored_edges s. incident d r ?R e}" using es incident_mono [OF f] by auto
  have "endpoints (set es) \<subseteq> linked s d r `` ?R" unfolding linked_Image using sub by (auto simp: endpoints_def)
  then have "set (visited b') \<subseteq> reached s d r (Suc n) U" and "length (visited b') \<le> bound" "distinct (visited b')"
    "set (next_frontier b') \<subseteq> set (visited b')"
    using absorb_edges_budget [OF m, of "b \<lparr> next_frontier := [] \<rparr>" es] dl v unfolding b' Let_def reached_Suc by auto
  moreover have "crossed s d r n U \<subseteq> crossed s d r (Suc n) U" by (simp add: crossed_mono)
  moreover have "edges_seen b' = index_by edge_id es (edges_seen b)" unfolding b' absorb_edges_seen by simp
  ultimately show ?thesis
    using index_by_keyed [OF k, of es] es e sub unfolding budgeted_def edges_of_def crossed_Suc by auto
qed

lemma hop_loop_budget:
  assumes pl: "plan_ok pl" and s: "topology_ok s" and d: "d \<in> set DIRECTIONS" and m: "nat m \<le> bound"
    and l: "budgeted s d r U bound n b"
  shows "\<exists>b'. hop_loop pl s d r (Some m) k b = Inr b' \<and> budgeted s d r U bound (n + k) b'"
  using l
proof (induction k arbitrary: n b)
  case (Suc k)
  show ?case
  proof (cases "frontier b = [] \<or> truncated b")
    case True
    then show ?thesis using budgeted_mono [OF Suc.prems, of "n + Suc k"] by simp
  next
    case False
    obtain es where es: "edges_for pl s (set_iter pl (frontier b)) d r = Inr es"
      "set es = {e \<in> stored_edges s. incident d r (set (frontier b)) e}"
      using edges_for_spec [OF pl s d, of "set_iter pl (frontier b)" r] plan_sets(4) [OF pl] by auto
    let ?b = "fold (absorb_edge (Some m)) es (b \<lparr> next_frontier := [] \<rparr>)"
    have "budgeted s d r U bound (Suc n) (?b \<lparr> frontier := next_frontier ?b \<rparr>)"
      by (rule budgeted_step [OF Suc.prems m es(2) refl])
    from Suc.IH [OF this] show ?thesis using False es(1) by (simp add: Let_def)
  qed
qed simp

lemma absorb_edges_mono: "set (visited b) \<subseteq> set (visited (fold (absorb_edge m) es b))"
proof (induction es arbitrary: b)
  case (Cons e es)
  have "set (visited b) \<subseteq> set (visited (visit m v b))" for v b by (auto simp: visit_def)
  then have "set (visited b) \<subseteq> set (visited (absorb_edge m e b))" unfolding absorb_edge_def by (metis (no_types, lifting) bfs.select_convs(1) bfs.surjective bfs.update_convs(4) order_trans)
  also have "\<dots> \<subseteq> set (visited (fold (absorb_edge m) es (absorb_edge m e b)))" by (rule Cons.IH)
  finally show ?case by simp
qed simp

lemma hop_loop_mono: "hop_loop pl s d r m k b = Inr b' \<Longrightarrow> set (visited b) \<subseteq> set (visited b')"
proof (induction k arbitrary: b)
  case (Suc k)
  show ?case
  proof (cases "frontier b = [] \<or> truncated b")
    case False
    then obtain es where es: "edges_for pl s (set_iter pl (frontier b)) d r = Inr es"
      using Suc.prems by (cases "edges_for pl s (set_iter pl (frontier b)) d r") auto
    let ?c = "fold (absorb_edge m) es (b \<lparr> next_frontier := [] \<rparr>)"
    have "set (visited b) \<subseteq> set (visited ?c)" using absorb_edges_mono [of "b \<lparr> next_frontier := [] \<rparr>" m es] by simp
    also have "\<dots> \<subseteq> set (visited b')" using Suc.IH [of "?c \<lparr> frontier := next_frontier ?c \<rparr>"] Suc.prems False es by (simp add: Let_def)
    finally show ?thesis .
  qed (use Suc.prems in simp)
qed simp

text \<open>A budget that the whole neighbourhood fits in changes nothing.\<close>

lemma visit_same:
  assumes "finite R" and "card R \<le> nat m" and "distinct (visited b)" and "insert v (set (visited b)) \<subseteq> R"
  shows "visit (Some m) v b = visit None v b"
proof -
  have "length (visited b) < nat m" if "v \<notin> set (visited b)"
  proof -
    have "Suc (length (visited b)) = card (insert v (set (visited b)))" using that assms(3) by (simp add: distinct_card)
    also have "\<dots> \<le> card R" using assms(1, 4) by (rule card_mono)
    finally show ?thesis using assms(2) by simp
  qed
  then show ?thesis by (auto simp: visit_def)
qed

lemma absorb_edges_same:
  assumes "finite R" and "card R \<le> nat m" and "distinct (visited b)" and "set (visited b) \<union> endpoints (set es) \<subseteq> R"
  shows "fold (absorb_edge (Some m)) es b = fold (absorb_edge None) es b"
  using assms(3, 4)
proof (induction es arbitrary: b)
  case (Cons e es)
  let ?b = "b \<lparr> edges_seen := AList.update (edge_id e) e (edges_seen b) \<rparr>"
  have dist: "distinct (visited (visit None v b))" if "distinct (visited b)" for v b using that by (auto simp: visit_def)
  have ends: "src e \<in> R" "dst e \<in> R" "endpoints (set es) \<subseteq> R" "set (visited b) \<subseteq> R" using Cons.prems(2) by (auto simp: endpoints_def)
  have 1: "visit (Some m) (src e) ?b = visit None (src e) ?b" using Cons.prems(1) ends by (intro visit_same [OF assms(1, 2)]) auto
  have 2: "visit (Some m) (dst e) (visit None (src e) ?b) = visit None (dst e) (visit None (src e) ?b)"
    using Cons.prems(1) ends by (intro visit_same [OF assms(1, 2)] dist) (auto simp: visit_unbounded)
  have "distinct (visited (absorb_edge None e b))" "set (visited (absorb_edge None e b)) \<union> endpoints (set es) \<subseteq> R"
    using Cons.prems(1) ends unfolding absorb_unbounded by (auto simp: absorb_edge_def dist)
  from Cons.IH [OF this] show ?case by (simp add: absorb_edge_def 1 2)
qed simp

lemma hop_loop_same:
  assumes pl: "plan_ok pl" and s: "topology_ok s" and d: "d \<in> set DIRECTIONS" and m: "nat m \<le> bound"
    and fits: "finite (reached s d r N U)" "card (reached s d r N U) \<le> nat m"
    and l: "budgeted s d r U bound n b" and N: "n + k \<le> N"
  shows "hop_loop pl s d r (Some m) k b = hop_loop pl s d r None k b"
  using l N
proof (induction k arbitrary: n b)
  case (Suc k)
  show ?case
  proof (cases "frontier b = [] \<or> truncated b")
    case False
    obtain es where es: "edges_for pl s (set_iter pl (frontier b)) d r = Inr es"
      "set es = {e \<in> stored_edges s. incident d r (set (frontier b)) e}"
      using edges_for_spec [OF pl s d, of "set_iter pl (frontier b)" r] plan_sets(4) [OF pl] by auto
    let ?b = "fold (absorb_edge (Some m)) es (b \<lparr> next_frontier := [] \<rparr>)"
    have b: "set (visited b) \<subseteq> reached s d r n U" "set (frontier b) \<subseteq> reached s d r n U" "distinct (visited b)"
      using Suc.prems(1) by (auto simp: budgeted_def)
    have "endpoints (set es) = linked s d r `` set (frontier b)" unfolding linked_Image es(2) ..
    then have "set (visited b) \<union> endpoints (set es) \<subseteq> reached s d r (Suc n) U" using b(1, 2) unfolding reached_Suc by blast
    also have "\<dots> \<subseteq> reached s d r N U" using Suc.prems(2) by (intro reached_mono) simp
    finally have "?b = fold (absorb_edge None) es (b \<lparr> next_frontier := [] \<rparr>)" using b(3) by (intro absorb_edges_same [OF fits]) simp_all
    moreover have "budgeted s d r U bound (Suc n) (?b \<lparr> frontier := next_frontier ?b \<rparr>)"
      by (rule budgeted_step [OF Suc.prems(1) m es(2) refl])
    from Suc.IH [OF this] Suc.prems(2) have "hop_loop pl s d r (Some m) k (?b \<lparr> frontier := next_frontier ?b \<rparr>)
      = hop_loop pl s d r None k (?b \<lparr> frontier := next_frontier ?b \<rparr>)" by simp
    ultimately show ?thesis using False es(1) by (simp add: Let_def)
  qed simp
qed simp

section \<open>The properties\<close>

text \<open>
  C8. Completeness of \<open>k_hop\<close>.  In a well-formed store the expansion without a node budget always
  returns, and it returns exactly the stored nodes that a path of at most \<open>k\<close> edges, followed in the
  wanted direction and relation, joins to a seed, each with its stored record, and exactly the edges
  that leave a node fewer than \<open>k\<close> hops away, each once.  A negative \<open>k\<close> counts as 0; stopping early on
  an empty frontier loses nothing, and the order of rows and sets does not matter.
\<close>

theorem k_hop_complete:
  assumes "plan_ok pl" and "topology_ok s" and "direction \<in> set DIRECTIONS" and "n = nat k"
  shows "\<exists>sub. k_hop pl s seeds k direction rel None = Inr sub
    \<and> (\<forall>i nd. map_of (sub_nodes sub) i = Some nd \<longleftrightarrow>
         nd \<in> stored_nodes s \<and> node_id nd = i
         \<and> (\<exists>a \<in> set seeds. \<exists>j \<le> n. (a, i) \<in> linked s direction rel ^^ j))
    \<and> distinct (map edge_id (sub_edges sub))
    \<and> set (sub_edges sub) = {e \<in> stored_edges s. \<exists>j < n.
         incident direction rel {b. \<exists>a \<in> set seeds. \<exists>i \<le> j. (a, b) \<in> linked s direction rel ^^ i} e}"
proof -
  obtain b where b: "hop_loop pl s direction rel None n (bfs_init seeds) = Inr b"
    "set (visited b) = reached s direction rel n (set seeds)" "keyed edge_id (stored_edges s) (edges_seen b)"
    "edges_of b = crossed s direction rel n (set seeds)"
    using hop_loop_unbounded [OF assms(1-3) level_init [OF assms(2), of direction rel seeds], of n] by auto
  obtain ns where ns: "get_nodes pl s (set_iter pl (visited b)) = Inr ns"
    "set ns = {nd \<in> stored_nodes s. node_id nd \<in> set (visited b)}"
    using get_nodes_spec [OF assms(1,2), of "set_iter pl (visited b)"] plan_sets(4) [OF assms(1)] by auto
  have "nat (max 0 k) = n" using assms(4) by simp
  then have "k_hop pl s seeds k direction rel None
      = Inr \<lparr> sub_nodes = index_by node_id ns [], sub_edges = map snd (edges_seen b), sub_seeds = [] \<rparr>"
    using b(1) ns(1) by (simp add: k_hop_def)
  moreover have "distinct (map edge_id (map snd (edges_seen b)))" by (rule keyed_distinct [OF b(3)])
  ultimately show ?thesis
    using index_by_nodes [OF assms(2) ns(2)] b(2,4) unfolding edges_of_def crossed_def reached_def by auto
qed

theorem k_hop_complete_witness:
  "plan_ok insertion_plan \<and> topology_ok sample_store
   \<and> k_hop insertion_plan sample_store [''a''] 1 ''both'' None None
       = Inr \<lparr> sub_nodes = [(''a'', sample_node ''a''), (''b'', sample_node ''b'')],
               sub_edges = [sample_edge ''a'' ''b''], sub_seeds = [] \<rparr>
   \<and> (\<exists>a \<in> {''a''}. \<exists>j \<le> 1. (a, ''b'') \<in> linked sample_store ''both'' None ^^ j)
   \<and> \<not> (\<exists>a \<in> {''a''}. \<exists>j \<le> 1. sample_node ''c'' \<in> stored_nodes sample_store \<and> (a, ''c'') \<in> linked sample_store ''both'' None ^^ j)"
proof -
  let ?sub = "\<lparr> sub_nodes = [(''a'', sample_node ''a''), (''b'', sample_node ''b'')],
     sub_edges = [sample_edge ''a'' ''b''], sub_seeds = [] \<rparr>"
  have k: "k_hop insertion_plan sample_store [''a''] 1 ''both'' None None = Inr ?sub" by code_simp
  have d: "''both'' \<in> set DIRECTIONS" by (simp add: DIRECTIONS_def)
  note t = k_hop_complete [OF insertion_plan_ok sample_store_ok d refl, where k = 1 and seeds = "[''a'']" and rel = None]
  have c: "map_of (sub_nodes ?sub) i = Some nd \<longleftrightarrow>
      nd \<in> stored_nodes sample_store \<and> node_id nd = i
      \<and> (\<exists>a \<in> set [''a'']. \<exists>j \<le> nat 1. (a, i) \<in> linked sample_store ''both'' None ^^ j)" for i nd
    using t unfolding k by blast
  have "\<exists>a \<in> {''a''}. \<exists>j \<le> 1. (a, ''b'') \<in> linked sample_store ''both'' None ^^ j"
    using c [of "''b''" "sample_node ''b''"] by simp
  moreover have "\<not> (\<exists>a \<in> {''a''}. \<exists>j \<le> 1. sample_node ''c'' \<in> stored_nodes sample_store \<and> (a, ''c'') \<in> linked sample_store ''both'' None ^^ j)"
    using c [of "''c''" "sample_node ''c''"] by (simp add: sample_node_def)
  ultimately show ?thesis using k insertion_plan_ok sample_store_ok by blast
qed

text \<open>
  C19. The node budget of \<open>k_hop\<close>.  With \<open>max_nodes\<close> the expansion still returns.  The seeds are never
  cut: every stored seed is in the result, which has at most the budget or the number of distinct
  seeds, whichever is larger, of nodes.  Everything in the partial subgraph belongs to the complete
  one, nodes within \<open>k\<close> hops and edges the full expansion crosses, and when the whole neighbourhood
  fits in the budget the result is the one without a budget.
\<close>

theorem k_hop_budget:
  assumes "plan_ok pl" and "topology_ok s" and "direction \<in> set DIRECTIONS" and "n = nat k"
  shows "\<exists>sub. k_hop pl s seeds k direction rel (Some m) = Inr sub
    \<and> length (sub_nodes sub) \<le> max (nat m) (card (set seeds))
    \<and> set (dkeys (sub_nodes sub)) \<subseteq> reached s direction rel n (set seeds)
    \<and> snd ` set (sub_nodes sub) \<subseteq> stored_nodes s
    \<and> (\<forall>nd \<in> stored_nodes s. node_id nd \<in> set seeds \<longrightarrow> map_of (sub_nodes sub) (node_id nd) = Some nd)
    \<and> set (sub_edges sub) \<subseteq> crossed s direction rel n (set seeds)
    \<and> (card (reached s direction rel n (set seeds)) \<le> nat m \<longrightarrow> k_hop pl s seeds k direction rel None = Inr sub)"
proof -
  let ?bound = "max (nat m) (card (set seeds))"
  have init: "budgeted s direction rel (set seeds) ?bound 0 (bfs_init seeds)"
    using inj_stored [OF assms(2)] by (simp add: budgeted_def bfs_init_def edges_of_def length_remdups_card_conv)
  then obtain b where b: "hop_loop pl s direction rel (Some m) n (bfs_init seeds) = Inr b"
    "budgeted s direction rel (set seeds) ?bound n b"
    using hop_loop_budget [OF assms(1-3), of m ?bound rel "set seeds" 0 "bfs_init seeds" n] by auto
  obtain ns where ns: "get_nodes pl s (set_iter pl (visited b)) = Inr ns"
    "set ns = {nd \<in> stored_nodes s. node_id nd \<in> set (visited b)}"
    using get_nodes_spec [OF assms(1,2), of "set_iter pl (visited b)"] plan_sets(4) [OF assms(1)] by auto
  let ?d = "index_by node_id ns []"
  note d = index_by_nodes [OF assms(2) ns(2)]
  have keys: "set (dkeys ?d) \<subseteq> set (visited b)"
  proof
    fix i assume "i \<in> set (dkeys ?d)"
    then obtain nd where "map_of ?d i = Some nd" by (metis map_of_None_iff option.exhaust)
    then show "i \<in> set (visited b)" using d by blast
  qed
  have "length ?d = card (set (dkeys ?d))" using d distinct_card [of "dkeys ?d"] by (metis length_map)
  also have "\<dots> \<le> card (set (visited b))" using keys by (intro card_mono) auto
  also have "\<dots> \<le> ?bound" using b(2) by (auto simp: budgeted_def distinct_card)
  finally have "length ?d \<le> ?bound" .
  moreover have "snd ` set ?d \<subseteq> stored_nodes s"
  proof clarify
    fix i nd assume "(i, nd) \<in> set ?d"
    then have "map_of ?d i = Some nd" using d by simp
    then show "snd (i, nd) \<in> stored_nodes s" using d by simp
  qed
  moreover have "map_of ?d (node_id nd) = Some nd" if "nd \<in> stored_nodes s" "node_id nd \<in> set seeds" for nd
    using that d hop_loop_mono [OF b(1)] by (auto simp: bfs_init_def)
  moreover have k: "nat (max 0 k) = n" using assms(4) by simp
  moreover have "k_hop pl s seeds k direction rel None = k_hop pl s seeds k direction rel (Some m)"
    if "card (reached s direction rel n (set seeds)) \<le> nat m"
  proof -
    have "finite (reached s direction rel n (set seeds))"
      using hop_loop_unbounded [OF assms(1-3) level_init [OF assms(2), of direction rel seeds], of n] by (metis List.finite_set add_0)
    from hop_loop_same [OF assms(1-3) _ this that init] show ?thesis by (simp add: k_hop_def k)
  qed
  ultimately show ?thesis
    using b ns(1) keys unfolding k_hop_def budgeted_def edges_of_def by auto
qed

theorem k_hop_budget_witness:
  "plan_ok insertion_plan \<and> topology_ok sample_store
   \<and> k_hop insertion_plan sample_store [''a''] 5 ''out'' None (Some 2)
       = Inr \<lparr> sub_nodes = [(''a'', sample_node ''a''), (''b'', sample_node ''b'')],
               sub_edges = [sample_edge ''a'' ''b'', sample_edge ''b'' ''c''], sub_seeds = [] \<rparr>
   \<and> sample_edge ''b'' ''c'' \<in> crossed sample_store ''out'' None 5 {''a''}"
proof -
  have k: "k_hop insertion_plan sample_store [''a''] 5 ''out'' None (Some 2)
       = Inr \<lparr> sub_nodes = [(''a'', sample_node ''a''), (''b'', sample_node ''b'')],
               sub_edges = [sample_edge ''a'' ''b'', sample_edge ''b'' ''c''], sub_seeds = [] \<rparr>" by code_simp
  have d: "''out'' \<in> set DIRECTIONS" by (simp add: DIRECTIONS_def)
  have "sample_edge ''b'' ''c'' \<in> crossed sample_store ''out'' None 5 {''a''}"
    using k_hop_budget [OF insertion_plan_ok sample_store_ok d refl, where k = 5 and seeds = "[''a'']" and rel = None and m = 2] unfolding k by simp
  with k show ?thesis using insertion_plan_ok sample_store_ok by blast
qed

end
