(* ===== verification/SdkLaws.thy ===== *)
theory SdkLaws
  imports KnowledgeGraph
begin

text \<open>
  The contract between the SDK and the compiled engine, and what the SDK operations and the
  knowledge graph do to the set of stored documents under that contract.  The contract is the locale
  \<open>document_engine\<close>: \<open>docs\<close> reads the stored documents off the engine's state, and each operation that
  reports success has the documented effect on them.  Nothing is assumed of an operation that fails.
\<close>

section \<open>The contract\<close>

datatype content = TextDoc string | VectorDoc vector "string option"

type_synonym stored = "meta \<times> content"

definition text_entry :: "engine_document \<Rightarrow> string \<times> stored" where
  "text_entry d = (ed_id d, ed_metadata d, TextDoc (ed_text d))"

definition vector_entry :: "engine_vector_document \<Rightarrow> string \<times> stored" where
  "vector_entry d = (vd_id d, vd_metadata d, VectorDoc (vd_vector d) (vd_text d))"

definition matrix_entries :: "vector list \<Rightarrow> sidecar list \<Rightarrow> (string \<times> stored) list" where
  "matrix_entries m side = map2 (\<lambda>v (i, md, t). (i, md, VectorDoc v t)) m side"

text \<open>The documents after an upsert of entries, the last one for an id winning.\<close>

definition upserted :: "(string \<Rightarrow> stored option) \<Rightarrow> (string \<times> stored) list \<Rightarrow> string \<Rightarrow> stored option" where
  "upserted ds es = ds ++ map_of (rev es)"

definition listed_id :: "json_obj \<Rightarrow> string" where
  "listed_id r = py_str (pget r ''document_id'' (PStr []))"

text \<open>A handle that changed nothing but its engine, whose documents are now \<open>ds\<close>.\<close>

definition moved :: "('n \<Rightarrow> 'd) \<Rightarrow> 'n lodedb \<Rightarrow> 'n lodedb \<Rightarrow> 'd \<Rightarrow> bool" where
  "moved docs h h' ds \<longleftrightarrow> h' = h \<lparr> engine := engine h' \<rparr> \<and> docs (engine h') = ds"

lemma moved_refl [simp]: "moved docs h h ds \<longleftrightarrow> docs (engine h) = ds"
  by (simp add: moved_def)

lemma moved_engine [simp]: "moved docs h (h \<lparr> engine := n \<rparr>) ds \<longleftrightarrow> docs n = ds"
  by (simp add: moved_def)

lemma moved_trans: "moved docs (h \<lparr> engine := n \<rparr>) h' ds \<Longrightarrow> moved docs h h' ds"
  by (simp add: moved_def)

lemma each_frame:
  assumes "each f xs s = (Inr ys, t)" and "\<And>x y u. x \<in> set xs \<Longrightarrow> f x s = (Inr y, u) \<Longrightarrow> u = s \<and> P x y"
  shows "t = s \<and> list_all2 P xs ys"
  using assms
proof (induction xs arbitrary: ys)
  case (Cons x xs)
  from Cons.prems(1) obtain y u zs where f: "f x s = (Inr y, u)" and e: "each f xs u = (Inr zs, t)" and ys: "ys = y # zs"
    by (auto simp: bnd_Inr)
  have u: "u = s" and p: "P x y" using Cons.prems(2) [OF _ f] by auto
  have "t = s \<and> list_all2 P xs zs" by (rule Cons.IH [OF e [unfolded u]]) (rule Cons.prems(2), simp, assumption)
  then show ?case using p ys by simp
qed simp

lemma prepare_length:
  assumes "prepare_vector_matrix rt vs w b = Inr m"
  shows "length m = length vs"
  using assms
  by (auto simp: prepare_vector_matrix_def l2_normalize_wide_def Let_def split: if_splits)

definition prepared :: "('n, 'p) runtime \<Rightarrow> nat \<Rightarrow> vector \<Rightarrow> vector \<Rightarrow> bool" where
  "prepared rt w v v' \<longleftrightarrow> (\<exists>vs m. prepare_vector_matrix rt vs w True = Inr m \<and> (v, v') \<in> set (zip vs m))"

definition text_stored :: "text_item \<Rightarrow> string \<times> stored \<Rightarrow> bool" where
  "text_stored it en \<longleftrightarrow> (case en of (i, md, c) \<Rightarrow>
     ti_id it = Some i \<and> coerce_metadata (ti_metadata it) = Inr md \<and> c = TextDoc (py_str (ti_text it)))"

definition vector_stored :: "('n, 'p) runtime \<Rightarrow> nat \<Rightarrow> vector_item \<Rightarrow> string \<times> stored \<Rightarrow> bool" where
  "vector_stored rt w it en \<longleftrightarrow> (case en of (i, md, c) \<Rightarrow>
     vi_id it = Some i \<and> coerce_metadata (vi_metadata it) = Inr md
     \<and> (\<exists>v v' t. vi_vector it = Some v \<and> prepared rt w v v' \<and> coerce_optional_text (vi_text it) = Inr t \<and> c = VectorDoc v' t))"

text \<open>The filter of an exact match on one field, in the engine's form.\<close>

definition exact_filter :: "string \<Rightarrow> string \<Rightarrow> pyval" where
  "exact_filter key v = PDict [(PStr ''metadata'', PDict [(PStr key, PStr v)])]"

locale document_engine =
  fixes rt :: "('n, 'p) runtime" and docs :: "'n \<Rightarrow> string \<Rightarrow> stored option"
  assumes upsert_vectors_law:
      "upsert_vectors rt vds n = (Inr (), n') \<Longrightarrow> docs n' = upserted (docs n) (map vector_entry vds)"
    and upsert_matrix_law:
      "upsert_vectors_matrix rt m side n = (Inr (), n') \<Longrightarrow> length m = length side
        \<Longrightarrow> docs n' = upserted (docs n) (matrix_entries m side)"
    and prepare_text_law:
      "prepare_text_upsert rt ds st ix limit n = (Inr p, n') \<Longrightarrow> docs n' = docs n"
    and apply_text_law:
      "prepare_text_upsert rt ds st ix limit n = (Inr p, n') \<Longrightarrow> apply_text_upsert rt p vs n' = (Inr (), n'')
        \<Longrightarrow> docs n'' = upserted (docs n) (map text_entry ds)"
    and delete_law:
      "delete_documents rt ids n = (Inr r, n') \<Longrightarrow> docs n' = docs n |` (- set ids)"
    and persist_law:
      "engine_persist rt n = (Inr (), n') \<Longrightarrow> docs n' = docs n"
    and list_law:
      "engine_list_documents rt (Some (exact_filter key v)) None None n = (Inr rs, n') \<Longrightarrow> plain_key (PStr key)
        \<Longrightarrow> docs n' = docs n \<and> set (map listed_id rs) = {i. \<exists>m c. docs n i = Some (m, c) \<and> map_of m key = Some v}"
begin

lemma on_engine_Inr:
  "on_engine m h = (Inr x, h') \<longleftrightarrow> (\<exists>n. m (engine h) = (Inr x, n) \<and> h' = h \<lparr> engine := n \<rparr>)"
  by (simp add: zoom_Inr)

lemma persist_after_docs:
  assumes "persist_after_mutation rt h = (Inr (), h')"
  shows "moved docs h h' (docs (engine h))"
proof (cases "should_persist_after_mutation h")
  case True
  then show ?thesis using assms persist_law unfolding persist_after_mutation_def by (auto simp: on_engine_Inr)
next
  case False
  then show ?thesis using assms unfolding persist_after_mutation_def by simp
qed

lemma native_upsert_text_docs:
  assumes "native_upsert_text_documents rt ds h = (Inr (), h')"
  shows "moved docs h h' (upserted (docs (engine h)) (map text_entry ds))"
proof (cases "ds = []")
  case True
  then show ?thesis using assms by (simp add: native_upsert_text_documents_def upserted_def matrix_entries_def)
next
  case False
  from assms False obtain p n1 vs n2 where
    p: "prepare_text_upsert rt ds (store_text h) (index_text h) (chunk_character_limit h) (engine h) = (Inr p, n1)"
    and a: "apply_text_upsert rt p vs n1 = (Inr (), n2)"
    and e: "persist_after_mutation rt (h \<lparr> engine := n2 \<rparr>) = (Inr (), h')"
    unfolding native_upsert_text_documents_def fail_closed_def
    by (auto simp: bnd_Inr on_engine_Inr split: option.splits)
  then show ?thesis using apply_text_law [OF p a] moved_trans [OF persist_after_docs [OF e]] by simp
qed

lemma native_upsert_matrix_docs:
  assumes "native_upsert_vectors_matrix rt m side h = (Inr (), h')" and "length m = length side"
  shows "moved docs h h' (upserted (docs (engine h)) (matrix_entries m side))"
proof (cases "side = []")
  case True
  then show ?thesis using assms by (simp add: native_upsert_vectors_matrix_def upserted_def matrix_entries_def)
next
  case False
  from assms False obtain n1 where
    a: "upsert_vectors_matrix rt m side (engine h) = (Inr (), n1)"
    and e: "persist_after_mutation rt (h \<lparr> engine := n1 \<rparr>) = (Inr (), h')"
    unfolding native_upsert_vectors_matrix_def fail_closed_def by (auto simp: bnd_Inr on_engine_Inr)
  then show ?thesis using upsert_matrix_law [OF a assms(2)] moved_trans [OF persist_after_docs [OF e]] by simp
qed

lemma native_delete_docs:
  assumes "native_delete_documents rt ids h = (Inr r, h')"
  shows "moved docs h h' (docs (engine h) |` (- set ids))"
proof (cases "ids = []")
  case True
  then show ?thesis using assms by (auto simp: native_delete_documents_def restrict_map_def)
next
  case False
  from assms False obtain n1 h2 where
    a: "delete_documents rt ids (engine h) = (Inr r, n1)" and e: "persist_after_mutation rt (h \<lparr> engine := n1 \<rparr>) = (Inr (), h')"
    unfolding native_delete_documents_def fail_closed_def by (auto simp: bnd_Inr on_engine_Inr)
  then show ?thesis using delete_law [OF a] moved_trans [OF persist_after_docs [OF e]] by simp
qed

lemma remove_docs:
  assumes "remove rt (PStr i) h = (Inr b, h')"
  shows "moved docs h h' ((docs (engine h)) (i := None))"
proof -
  obtain r where "native_delete_documents rt [i] h = (Inr r, h')"
    using assms unfolding remove_def remove_many_def require_writable_def
    by (auto simp: bnd_Inr split: if_splits)
  from native_delete_docs [OF this] show ?thesis
    by (auto simp: moved_def restrict_map_def fun_eq_iff)
qed

lemma add_many_docs:
  assumes "add_many rt items h = (Inr ids, h')" and "\<And>it. it \<in> set items \<Longrightarrow> ti_id it \<noteq> None"
  shows "\<exists>es. moved docs h h' (upserted (docs (engine h)) es) \<and> list_all2 text_stored items es"
proof -
  obtain payload h1 where p: "each (text_payload rt) items h = (Inr payload, h1)"
    and n: "(if payload = [] then ret () else native_upsert_text_documents rt payload) h1 = (Inr (), h')"
    using assms(1) unfolding add_many_def require_writable_def require_text_capable_def
    by (auto simp: bnd_Inr split: if_splits)
  have t: "u = h \<and> text_stored it (text_entry d)" if "it \<in> set items" "text_payload rt it h = (Inr d, u)" for it d u
    using that(2) assms(2) [OF that(1)]
    by (auto simp: text_payload_def document_id_or_auto_def bnd_Inr text_stored_def text_entry_def split: if_splits)
  have h1: "h1 = h" and l: "list_all2 (\<lambda>it d. text_stored it (text_entry d)) items payload"
    using each_frame [OF p, of "\<lambda>it d. text_stored it (text_entry d)"] t by blast+
  have "native_upsert_text_documents rt payload h = (Inr (), h')"
    using n h1 by (cases "payload = []") (simp_all add: native_upsert_text_documents_def)
  from native_upsert_text_docs [OF this] l show ?thesis
    by (metis (no_types, lifting) list.rel_map(2) list_all2_mono)
qed

lemma add_vectors_many_docs:
  assumes "add_vectors_many rt items True h = (Inr ids, h')" and "\<And>it. it \<in> set items \<Longrightarrow> vi_id it \<noteq> None"
  shows "\<exists>es. moved docs h h' (upserted (docs (engine h)) es) \<and> list_all2 (vector_stored rt (vector_dim h)) items es"
proof -
  obtain rows h1 where p: "each (vector_payload rt) items h = (Inr rows, h1)"
    and n: "(if rows = [] then ret []
     else bnd (gets vector_dim) (\<lambda>width.
          bnd (lift (prepare_vector_matrix rt (map fst rows) width True)) (\<lambda>matrix.
          bnd (native_upsert_vectors_matrix rt matrix (map snd rows)) (\<lambda>_.
          ret (map (fst \<circ> snd) rows))))) h1 = (Inr ids, h')"
    using assms(1) unfolding add_vectors_many_def require_writable_def by (auto simp: bnd_Inr split: if_splits)
  let ?P = "\<lambda>it (v, i, md, t). vi_id it = Some i \<and> coerce_metadata (vi_metadata it) = Inr md
     \<and> vi_vector it = Some v \<and> coerce_optional_text (vi_text it) = Inr t"
  have t: "u = h \<and> ?P it d" if "it \<in> set items" "vector_payload rt it h = (Inr d, u)" for it d u
    using that(2) assms(2) [OF that(1)]
    by (auto simp: vector_payload_def document_id_or_auto_def bnd_Inr split: option.splits)
  have h1: "h1 = h" and l: "list_all2 ?P items rows" using each_frame [OF p, of ?P] t by blast+
  show ?thesis
  proof (cases "rows = []")
    case True
    then show ?thesis using n h1 l by (auto simp: upserted_def)
  next
    case False
    then obtain m where m: "prepare_vector_matrix rt (map fst rows) (vector_dim h) True = Inr m"
      and w: "native_upsert_vectors_matrix rt m (map snd rows) h = (Inr (), h')"
      using n h1 by (auto simp: bnd_Inr)
    have len: "length m = length (map snd rows)" using prepare_length [OF m] by simp
    have pr: "prepared rt (vector_dim h) (fst (rows ! j)) (m ! j)" if "j < length rows" for j
      unfolding prepared_def using m that len by (metis (no_types, lifting) length_map nth_map nth_mem nth_zip length_zip min.idem)
    have "list_all2 (vector_stored rt (vector_dim h)) items (matrix_entries m (map snd rows))"
      unfolding list_all2_conv_all_nth
    proof (intro conjI allI impI)
      show "length items = length (matrix_entries m (map snd rows))"
        using l len by (simp add: matrix_entries_def list_all2_lengthD)
      fix j assume j: "j < length items"
      then have "?P (items ! j) (rows ! j)" and "j < length rows" using l by (auto simp: list_all2_conv_all_nth)
      then show "vector_stored rt (vector_dim h) (items ! j) (matrix_entries m (map snd rows) ! j)"
        using pr [of j] len by (auto simp: matrix_entries_def vector_stored_def split: prod.splits)
    qed
    then show ?thesis using native_upsert_matrix_docs [OF w len] by blast
  qed
qed

lemma list_docs:
  assumes "list_documents rt (Some (PDict d)) None None h = (Inr recs, h')"
    and f: "normalize_filter (Some (PDict d)) = Inr (Some (exact_filter key v))" "plain_key (PStr key)"
  shows "moved docs h h' (docs (engine h))
    \<and> set (map rec_id recs) = {i. \<exists>m c. docs (engine h) i = Some (m, c) \<and> map_of m key = Some v}"
proof -
  obtain rs n where l: "engine_list_documents rt (Some (exact_filter key v)) None None (engine h) = (Inr rs, n)"
    and h': "h' = h \<lparr> engine := n \<rparr>" and r: "res_mapM public_document_record rs = Inr recs"
    using assms(1) f(1) unfolding list_documents_def native_list_documents_def fail_closed_def
    by (auto simp: bnd_Inr on_engine_Inr)
  have "rec_id p = listed_id q" if "public_document_record q = Inr p" for p q
    using that by (auto simp: public_document_record_def listed_id_def)
  then have "map rec_id recs = map listed_id rs" using r unfolding res_mapM_Inr_iff
    by (auto simp: list_all2_conv_all_nth intro!: nth_equalityI)
  then show ?thesis using list_law [OF l f(2)] h' by simp
qed

end

end
