(* ===== verification/GraphLaws.thy ===== *)
theory GraphLaws
  imports SdkLaws
begin

text \<open>
  What \<open>reindex\<close> and the removal operations of the knowledge graph do to the semantic index, under
  the engine contract of theory SdkLaws.  A \<open>reindex\<close> re-creates the document of every node it can
  rebuild and drops the documents of entities that are gone, whatever the index held before.
\<close>

section \<open>Entries\<close>

lemma stored_lookup:
  assumes l: "list_all2 R items es" and k: "\<forall>it en. R it en \<longrightarrow> key it = Some (fst en)" and d: "distinct (map key items)"
  shows "\<And>it. it \<in> set items \<Longrightarrow> \<exists>i x. key it = Some i \<and> R it (i, x) \<and> upserted ds es i = Some x"
    and "\<And>i. Some i \<notin> key ` set items \<Longrightarrow> upserted ds es i = ds i"
proof -
  have keys: "map key items = map (Some \<circ> fst) es"
  proof (rule nth_equalityI)
    show "length (map key items) = length (map (Some \<circ> fst) es)" using l by (simp add: list_all2_lengthD)
    fix j assume "j < length (map key items)"
    then have "R (items ! j) (es ! j)" "j < length es" "j < length items" using l by (auto simp: list_all2_conv_all_nth)
    then show "map key items ! j = map (Some \<circ> fst) es ! j" using k by (simp del: split_paired_All)
  qed
  then have "distinct (map Some (map fst es))" using d by simp
  then have ok: "distinct (map fst es)" unfolding distinct_map [of Some] by blast
  have "distinct (map fst (rev es))" using ok unfolding rev_map [symmetric] by simp
  then have m: "map_of (rev es) = map_of es" using map_of_inject_set [of "rev es" es] ok by simp
  show "\<exists>i x. key it = Some i \<and> R it (i, x) \<and> upserted ds es i = Some x" if it: "it \<in> set items" for it
  proof -
    obtain j where j: "j < length items" "it = items ! j" using it unfolding in_set_conv_nth by blast
    obtain i x where e: "es ! j = (i, x)" by (cases "es ! j")
    have r: "R it (i, x)" and "j < length es" using l j e by (auto simp: list_all2_conv_all_nth)
    then have "(i, x) \<in> set es" using nth_mem [of j es] e by simp
    then have "map_of es i = Some x" using ok by simp
    then have "upserted ds es i = Some x" by (simp add: upserted_def m map_add_def)
    moreover have "key it = Some i" using k r by (metis fst_conv)
    ultimately show ?thesis using r by blast
  qed
  show "upserted ds es i = ds i" if "Some i \<notin> key ` set items" for i
  proof -
    have "i \<notin> fst ` set es"
    proof
      assume "i \<in> fst ` set es"
      then have "Some i \<in> set (map key items)" unfolding keys by auto
      then show False using that by simp
    qed
    then have "map_of es i = None" by (simp add: map_of_eq_None_iff)
    then show ?thesis by (simp add: upserted_def m map_add_def)
  qed
qed

lemma text_docs_ids: "map ti_id (text_docs xs) = map (Some \<circ> fst) (filter (\<lambda>x. \<exists>t. snd (snd x) = ByText t) xs)"
  by (induction xs) (auto simp: text_docs_def split: index_form.splits)

lemma vector_docs_ids: "map vi_id (vector_docs xs) = map (Some \<circ> fst) (filter (\<lambda>x. \<exists>v. snd (snd x) = ByVector v) xs)"
  by (induction xs) (auto simp: vector_docs_def split: index_form.splits)

lemma distinct_Some_filter: "distinct (map fst xs) \<Longrightarrow> distinct (map (Some \<circ> fst) (filter P xs))"
  by (induction xs) auto

lemma text_docs_mem: "(d, m, ByText t) \<in> set xs \<Longrightarrow> \<lparr> ti_text = PStr t, ti_id = Some d, ti_metadata = Some m \<rparr> \<in> set (text_docs xs)"
  by (force simp: text_docs_def)

lemma vector_docs_mem:
  "(d, m, ByVector v) \<in> set xs \<Longrightarrow> \<lparr> vi_vector = Some v, vi_id = Some d, vi_metadata = Some m, vi_text = PNone \<rparr> \<in> set (vector_docs xs)"
  by (force simp: vector_docs_def)

text \<open>How a document represents an entity that is to be indexed in a given form.\<close>

definition represents :: "('n, 'p) runtime \<Rightarrow> nat \<Rightarrow> json_obj \<Rightarrow> index_form \<Rightarrow> stored \<Rightarrow> bool" where
  "represents rt w m f x \<longleftrightarrow> coerce_metadata (Some m) = Inr (fst x) \<and> (case f of
       ByText t \<Rightarrow> snd x = TextDoc t
     | ByVector v \<Rightarrow> (\<exists>v'. prepared rt w v v' \<and> snd x = VectorDoc v' None)
     | Unindexed \<Rightarrow> False)"

text \<open>A graph that changed nothing but its index, whose documents are now \<open>ds\<close>.\<close>

definition reindexed :: "('n \<Rightarrow> 'd) \<Rightarrow> 'n kg \<Rightarrow> 'n kg \<Rightarrow> 'd \<Rightarrow> bool" where
  "reindexed docs g g' ds \<longleftrightarrow> g' = g \<lparr> kg_db := kg_db g' \<rparr> \<and> moved docs (kg_db g) (kg_db g') ds"

lemma reindexed_refl [simp]: "reindexed docs g g ds \<longleftrightarrow> docs (engine (kg_db g)) = ds"
  by (simp add: reindexed_def)

lemma reindexed_db: "reindexed docs g (g \<lparr> kg_db := h \<rparr>) ds \<longleftrightarrow> moved docs (kg_db g) h ds"
  by (simp add: reindexed_def)

lemma moved_join: "moved docs h h1 d1 \<Longrightarrow> moved docs h1 h2 d2 \<Longrightarrow> moved docs h h2 d2"
  unfolding moved_def by (metis (no_types, lifting) lodedb.fold_congs(12) lodedb.surjective lodedb.update_convs(12))

lemma reindexed_join: "reindexed docs g g1 d1 \<Longrightarrow> reindexed docs g1 g2 d2 \<Longrightarrow> reindexed docs g g2 d2"
  unfolding reindexed_def using moved_join by (metis (no_types, lifting) kg.surjective kg.update_convs(2))

lemma reindexedD:
  assumes "reindexed docs g g' ds"
  shows "docs (engine (kg_db g')) = ds" "kg_store g' = kg_store g" "index_edges g' = index_edges g"
    "retain_vectors g' = retain_vectors g" "kg_vector_only g' = kg_vector_only g" "vector_dim (kg_db g') = vector_dim (kg_db g)"
proof -
  have g: "g' = g \<lparr> kg_db := kg_db g' \<rparr>" and h: "kg_db g' = kg_db g \<lparr> engine := engine (kg_db g') \<rparr>"
    and "docs (engine (kg_db g')) = ds" using assms by (auto simp: reindexed_def moved_def)
  then show "docs (engine (kg_db g')) = ds" by blast
  show "kg_store g' = kg_store g" "index_edges g' = index_edges g" "retain_vectors g' = retain_vectors g"
    "kg_vector_only g' = kg_vector_only g" by (subst g, simp)+
  show "vector_dim (kg_db g') = vector_dim (kg_db g)" by (subst h, simp)
qed

section \<open>Dropping and writing documents\<close>

context document_engine
begin

lemma on_db_Inr: "on_db m g = (Inr x, g') \<longleftrightarrow> (\<exists>h. m (kg_db g) = (Inr x, h) \<and> g' = g \<lparr> kg_db := h \<rparr>)"
  by (simp add: zoom_Inr)

lemma drop_docs_docs:
  assumes "drop_docs rt ids g = (Inr u, g')"
  shows "reindexed docs g g' (docs (engine (kg_db g)) |` (- set ids))"
proof -
  have "reindexed docs g g' (docs (engine (kg_db g)) |` (- set ids))"
    if "each (\<lambda>d. on_db (remove rt (PStr d))) ids g = (Inr ys, g')" for ys
    using that
  proof (induction ids arbitrary: g ys)
    case (Cons d ids)
    then obtain b g1 zs where r: "on_db (remove rt (PStr d)) g = (Inr b, g1)"
      and e: "each (\<lambda>d. on_db (remove rt (PStr d))) ids g1 = (Inr zs, g')" by (auto simp: bnd_Inr)
    have 1: "reindexed docs g g1 ((docs (engine (kg_db g))) (d := None))"
      using r remove_docs by (auto simp: on_db_Inr reindexed_db)
    have "reindexed docs g g' (docs (engine (kg_db g1)) |` (- set ids))" by (rule reindexed_join [OF 1 Cons.IH [OF e]])
    moreover have "docs (engine (kg_db g1)) |` (- set ids) = docs (engine (kg_db g)) |` (- set (d # ids))"
      unfolding reindexedD(1) [OF 1] by (auto simp: restrict_map_def fun_eq_iff)
    ultimately show ?case by simp
  qed (simp add: restrict_map_def)
  then show ?thesis using assms unfolding drop_docs_def by (auto simp: bnd_Inr)
qed

lemma text_phase:
  assumes "(if text_docs xs = [] then ret [] else on_db (add_many rt (text_docs xs))) g = (Inr r, g')" and d: "distinct (map fst xs)"
  shows "\<exists>ds. reindexed docs g g' ds
    \<and> (\<forall>d m t. (d, m, ByText t) \<in> set xs \<longrightarrow> (\<exists>x. ds d = Some x \<and> represents rt w m (ByText t) x))
    \<and> (\<forall>d. (\<nexists>m t. (d, m, ByText t) \<in> set xs) \<longrightarrow> ds d = docs (engine (kg_db g)) d)"
proof -
  have ids: "ti_id it \<noteq> None" if "it \<in> set (text_docs xs)" for it
  proof -
    have "ti_id it \<in> set (map ti_id (text_docs xs))" using that by simp
    then show ?thesis unfolding text_docs_ids by auto
  qed
  have "\<exists>es. reindexed docs g g' (upserted (docs (engine (kg_db g))) es) \<and> list_all2 text_stored (text_docs xs) es"
  proof (cases "text_docs xs = []")
    case True
    then show ?thesis using assms(1) by (auto simp: upserted_def)
  next
    case False
    then obtain h where "add_many rt (text_docs xs) (kg_db g) = (Inr r, h)" "g' = g \<lparr> kg_db := h \<rparr>"
      using assms(1) by (auto simp: on_db_Inr)
    then show ?thesis using add_many_docs ids by (simp add: reindexed_db)
  qed
  then obtain es where r: "reindexed docs g g' (upserted (docs (engine (kg_db g))) es)"
    and l: "list_all2 text_stored (text_docs xs) es" by blast
  have k: "\<forall>it en. text_stored it en \<longrightarrow> ti_id it = Some (fst en)" by (auto simp: text_stored_def)
  have di: "distinct (map ti_id (text_docs xs))" unfolding text_docs_ids by (rule distinct_Some_filter [OF d])
  note s = stored_lookup [OF l k di, of _ "docs (engine (kg_db g))"]
  have "\<exists>x. upserted (docs (engine (kg_db g))) es d = Some x \<and> represents rt w m (ByText t) x" if "(d, m, ByText t) \<in> set xs" for d m t
    using s(1) [OF text_docs_mem [OF that]] by (auto simp: text_stored_def represents_def)
  moreover have "upserted (docs (engine (kg_db g))) es d = docs (engine (kg_db g)) d" if "\<nexists>m t. (d, m, ByText t) \<in> set xs" for d
  proof (rule s(2))
    show "Some d \<notin> ti_id ` set (text_docs xs)"
    proof
      assume "Some d \<in> ti_id ` set (text_docs xs)"
      then have "Some d \<in> set (map ti_id (text_docs xs))" by simp
      then show False unfolding text_docs_ids using that by auto
    qed
  qed
  ultimately show ?thesis using r by blast
qed

lemma vector_phase:
  assumes "(if vector_docs xs = [] then ret [] else on_db (add_vectors_many rt (vector_docs xs) True)) g = (Inr r, g')"
    and d: "distinct (map fst xs)"
  shows "\<exists>ds. reindexed docs g g' ds
    \<and> (\<forall>d m v. (d, m, ByVector v) \<in> set xs \<longrightarrow> (\<exists>x. ds d = Some x \<and> represents rt (vector_dim (kg_db g)) m (ByVector v) x))
    \<and> (\<forall>d. (\<nexists>m v. (d, m, ByVector v) \<in> set xs) \<longrightarrow> ds d = docs (engine (kg_db g)) d)"
proof -
  let ?w = "vector_dim (kg_db g)"
  have ids: "vi_id it \<noteq> None" if "it \<in> set (vector_docs xs)" for it
  proof -
    have "vi_id it \<in> set (map vi_id (vector_docs xs))" using that by simp
    then show ?thesis unfolding vector_docs_ids by auto
  qed
  have "\<exists>es. reindexed docs g g' (upserted (docs (engine (kg_db g))) es) \<and> list_all2 (vector_stored rt ?w) (vector_docs xs) es"
  proof (cases "vector_docs xs = []")
    case True
    then show ?thesis using assms(1) by (auto simp: upserted_def)
  next
    case False
    then obtain h where "add_vectors_many rt (vector_docs xs) True (kg_db g) = (Inr r, h)" "g' = g \<lparr> kg_db := h \<rparr>"
      using assms(1) by (auto simp: on_db_Inr)
    then show ?thesis using add_vectors_many_docs ids by (simp add: reindexed_db)
  qed
  then obtain es where r: "reindexed docs g g' (upserted (docs (engine (kg_db g))) es)"
    and l: "list_all2 (vector_stored rt ?w) (vector_docs xs) es" by blast
  have k: "\<forall>it en. vector_stored rt ?w it en \<longrightarrow> vi_id it = Some (fst en)" by (auto simp: vector_stored_def)
  have di: "distinct (map vi_id (vector_docs xs))" unfolding vector_docs_ids by (rule distinct_Some_filter [OF d])
  note s = stored_lookup [OF l k di, of _ "docs (engine (kg_db g))"]
  have "\<exists>x. upserted (docs (engine (kg_db g))) es d = Some x \<and> represents rt ?w m (ByVector v) x" if "(d, m, ByVector v) \<in> set xs" for d m v
    using s(1) [OF vector_docs_mem [OF that]] by (auto simp: vector_stored_def represents_def coerce_optional_text_def)
  moreover have "upserted (docs (engine (kg_db g))) es d = docs (engine (kg_db g)) d" if "\<nexists>m v. (d, m, ByVector v) \<in> set xs" for d
  proof (rule s(2))
    show "Some d \<notin> vi_id ` set (vector_docs xs)"
    proof
      assume "Some d \<in> vi_id ` set (vector_docs xs)"
      then have "Some d \<in> set (map vi_id (vector_docs xs))" by simp
      then show False unfolding vector_docs_ids using that by auto
    qed
  qed
  ultimately show ?thesis using r by blast
qed

lemma write_docs_docs:
  assumes "write_docs rt xs g = (Inr (), g')" and d: "distinct (map fst xs)"
  shows "\<exists>ds. reindexed docs g g' ds
    \<and> (\<forall>d m f. (d, m, f) \<in> set xs \<longrightarrow> f \<noteq> Unindexed \<longrightarrow> (\<exists>x. ds d = Some x \<and> represents rt (vector_dim (kg_db g)) m f x))
    \<and> (\<forall>d. (\<forall>m f. (d, m, f) \<in> set xs \<longrightarrow> f = Unindexed) \<longrightarrow> ds d = docs (engine (kg_db g)) d)"
proof -
  let ?w = "vector_dim (kg_db g)"
  obtain r1 g1 r2 where
    1: "(if text_docs xs = [] then ret [] else on_db (add_many rt (text_docs xs))) g = (Inr r1, g1)"
    and 2: "(if vector_docs xs = [] then ret [] else on_db (add_vectors_many rt (vector_docs xs) True)) g1 = (Inr r2, g')"
    using assms(1) unfolding write_docs_def by (auto simp: bnd_Inr)
  obtain ds1 where m1: "reindexed docs g g1 ds1"
    and t1: "\<And>d m t. (d, m, ByText t) \<in> set xs \<Longrightarrow> \<exists>x. ds1 d = Some x \<and> represents rt ?w m (ByText t) x"
    and o1: "\<And>d. (\<nexists>m t. (d, m, ByText t) \<in> set xs) \<Longrightarrow> ds1 d = docs (engine (kg_db g)) d"
    using text_phase [OF 1 d, of ?w] by blast
  obtain ds2 where m2: "reindexed docs g1 g' ds2"
    and t2: "\<And>d m v. (d, m, ByVector v) \<in> set xs \<Longrightarrow> \<exists>x. ds2 d = Some x \<and> represents rt ?w m (ByVector v) x"
    and o2: "\<And>d. (\<nexists>m v. (d, m, ByVector v) \<in> set xs) \<Longrightarrow> ds2 d = ds1 d"
    using vector_phase [OF 2 d] reindexedD [OF m1] by auto
  have once: "(m, f) = (m', f')" if "(d, m, f) \<in> set xs" "(d, m', f') \<in> set xs" for d m f m' f'
    using eq_key_imp_eq_value [OF d that] by simp
  have "\<exists>x. ds2 d = Some x \<and> represents rt ?w m f x" if x: "(d, m, f) \<in> set xs" and f: "f \<noteq> Unindexed" for d m f
  proof (cases f)
    case (ByText t)
    have "ds2 d = ds1 d" by (rule o2) (use once [OF x] ByText in auto)
    then show ?thesis using t1 [of d m t] x ByText by simp
  qed (use t2 x f in auto)
  moreover have "ds2 d = docs (engine (kg_db g)) d" if "\<forall>m f. (d, m, f) \<in> set xs \<longrightarrow> f = Unindexed" for d
    using o1 [of d] o2 [of d] that by fastforce
  ultimately show ?thesis using reindexed_join [OF m1 m2] by blast
qed

end

section \<open>Which documents belong to nodes and edges\<close>

lemma kind_filter_normalizes: "normalize_filter (Some (PDict [(PStr ''kind'', PStr kind)])) = Inr (Some (exact_filter ''kind'' kind))"
proof -
  have "coerce_sdk_filter (PDict [(PStr ''kind'', PStr kind)]) = Inr (PDict (map (\<lambda>(k, v). (k, PStr (text_of v))) [(PStr ''kind'', PStr kind)]))"
    by (rule coerce_flat) (simp_all add: plain_key_def metadata_text_def text_of_def blank_def py_strip_def py_lstrip_def py_rstrip_def py_space_def code_def py_startswith_def)
  then show ?thesis by (simp add: normalize_filter_def structured_keys_def exact_filter_def text_of_def metadata_text_def)
qed

lemma kind_plain: "plain_key (PStr ''kind'')"
  by (simp add: plain_key_def blank_def py_strip_def py_lstrip_def py_rstrip_def py_space_def code_def py_startswith_def)

definition node_meta :: "node \<Rightarrow> meta" where
  "node_meta n = [(''kind'', ''node''), (''type'', node_type n), (''node_id'', node_id n)]"

lemma coerce_node_metadata: "coerce_metadata (Some (node_metadata n)) = Inr (node_meta n)"
  by (simp add: coerce_metadata_def node_metadata_def metadata_text_def node_meta_def)

section \<open>Rebuilding the index\<close>

text \<open>The form in which a node is to be indexed: its retained vector, else its label.\<close>

definition wanted_form :: "'n kg \<Rightarrow> node \<Rightarrow> index_form" where
  "wanted_form g n = node_form (kg_vector_only g) n
     (if retain_vectors g then map_of (node_vectors (kg_store g)) (node_id n) else None)"

lemma retained_lookup:
  assumes "plan_ok pl" and "topology_ok s"
  shows "map_of (iter_node_vectors pl s) = map_of (node_vectors s)"
proof -
  have ok: "dict_ok (node_vectors s)" using assms(2) by (simp add: topology_ok_def)
  then have "dict_ok (iter_node_vectors pl s)" unfolding iter_node_vectors_def by (rule plan_keys(3) [OF assms(1)])
  then show ?thesis using map_of_inject_set [OF _ ok] by (simp add: iter_node_vectors_def plan_sets [OF assms(1)])
qed

lemma iter_nodes_list:
  assumes "plan_ok pl" and "topology_ok s" and "iter_nodes pl s = Inr ns"
  shows "set ns = stored_nodes s" and "distinct (map node_id ns)" and "length ns = node_count s"
proof -
  let ?rows = "node_scan pl [] (nodes s)"
  have l: "list_all2 (\<lambda>row n. node_from_row row = Inr n) ?rows ns" using assms(3) by (simp add: iter_nodes_def res_mapM_Inr_iff)
  have "map node_id ns = map fst ?rows"
    using l by (induction rule: list_all2_induct) (simp_all add: node_row_id)
  moreover have "dict_ok ?rows" using assms(2) by (intro plan_keys(1) [OF assms(1)]) (simp add: topology_ok_def)
  ultimately show "distinct (map node_id ns)" by simp
  have "mset ?rows = mset (nodes s)" using assms(1) by (simp add: plan_ok_def)
  then show "length ns = node_count s" using list_all2_lengthD [OF l] by (metis node_count_def size_mset)
  have "set ns = {n. \<exists>row \<in> set ?rows. node_from_row row = Inr n}"
    using l by (induction rule: list_all2_induct) auto
  then show "set ns = stored_nodes s" by (simp add: stored_nodes_def plan_sets [OF assms(1)])
qed

definition node_docs :: "'n kg \<Rightarrow> node list \<Rightarrow> (string \<times> json_obj \<times> index_form) list" where
  "node_docs g ns = map (\<lambda>n. (NODE_PREFIX @ node_id n, node_metadata n, wanted_form g n)) ns"

lemma node_docs_distinct: "distinct (map node_id ns) \<Longrightarrow> distinct (map fst (node_docs g ns))"
  by (auto simp: node_docs_def comp_def distinct_map inj_on_def)

lemma docs_partition: "length (text_docs xs) + length (vector_docs xs) + length (stale_docs xs) = length xs"
  by (induction xs) (auto simp: text_docs_def vector_docs_def stale_docs_def split: index_form.split)

section \<open>Orphans\<close>

definition of_kind :: "string \<Rightarrow> stored \<Rightarrow> bool" where
  "of_kind kind x \<longleftrightarrow> map_of (fst x) ''kind'' = Some kind"

definition orphaned :: "(string \<Rightarrow> stored option) \<Rightarrow> string \<Rightarrow> string \<Rightarrow> string list \<Rightarrow> string set" where
  "orphaned ds kind pfx ids = {i. (\<exists>x. ds i = Some x \<and> of_kind kind x) \<and> i \<notin> (\<lambda>j. pfx @ j) ` set ids}"

context document_engine
begin

lemma drop_orphans_docs:
  assumes "drop_orphans rt kind pfx ids g = (Inr k, g')"
  shows "reindexed docs g g' (docs (engine (kg_db g)) |` (- orphaned (docs (engine (kg_db g))) kind pfx ids))"
proof -
  obtain recs h u where l: "list_documents rt (Some (PDict [(PStr ''kind'', PStr kind)])) None None (kg_db g) = (Inr recs, h)"
    and d: "drop_docs rt (orphan_docs pfx ids recs) (g \<lparr> kg_db := h \<rparr>) = (Inr u, g')"
    using assms unfolding drop_orphans_def Let_def by (auto simp: bnd_Inr on_db_Inr)
  have m: "moved docs (kg_db g) h (docs (engine (kg_db g)))"
    and r: "set (map rec_id recs) = {i. \<exists>m c. docs (engine (kg_db g)) i = Some (m, c) \<and> map_of m ''kind'' = Some kind}"
    using list_docs [OF l kind_filter_normalizes kind_plain] by simp_all
  have "set (orphan_docs pfx ids recs) = orphaned (docs (engine (kg_db g))) kind pfx ids"
    using r by (auto simp: orphan_docs_def orphaned_def of_kind_def)
  moreover have "docs (engine h) = docs (engine (kg_db g))" using m by (simp add: moved_def)
  ultimately show ?thesis
    using drop_docs_docs [OF d] m reindexed_join [of docs g "g \<lparr> kg_db := h \<rparr>"] by (simp add: reindexed_db)
qed

lemma rebuild_nodes_docs:
  assumes "plan_ok pl" and "topology_ok (kg_store g)" and "rebuild_nodes rt pl g = (Inr (l, v, u), g')"
  shows "\<exists>ds. reindexed docs g g' ds
    \<and> (\<forall>n \<in> stored_nodes (kg_store g). wanted_form g n \<noteq> Unindexed \<longrightarrow>
         (\<exists>x. ds (NODE_PREFIX @ node_id n) = Some x \<and> represents rt (vector_dim (kg_db g)) (node_metadata n) (wanted_form g n) x))
    \<and> (\<forall>i. (\<forall>n \<in> stored_nodes (kg_store g). i = NODE_PREFIX @ node_id n \<longrightarrow> wanted_form g n = Unindexed)
          \<longrightarrow> ds i = docs (engine (kg_db g)) i)
    \<and> l + v + u = node_count (kg_store g)"
proof -
  obtain ns where ns: "iter_nodes pl (kg_store g) = Inr ns" and w: "write_docs rt (node_docs g ns) g = (Inr (), g')"
    and c: "l = length (text_docs (node_docs g ns))" "v = length (vector_docs (node_docs g ns))" "u = length (stale_docs (node_docs g ns))"
    using assms(3) unfolding rebuild_nodes_def Let_def node_docs_def wanted_form_def
    by (auto simp: bnd_Inr retained_lookup [OF assms(1,2)] split: if_splits)
  note i = iter_nodes_list [OF assms(1,2) ns]
  from write_docs_docs [OF w node_docs_distinct [OF i(2)]] obtain ds where r: "reindexed docs g g' ds"
    and a: "\<And>d m f. (d, m, f) \<in> set (node_docs g ns) \<Longrightarrow> f \<noteq> Unindexed \<Longrightarrow>
        \<exists>x. ds d = Some x \<and> represents rt (vector_dim (kg_db g)) m f x"
    and b: "\<And>d. (\<forall>m f. (d, m, f) \<in> set (node_docs g ns) \<longrightarrow> f = Unindexed) \<Longrightarrow> ds d = docs (engine (kg_db g)) d" by blast
  have "\<exists>x. ds (NODE_PREFIX @ node_id n) = Some x \<and> represents rt (vector_dim (kg_db g)) (node_metadata n) (wanted_form g n) x"
    if "n \<in> stored_nodes (kg_store g)" "wanted_form g n \<noteq> Unindexed" for n
    using that i(1) by (intro a) (auto simp: node_docs_def)
  moreover have "ds j = docs (engine (kg_db g)) j"
    if "\<forall>n \<in> stored_nodes (kg_store g). j = NODE_PREFIX @ node_id n \<longrightarrow> wanted_form g n = Unindexed" for j
    using that i(1) by (intro b) (auto simp: node_docs_def)
  moreover have "l + v + u = node_count (kg_store g)" using c i(3) docs_partition [of "node_docs g ns"] by (simp add: node_docs_def)
  ultimately show ?thesis using r by blast
qed

lemma reindex_docs:
  assumes pl: "plan_ok pl" and ok: "topology_ok (kg_store g)" and r: "reindex rt pl g = (Inr counts, g')"
    and before: "before = docs (engine (kg_db g))" and after: "after = docs (engine (kg_db g'))"
  shows "\<exists>mid. (\<forall>n \<in> stored_nodes (kg_store g). wanted_form g n \<noteq> Unindexed \<longrightarrow>
         (\<exists>x. mid (NODE_PREFIX @ node_id n) = Some x \<and> represents rt (vector_dim (kg_db g)) (node_metadata n) (wanted_form g n) x))
    \<and> (\<forall>i. (\<forall>n \<in> stored_nodes (kg_store g). i = NODE_PREFIX @ node_id n \<longrightarrow> wanted_form g n = Unindexed)
         \<longrightarrow> mid i = (before |` (- orphaned before ''node'' NODE_PREFIX (all_node_ids pl (kg_store g)))) i)
    \<and> (if index_edges g then \<exists>es. iter_edges pl (kg_store g) = Inr es \<and> after = mid |` (- orphaned mid ''edge'' EDGE_PREFIX (map edge_id es))
       else after = mid)
    \<and> kg_store g' = kg_store g
    \<and> reindexed_labels counts + reindexed_vectors counts + unrebuildable counts = node_count (kg_store g)"
proof -
  obtain k g1 l v u g2 k2 where
    1: "drop_orphans rt ''node'' NODE_PREFIX (all_node_ids pl (kg_store g)) g = (Inr k, g1)"
    and 2: "rebuild_nodes rt pl g1 = (Inr (l, v, u), g2)"
    and 3: "(if index_edges g2 then bnd (lift (iter_edges pl (kg_store g2))) (\<lambda>es. drop_orphans rt ''edge'' EDGE_PREFIX (map edge_id es)) else ret 0) g2
        = (Inr k2, g')"
    and c: "reindexed_labels counts = l" "reindexed_vectors counts = v" "unrebuildable counts = u"
    using r unfolding reindex_def kg_require_writable_def by (auto simp: bnd_Inr split: if_split_asm)
  note d1 = drop_orphans_docs [OF 1]
  note f1 = reindexedD [OF d1]
  have wf: "wanted_form g1 = wanted_form g" by (rule ext) (simp add: wanted_form_def f1)
  obtain mid where m: "reindexed docs g1 g2 mid"
    and a: "\<forall>n \<in> stored_nodes (kg_store g). wanted_form g n \<noteq> Unindexed \<longrightarrow>
         (\<exists>x. mid (NODE_PREFIX @ node_id n) = Some x \<and> represents rt (vector_dim (kg_db g)) (node_metadata n) (wanted_form g n) x)"
    and b: "\<forall>i. (\<forall>n \<in> stored_nodes (kg_store g). i = NODE_PREFIX @ node_id n \<longrightarrow> wanted_form g n = Unindexed)
          \<longrightarrow> mid i = docs (engine (kg_db g1)) i"
    and n: "l + v + u = node_count (kg_store g)"
    using rebuild_nodes_docs [OF pl _ 2] ok by (auto simp: f1 wf)
  note f2 = reindexedD [OF m]
  have "if index_edges g then \<exists>es. iter_edges pl (kg_store g) = Inr es \<and> after = mid |` (- orphaned mid ''edge'' EDGE_PREFIX (map edge_id es))
       else after = mid" and st: "kg_store g' = kg_store g"
  proof (atomize (full), cases "index_edges g")
    case True
    then obtain es where es: "iter_edges pl (kg_store g) = Inr es" "drop_orphans rt ''edge'' EDGE_PREFIX (map edge_id es) g2 = (Inr k2, g')"
      using 3 by (auto simp: f1 f2 bnd_Inr)
    show "(if index_edges g then \<exists>es. iter_edges pl (kg_store g) = Inr es \<and> after = mid |` (- orphaned mid ''edge'' EDGE_PREFIX (map edge_id es))
       else after = mid) \<and> kg_store g' = kg_store g"
      using True es(1) reindexedD(1,2) [OF drop_orphans_docs [OF es(2)]] f2(1,2) f1(2) after by auto
  next
    case False
    then have "g' = g2" using 3 by (simp add: f1 f2)
    then show "(if index_edges g then \<exists>es. iter_edges pl (kg_store g) = Inr es \<and> after = mid |` (- orphaned mid ''edge'' EDGE_PREFIX (map edge_id es))
       else after = mid) \<and> kg_store g' = kg_store g" using False f2(1,2) f1(2) after by auto
  qed
  moreover have "\<forall>i. (\<forall>n \<in> stored_nodes (kg_store g). i = NODE_PREFIX @ node_id n \<longrightarrow> wanted_form g n = Unindexed)
         \<longrightarrow> mid i = (before |` (- orphaned before ''node'' NODE_PREFIX (all_node_ids pl (kg_store g)))) i"
    using b unfolding f1(1) before .
  moreover have "reindexed_labels counts + reindexed_vectors counts + unrebuildable counts = node_count (kg_store g)" using n c by simp
  ultimately show ?thesis using a by (intro exI [of _ mid] conjI)
qed

end

lemma iter_edges_set:
  assumes "plan_ok pl" and "iter_edges pl s = Inr es"
  shows "set es = stored_edges s"
proof -
  have l: "list_all2 (\<lambda>row e. edge_from_row row = Inr e) (edge_scan pl [] [] (edges s)) es"
    using assms(2) by (simp add: iter_edges_def res_mapM_Inr_iff)
  have "set es = {e. \<exists>row \<in> set (edge_scan pl [] [] (edges s)). edge_from_row row = Inr e}"
    using l by (induction rule: list_all2_induct) auto
  then show ?thesis by (simp add: stored_edges_def plan_sets [OF assms(1)])
qed

lemma all_node_ids_set:
  assumes "plan_ok pl" and "topology_ok s"
  shows "set (all_node_ids pl s) = node_id ` stored_nodes s"
proof -
  obtain ns where ns: "iter_nodes pl s = Inr ns" "set ns = stored_nodes s"
    using mapM_rows [of "node_scan pl [] (nodes s)" node_from_row] assms(2)
    by (auto simp: iter_nodes_def stored_nodes_def plan_sets [OF assms(1)] topology_ok_def rows_load_def list_all_iff)
  have l: "list_all2 (\<lambda>row n. node_from_row row = Inr n) (node_scan pl [] (nodes s)) ns"
    using ns(1) by (simp add: iter_nodes_def res_mapM_Inr_iff)
  then have "map fst (node_scan pl [] (nodes s)) = map node_id ns"
    by (induction rule: list_all2_induct) (simp_all add: node_row_id)
  then show ?thesis using ns(2) unfolding all_node_ids_def by (metis list.set_map)
qed

section \<open>The property\<close>

text \<open>
  C2. What a rebuild does to the index, whatever the index held before.  Assume only the engine's
  contract.  A \<open>reindex\<close> that returns leaves the topology unchanged; every node with a retained vector
  or, failing that, a label is indexed in that form under its own id, with its current type as metadata;
  every other document is dropped when it is the document of a node that is gone or, when edges are
  indexed, of an edge that is gone, and is kept as it was otherwise; no other document appears; and the
  three counts account for every node.  So a node with neither vector nor label keeps the document it
  had, and an edge document that was lost stays lost.
\<close>

theorem reindex_effect:
  assumes "document_engine rt docs" and "plan_ok pl" and "topology_ok (kg_store g)"
    and "reindex rt pl g = (Inr counts, g')"
    and "before = docs (engine (kg_db g))" and "after = docs (engine (kg_db g'))"
  shows "kg_store g' = kg_store g
    \<and> (\<forall>n \<in> stored_nodes (kg_store g). wanted_form g n \<noteq> Unindexed \<longrightarrow>
         (\<exists>x. after (NODE_PREFIX @ node_id n) = Some x
            \<and> represents rt (vector_dim (kg_db g)) (node_metadata n) (wanted_form g n) x))
    \<and> (\<forall>i. (\<forall>n \<in> stored_nodes (kg_store g). i = NODE_PREFIX @ node_id n \<longrightarrow> wanted_form g n = Unindexed) \<longrightarrow>
         after i = (case before i of None \<Rightarrow> None | Some x \<Rightarrow>
            if of_kind ''node'' x \<and> i \<notin> (\<lambda>n. NODE_PREFIX @ node_id n) ` stored_nodes (kg_store g)
              \<or> index_edges g \<and> of_kind ''edge'' x \<and> i \<notin> (\<lambda>e. EDGE_PREFIX @ edge_id e) ` stored_edges (kg_store g)
            then None else Some x))
    \<and> reindexed_labels counts + reindexed_vectors counts + unrebuildable counts = node_count (kg_store g)"
proof -
  let ?s = "kg_store g" and ?N = "(\<lambda>n. NODE_PREFIX @ node_id n) ` stored_nodes (kg_store g)"
  let ?b = "before |` (- orphaned before ''node'' NODE_PREFIX (all_node_ids pl ?s))"
  obtain mid where
    a: "\<forall>n \<in> stored_nodes ?s. wanted_form g n \<noteq> Unindexed \<longrightarrow>
         (\<exists>x. mid (NODE_PREFIX @ node_id n) = Some x \<and> represents rt (vector_dim (kg_db g)) (node_metadata n) (wanted_form g n) x)"
    and b: "\<forall>i. (\<forall>n \<in> stored_nodes ?s. i = NODE_PREFIX @ node_id n \<longrightarrow> wanted_form g n = Unindexed) \<longrightarrow> mid i = ?b i"
    and e: "if index_edges g then \<exists>es. iter_edges pl ?s = Inr es \<and> after = mid |` (- orphaned mid ''edge'' EDGE_PREFIX (map edge_id es))
       else after = mid"
    and s: "kg_store g' = ?s"
    and c: "reindexed_labels counts + reindexed_vectors counts + unrebuildable counts = node_count ?s"
    using document_engine.reindex_docs [OF assms] by (elim exE conjE) (rule that)
  have orph: "orphaned before ''node'' NODE_PREFIX (all_node_ids pl ?s) = {i. (\<exists>x. before i = Some x \<and> of_kind ''node'' x) \<and> i \<notin> ?N}"
    unfolding orphaned_def all_node_ids_set [OF assms(2,3)] by (auto simp: image_image)
  have edge_orph: "after = mid |` (- {i. (\<exists>x. mid i = Some x \<and> of_kind ''edge'' x) \<and> i \<notin> (\<lambda>e. EDGE_PREFIX @ edge_id e) ` stored_edges ?s})"
    if ie: "index_edges g"
  proof -
    obtain es where es: "iter_edges pl ?s = Inr es" and af: "after = mid |` (- orphaned mid ''edge'' EDGE_PREFIX (map edge_id es))"
      using e ie by auto
    show ?thesis unfolding af orphaned_def using iter_edges_set [OF assms(2) es] by (simp add: image_image)
  qed
  have keep: "after i = mid i" if "\<And>x. mid i = Some x \<Longrightarrow> \<not> of_kind ''edge'' x" for i
    using edge_orph e that by (cases "index_edges g") (auto simp: restrict_map_def)
  have "\<exists>x. after (NODE_PREFIX @ node_id n) = Some x \<and> represents rt (vector_dim (kg_db g)) (node_metadata n) (wanted_form g n) x"
    if n: "n \<in> stored_nodes ?s" "wanted_form g n \<noteq> Unindexed" for n
  proof -
    obtain x where x: "mid (NODE_PREFIX @ node_id n) = Some x" "represents rt (vector_dim (kg_db g)) (node_metadata n) (wanted_form g n) x"
      using a n by blast
    have "fst x = node_meta n" using x(2) by (simp add: represents_def coerce_node_metadata)
    then have "\<not> of_kind ''edge'' x" by (simp add: of_kind_def node_meta_def)
    then show ?thesis using keep [of "NODE_PREFIX @ node_id n"] x by simp
  qed
  moreover have "after i = (case before i of None \<Rightarrow> None | Some x \<Rightarrow>
            if of_kind ''node'' x \<and> i \<notin> ?N
              \<or> index_edges g \<and> of_kind ''edge'' x \<and> i \<notin> (\<lambda>e. EDGE_PREFIX @ edge_id e) ` stored_edges ?s
            then None else Some x)"
    if i: "\<forall>n \<in> stored_nodes ?s. i = NODE_PREFIX @ node_id n \<longrightarrow> wanted_form g n = Unindexed" for i
  proof -
    have mid: "mid i = (case before i of None \<Rightarrow> None | Some x \<Rightarrow> if of_kind ''node'' x \<and> i \<notin> ?N then None else Some x)"
      using b [rule_format, OF i [rule_format]] unfolding orph by (auto simp: restrict_map_def split: option.split)
    show ?thesis
    proof (cases "index_edges g")
      case True
      then show ?thesis unfolding edge_orph [OF True] using mid by (auto simp: restrict_map_def split: option.splits)
    next
      case False
      with e mid show ?thesis by (simp split: option.split)
    qed
  qed
  ultimately show ?thesis using s c by blast
qed

end
