(* ===== verification/MemoryEngine.thy ===== *)
theory MemoryEngine
  imports GraphLaws
begin

text \<open>
  A reference engine that keeps its documents in a dict and filters them with the metadata predicates
  of \<open>engine/_predicate.py\<close>.  It satisfies the engine contract, so the contract can be met, and the
  SDK and the knowledge graph run on it: the sample runs below are evaluated on this engine.
\<close>

section \<open>The engine\<close>

type_synonym mem = "(string, stored) dict"

definition mem_record :: "string \<times> stored \<Rightarrow> json_obj" where
  "mem_record en = [(PStr ''document_id'', PStr (fst en)),
     (PStr ''metadata'', PDict (map (\<lambda>(k, v). (PStr k, PStr v)) (fst (snd en)))),
     (PStr ''chunk_count'', PInt 1), (PStr ''content_hash'', PStr [])]"

definition mem_hit :: "string \<times> stored \<Rightarrow> pyval" where
  "mem_hit en = PDict ((PStr ''score'', PFloat ''1.0'') # mem_record en)"

definition mem_allowed :: "pyval option \<Rightarrow> mem \<Rightarrow> mem res" where
  "mem_allowed flt mem = (let n = AList.clearjunk mem in case flt of
       Some (PDict [(PStr k, f)]) \<Rightarrow>
         (if k = ''metadata''
          then res_bind (res_mapM (\<lambda>en. matches_metadata_filter (fst (snd en)) f) n) (\<lambda>bs.
                 Inr (map fst (filter snd (zip n bs))))
          else Inr n)
     | _ \<Rightarrow> Inr n)"

definition mem_hits :: "int \<Rightarrow> pyval option \<Rightarrow> (mem, json_obj) act" where
  "mem_hits k flt n = (res_bind (mem_allowed flt n) (\<lambda>ds. Inr [(PStr ''hits'', PList (map mem_hit (py_take k ds)))]), n)"

definition mem_runtime :: "(mem, engine_document list) runtime" where
  "mem_runtime = \<lparr>
     upsert_vectors = (\<lambda>ds n. (Inr (), upsert_rows (map vector_entry ds) n)),
     upsert_vectors_matrix = (\<lambda>m side n. (Inr (), upsert_rows (matrix_entries m side) n)),
     prepare_text_upsert = (\<lambda>ds st ix limit n. (Inr ds, n)),
     chunks_to_embed = map ed_text,
     apply_text_upsert = (\<lambda>p vs n. if length vs = length p then (Inr (), upsert_rows (map text_entry p) n)
                                    else (Inl (ValueError ''one embedding per chunk''), n)),
     delete_documents = (\<lambda>ids n. (Inr [(PStr ''documents_deleted'', PInt (int (length (filter (\<lambda>en. fst en \<in> set ids) n))))],
                                   filter (\<lambda>en. fst en \<notin> set ids) n)),
     update_document_payload = (\<lambda>i md t c n. (Inr (), n)),
     engine_persist = ret (),
     query_vector = (\<lambda>v k flt. mem_hits k flt),
     query_vectors_batch = (\<lambda>vs k flt. each (\<lambda>_. mem_hits k flt) vs),
     query_vectors_batch_arrays = None,
     search_text = (\<lambda>q mode v k flt. mem_hits k flt),
     search_text_batch = (\<lambda>qs mode vs k flt. each (\<lambda>_. mem_hits k flt) qs),
     get_document_text = (\<lambda>i n. (Inr (case map_of n i of Some (_, TextDoc t) \<Rightarrow> Some t | _ \<Rightarrow> None), n)),
     get_document_texts = (\<lambda>ids n. (Inr [], n)),
     engine_get_document = (\<lambda>i n. (Inr (map_option (\<lambda>x. mem_record (i, x)) (map_of n i)), n)),
     engine_list_documents = (\<lambda>flt after limit n. (res_bind (mem_allowed flt n) (\<lambda>ds. Inr (map mem_record ds)), n)),
     engine_stats = (\<lambda>n. (Inr [(PStr ''document_count'', PInt (int (length n)))], n)),
     embed_documents = Some (\<lambda>texts. Inr (map (\<lambda>_. [Finite 1]) texts)),
     embed_query = (\<lambda>q. Inr [Finite 1]),
     token_hex = nat_dec,
     row_norm = max_abs,
     wide_norm = max_abs \<rparr>"

lemma upsert_rows_upserted: "map_of (upsert_rows rows n) = upserted (map_of n) rows"
  by (rule ext) (simp add: map_of_upsert_rows upserted_def map_add_def)

lemma mem_record_id: "listed_id (mem_record en) = fst en"
  by (simp add: listed_id_def mem_record_def pget_def)

lemma map_of_filter_keys: "map_of (filter (\<lambda>en. fst en \<notin> A) n) = map_of n |` (- A)"
  by (induction n) (auto simp: restrict_map_def fun_eq_iff)

lemma mem_allowed_ids:
  assumes "mem_allowed (Some (PDict [(PStr ''metadata'', f)])) n = Inr ds"
  shows "fst ` set ds = {i. \<exists>m c. map_of n i = Some (m, c) \<and> matches_metadata_filter m f = Inr True}"
proof -
  let ?n = "AList.clearjunk n"
  obtain bs where b: "res_mapM (\<lambda>en. matches_metadata_filter (fst (snd en)) f) ?n = Inr bs" and ds: "ds = map fst (filter snd (zip ?n bs))"
    using assms by (auto simp: mem_allowed_def Let_def)
  have l: "list_all2 (\<lambda>en b. matches_metadata_filter (fst (snd en)) f = Inr b) ?n bs" using b by (simp add: res_mapM_Inr_iff)
  have "set ds = {en \<in> set ?n. matches_metadata_filter (fst (snd en)) f = Inr True}"
    unfolding ds using l by (induction rule: list_all2_induct) auto
  moreover have "en \<in> set ?n \<longleftrightarrow> map_of n (fst en) = Some (snd en)" for en
    using map_of_eq_Some_iff [OF distinct_clearjunk, of n "fst en" "snd en"] by (simp add: map_of_clearjunk)
  ultimately show ?thesis by (auto simp: image_iff)
qed

lemma mem_runtime_ops:
  "upsert_vectors mem_runtime vds n = (Inr (), upsert_rows (map vector_entry vds) n)"
  "upsert_vectors_matrix mem_runtime m side n = (Inr (), upsert_rows (matrix_entries m side) n)"
  "prepare_text_upsert mem_runtime ds st ix limit n = (Inr ds, n)"
  "apply_text_upsert mem_runtime p vs n = (if length vs = length p then (Inr (), upsert_rows (map text_entry p) n)
     else (Inl (ValueError ''one embedding per chunk''), n))"
  "snd (delete_documents mem_runtime ids n) = filter (\<lambda>en. fst en \<notin> set ids) n"
  "engine_persist mem_runtime n = (Inr (), n)"
  "engine_list_documents mem_runtime flt after limit' n = (res_bind (mem_allowed flt n) (\<lambda>ds. Inr (map mem_record ds)), n)"
  by (simp_all add: mem_runtime_def)

lemma mem_deletes:
  assumes "delete_documents mem_runtime ids n = (Inr r, n')"
  shows "map_of n' = map_of n |` (- set ids)"
  using assms mem_runtime_ops(5) [of ids n] by (simp add: map_of_filter_keys [symmetric])

lemma mem_lists:
  assumes l: "engine_list_documents mem_runtime (Some (exact_filter key v)) None None n = (Inr rs, n')" and "plain_key (PStr key)"
  shows "map_of n' = map_of n \<and> set (map listed_id rs) = {i. \<exists>m c. map_of n i = Some (m, c) \<and> map_of m key = Some v}"
proof -
  let ?f = "PDict [(PStr key, PStr v)]"
  obtain ds where "mem_allowed (Some (exact_filter key v)) n = Inr ds" "rs = map mem_record ds" "n' = n"
    using l unfolding mem_runtime_ops prod.inject res_bind_Inr_iff by blast
  moreover have "matches_metadata_filter m ?f = Inr (map_of m key = Some v)" for m
    using assms(2) logical_starts [of key]
    by (auto simp: matches_metadata_filter_def compile_field_def compile_all_def get_eq_iff plain_key_def LOGICAL_OPERATORS_def)
  ultimately show ?thesis using mem_allowed_ids [of ?f n ds] by (simp add: mem_record_id image_image exact_filter_def)
qed

lemma mem_applies:
  assumes "prepare_text_upsert mem_runtime ds st ix limit n = (Inr p, n')" and "apply_text_upsert mem_runtime p vs n' = (Inr (), n'')"
  shows "map_of n'' = upserted (map_of n) (map text_entry ds)"
  using assms unfolding mem_runtime_ops by (simp add: upsert_rows_upserted split: if_split_asm) (metis upsert_rows_upserted)

interpretation mem: document_engine mem_runtime map_of
proof (rule document_engine.intro)
  show "map_of n' = upserted (map_of n) (map vector_entry vds)" if "upsert_vectors mem_runtime vds n = (Inr (), n')" for vds n n'
    using that unfolding mem_runtime_ops by (metis Pair_inject upsert_rows_upserted)
  show "map_of n' = upserted (map_of n) (matrix_entries m side)" if "upsert_vectors_matrix mem_runtime m side n = (Inr (), n')" for m side n n'
    using that unfolding mem_runtime_ops by (metis Pair_inject upsert_rows_upserted)
qed (erule (1) mem_applies | erule mem_deletes | erule (1) mem_lists | simp add: mem_runtime_ops)+

section \<open>Sample runs\<close>

definition sample_handle :: "mem lodedb" where
  "sample_handle = \<lparr> read_only = False, vector_only = False, store_text = True, index_text = True, vector_dim = 2,
     chunk_character_limit = 900, write_through = True, generation_mode = True, vector_mutable = True,
     auto_id_counter = 0, fallback_reason = None,
     engine = [(''n:a'', node_meta (sample_node ''a''), TextDoc ''an old label''),
               (''n:gone'', [(''kind'', ''node'')], TextDoc ''orphan''), (''note'', [], TextDoc ''other'')] \<rparr>"

text \<open>
  A graph of three nodes, one of them with a retained vector, whose index lost \<open>b\<close> and \<open>c\<close>, has an
  old form of \<open>a\<close> and an orphan.
\<close>

definition sample_graph :: topology where
  "sample_graph = run_ops insertion_plan
     [UpsertNodes [sample_node ''a'', sample_node ''b'', sample_node ''c''],
      UpsertEdges [sample_edge ''a'' ''b''], SetNodeVectors [(''a'', [Finite 1, Finite 0])]] topology_init"

lemma sample_graph_ok: "topology_ok sample_graph"
  unfolding sample_graph_def by (rule run_ops_ok [OF topology_init_ok]) code_simp

definition sample_kg :: "mem kg" where
  "sample_kg = \<lparr> kg_store = sample_graph, kg_db = sample_handle, index_edges = True, kg_read_only = False,
     retain_vectors = True, kg_vector_only = False, kg_tokens = 0 \<rparr>"

theorem vector_batch_accepted_iff_witness:
  "acceptable 2 True [[Finite 3, Finite 4]] \<and> \<not> acceptable 2 True [[Finite 0, Finite 0]]
   \<and> (\<exists>m. prepare_vector_matrix mem_runtime [[Finite 3, Finite 4]] 2 True = Inr m \<and> map length m = [2])
   \<and> (\<exists>msg. prepare_vector_matrix mem_runtime [[Finite 0, Finite 0]] 2 True = Inl (ValueError msg))"
proof -
  have n: "row_norm mem_runtime row = Finite 0" if "zero_row row" for row
  proof -
    have "list_all is_finite row" using that by (auto simp: zero_row_def list_all_iff)
    then show ?thesis using that max_abs_zero by (simp add: mem_runtime_def)
  qed
  have a: "acceptable 2 True [[Finite 3, Finite 4]]" and b: "\<not> acceptable 2 True [[Finite 0, Finite 0]]" by code_simp+
  show ?thesis
    using vector_batch_accepted_iff [OF n, where vectors = "[[Finite 3, Finite 4]]" and width = 2 and unit_norm = True] a
      vector_batch_accepted_iff [OF n, where vectors = "[[Finite 0, Finite 0]]" and width = 2 and unit_norm = True] b
    by (auto split: sum.splits)
qed

lemma sample_reindex:
  "case reindex mem_runtime insertion_plan sample_kg of
     (Inr c, _) \<Rightarrow> c = \<lparr> reindexed_nodes = 3, reindexed_labels = 2, reindexed_vectors = 1, unrebuildable = 0, removed_orphans = 1 \<rparr>
   | _ \<Rightarrow> False"
  by code_simp

lemma stored_nodes_rows: "map node_from_row (nodes s) = map Inr ns \<Longrightarrow> stored_nodes s = set ns"
proof -
  assume "map node_from_row (nodes s) = map Inr ns"
  then have "node_from_row ` set (nodes s) = Inr ` set ns" by (metis list.set_map)
  moreover have "stored_nodes s = {n. Inr n \<in> node_from_row ` set (nodes s)}" unfolding stored_nodes_def by (auto simp: image_iff intro: sym)
  ultimately show ?thesis by auto
qed

lemma sample_graph_nodes: "stored_nodes sample_graph = set [sample_node ''a'', sample_node ''b'', sample_node ''c'']"
  by (rule stored_nodes_rows) code_simp

lemma sample_wanted:
  "wanted_form sample_kg (sample_node ''a'') = ByVector [Finite 1, Finite 0]"
  "wanted_form sample_kg (sample_node ''b'') = ByText ''b''"
  by code_simp+

theorem reindex_effect_witness:
  "\<exists>c g'. reindex mem_runtime insertion_plan sample_kg = (Inr c, g')
     \<and> kg_store g' = sample_graph
     \<and> reindexed_labels c + reindexed_vectors c + unrebuildable c = 3
     \<and> (\<exists>x. map_of (engine (kg_db g')) ''n:a'' = Some x
          \<and> represents mem_runtime 2 (node_metadata (sample_node ''a'')) (ByVector [Finite 1, Finite 0]) x)
     \<and> (\<exists>x. map_of (engine (kg_db g')) ''n:b'' = Some x
          \<and> represents mem_runtime 2 (node_metadata (sample_node ''b'')) (ByText ''b'') x)
     \<and> map_of (engine (kg_db g')) ''note'' = Some ([], TextDoc ''other'')
     \<and> map_of (engine (kg_db g')) ''n:gone'' = None"
proof -
  obtain c g' where r: "reindex mem_runtime insertion_plan sample_kg = (Inr c, g')"
    using sample_reindex by (auto split: prod.splits sum.splits)
  have k: "kg_store sample_kg = sample_graph" "vector_dim (kg_db sample_kg) = 2"
      "engine (kg_db sample_kg) = engine sample_handle"
    by (simp_all add: sample_kg_def sample_handle_def)
  have o: "map_of (engine sample_handle) ''note'' = Some ([], TextDoc ''other'')"
    "\<not> of_kind ''node'' ([], TextDoc ''other'')" "\<not> of_kind ''edge'' ([], TextDoc ''other'')"
    by (simp_all add: sample_handle_def of_kind_def)
  have i: "\<forall>n \<in> stored_nodes sample_graph. ''note'' = NODE_PREFIX @ node_id n \<longrightarrow> wanted_form sample_kg n = Unindexed"
    "\<forall>n \<in> stored_nodes sample_graph. ''n:gone'' = NODE_PREFIX @ node_id n \<longrightarrow> wanted_form sample_kg n = Unindexed"
    "''n:gone'' \<notin> (\<lambda>n. NODE_PREFIX @ node_id n) ` stored_nodes sample_graph"
    unfolding sample_graph_nodes by code_simp+
  have o': "map_of (engine sample_handle) ''n:gone'' = Some ([(''kind'', ''node'')], TextDoc ''orphan'')"
    "of_kind ''node'' ([(''kind'', ''node'')], TextDoc ''orphan'')"
    by (simp_all add: sample_handle_def of_kind_def)
  have n: "node_count sample_graph = 3" by code_simp
  have m: "sample_node ''a'' \<in> stored_nodes sample_graph" "sample_node ''b'' \<in> stored_nodes sample_graph"
    by (simp_all add: sample_graph_nodes)
  have p: "NODE_PREFIX @ node_id (sample_node ''a'') = ''n:a''" "NODE_PREFIX @ node_id (sample_node ''b'') = ''n:b''"
    by code_simp+
  have s: "topology_ok (kg_store sample_kg)" unfolding k by (rule sample_graph_ok)
  note t = reindex_effect [OF mem.document_engine_axioms insertion_plan_ok s r refl refl, unfolded k]
  have "kg_store g' = sample_graph" "reindexed_labels c + reindexed_vectors c + unrebuildable c = 3"
    using t n by simp_all
  moreover have "map_of (engine (kg_db g')) ''note'' = Some ([], TextDoc ''other'')" "map_of (engine (kg_db g')) ''n:gone'' = None"
    using t o o' i by simp_all
  moreover note bspec [OF conjunct1 [OF conjunct2 [OF t]], OF m(1)] bspec [OF conjunct1 [OF conjunct2 [OF t]], OF m(2)]
  ultimately show ?thesis using r unfolding sample_wanted p by blast
qed

end
