(* ===== verification/Spec2Isabelle.thy ===== *)
theory Spec2Isabelle
  imports RankFusion JournalLaws DeltaLaws FileLock GraphTraversal MemoryEngine
begin

text \<open>
  A verification library for LodeDB, the embedded vector store whose Python package is
  \<open>src/src/lodedb\<close>.  File names below are relative to that directory.

  \<^bold>\<open>The program.\<close>  A caller holds a \<open>LodeDB\<close> handle (\<open>local/db.py\<close>) or a \<open>KnowledgeGraph\<close>
  (\<open>graph/knowledge_graph.py\<close>), which keeps a SQLite topology (\<open>graph/_store.py\<close>) as its source of truth
  and a handle as a rebuildable semantic index.  The handle checks its arguments and calls a compiled
  engine.  The Python engine layer (\<open>engine/\<close>) holds the metadata filter language, the lexical index
  and rank fusion, the route registry, the snapshot helpers, and the persistence of an index: a base
  snapshot plus a journal of document states and a log of vector deltas, published by atomic renames
  under a commit manifest, by one writer per directory.

  \<^bold>\<open>Python in this model.\<close>  \<open>Prelude\<close>: an exception is the left value of \<open>'a res\<close>, a dict is an
  association list in insertion order with unique keys, a dynamic value is a \<open>pyval\<close>.  \<open>PyNumber\<close>:
  reading of floats, rounding to binary64 and binary32, comparison.  \<open>JsonCodec\<close>: \<open>json.dumps\<close> and
  \<open>json.loads\<close>.  \<open>Hashing\<close>: UTF-8 and SHA-256 on 32-bit words.  \<open>Effects\<close>: computations that change a
  state and may raise without undoing what they changed.  \<open>FileSys\<close>: file operations with their trace
  and the states a crash of the process can leave: a prefix of the trace, the last write possibly torn.

  \<^bold>\<open>The components.\<close>

  \<^item> \<open>MetaFilter\<close> models \<open>engine/_predicate.py\<close>: \<open>validate_metadata_filter\<close>, \<open>coerce_sdk_filter\<close> and
    \<open>compile_metadata_filter\<close>.  The compiled predicate of a validated filter equals a reference
    semantics, coercion is accepted by validation unchanged, the ordered operators are total and
    consistent, and the nesting limit is exact for every combination of accepted filters.
  \<^item> \<open>Tokens\<close>, \<open>Bm25\<close> and \<open>RankFusion\<close> model \<open>engine/_lexical.py\<close>: the tokenizer, the incremental
    inverted index as a record with one field per attribute of \<open>Bm25Index\<close>, and reciprocal rank fusion.
    Every sequence of index operations refines the operations on an abstract set of units (locale
    \<open>unit_store\<close>), ranking returns exactly the BM25 scores in order, and an edited index ranks like one
    built in bulk.  The tokenizer is characterized by a grammar of maximal runs, and fusion keeps the
    order both rankings agree on.  The float operations of scoring are the parameter \<open>arith\<close>; where
    their rounding matters, \<open>float_like\<close> bounds its relative error as binary64 does.
  \<^item> \<open>Routes\<close> and \<open>EngineCore\<close> model \<open>engine/route_registry.py\<close>, \<open>engine/route_profiles.py\<close>,
    \<open>engine/runtime_policy.py\<close> and the data contracts of \<open>engine/core.py\<close>: route selection, registry
    serialization, chunking, metadata validation, snapshot checks and telemetry redaction.
  \<^item> \<open>AtomicIo\<close> models \<open>engine/_atomic_io.py\<close> and \<open>engine/_commit_manifest.py\<close>: a process crash at any point
    leaves the old or the new manifest, which is read back or refused.
  \<^item> \<open>SegmentStore\<close> holds what the two logs share (locale \<open>segment_log\<close>, interpreted on both).
    \<open>StateJournal\<close>, \<open>JournalReplay\<close> and \<open>JournalLaws\<close> model \<open>engine/state_journal_store.py\<close>, \<open>DeltaStore\<close>
    and \<open>DeltaLaws\<close> model \<open>engine/turbovec_delta_store.py\<close>.  Replaying a log refines the batches applied
    to a map of documents (of rows), also from every crash state of an append; recovery restores the
    committed log; a new base empties it; replay fails closed.  The native index is the parameter
    \<open>index_ops\<close>; \<open>index_laws\<close> states its documented behaviour on an index of committed dimension, where
    adding encoded rows of finite scale overwrites or appends them.
  \<^item> \<open>FileLock\<close> models \<open>engine/_filelock.py\<close> as a step relation over processes and a kernel table:
    mutual exclusion in every reachable state, termination of the polling loop, and acquisition of a
    free lock.
  \<^item> \<open>Topology\<close> models \<open>graph/_store.py\<close>: tables as dicts, one definition per method, statements that
    fail without effect.  Typed operations keep the store well-formed and its reads defined, and
    batching of adjacency queries is invisible.  The order in which rows and sets are returned is the
    record \<open>plan\<close>, of which only \<open>plan_ok\<close> is assumed: a permutation of the rows asked for.
  \<^item> \<open>LodeSdk\<close> models the handle of \<open>local/db.py\<close> as the record \<open>lodedb\<close>, with the compiled engine and
    the embedding backend as the record \<open>runtime\<close>: argument checks, the engine calls in their order,
    and the fail-closed wrapping of failures.  A document is found by the filter of its own metadata,
    and exactly the well-formed vector batches are accepted.
  \<^item> \<open>KnowledgeGraph\<close> models \<open>graph/knowledge_graph.py\<close> as the record \<open>kg\<close> over both stores.
    \<open>GraphTraversal\<close> shows that \<open>k_hop\<close> returns exactly the nodes within \<open>k\<close> hops and the edges crossed,
    and what its node budget, which never cuts the seeds, leaves.  \<open>SdkLaws\<close> states the engine's contract as the locale
    \<open>document_engine\<close>; \<open>GraphLaws\<close> proves under it what \<open>reindex\<close> does to the index, whatever it held: the
    nodes that have a retained vector or a label are indexed in that form, documents of entities that
    are gone are dropped, and everything else stays, so the old document of a node that has become
    unrebuildable is kept and a lost edge document is not restored.  \<open>MemoryEngine\<close> interprets the contract on a reference engine that
    filters with \<open>MetaFilter\<close>, on which the sample runs are evaluated.

  \<^bold>\<open>Bounds.\<close>  Two definitions carry fuel.  The JSON scanner is given more than twice the length of its
  input, and \<open>json_fuel_enough\<close> shows that more never changes its result.  The lock's \<open>acquire_loop\<close> has
  one unit per polling round and returns \<open>None\<close> when it has run out: for a finite timeout a bound on the
  rounds is proved, and for the timeout \<open>nan\<close> that no number of rounds is enough.  \<open>hop_loop\<close> recurses on
  the number of hops the source iterates over.  Characters are those of Latin-1.  Messages of
  exceptions are cut to their fixed part.

  \<^bold>\<open>Not modelled.\<close>  The compiled engine and its bindings (\<open>engine/native_adapter.py\<close>, \<open>_native_core.py\<close>,
  \<open>engine/turbovec_index.py\<close>, \<open>engine/gpu_turbovec.py\<close>), model inference and downloads
  (\<open>engine/embedding_backends.py\<close>, \<open>local/backends.py\<close>, \<open>local/onnx_artifacts.py\<close>), and what marshals
  arguments to them (\<open>graph/temporal.py\<close>, \<open>local/late_interaction.py\<close>, \<open>local/appender.py\<close>,
  \<open>local/checkpointer.py\<close>, \<open>local/segments.py\<close>) are outside the Python sources or only pass data on.  The
  cloud client, the servers, the command line and the diagnostics are network and console input and
  output.  The migration sources and the framework integrations rest on third-party classes.  Of the
  handle, opening and closing (with \<open>local/collection.py\<close>, which opens handles), image calls, flat-array
  search, stored-vector reads, compaction, refresh and the resolution of index options are left out;
  of \<open>engine/core.py\<close>, the bind-host check, which needs the \<open>ipaddress\<close> parser, and the snapshot audit
  (\<open>audit_persisted_index_snapshots\<close> and \<open>_audit_snapshot_row\<close>), a report on the files of a directory.
  A failing \<open>fsync\<close> and the reordering of writes by a loss of power are not covered: in the crash states
  operations take effect in program order, so \<open>fsync\<close> has no effect on them.  The SQLite connection, log
  lines and wall-clock fields are left out as well.
\<close>

end
